(* ===== verification/Prelude.thy ===== *)
theory Prelude
  imports Complex_Main "HOL-Library.Log_Nat"
begin

text \<open>
  Shared ground of the development: the collections the component proofs draw on, the error
  values the backend throws, the two computation shapes (a fallible value, and a fallible
  statement that threads a state), and generic list and digit lemmas.

  A fallible TypeScript function is a HOL function into \<open>err + 'a\<close>: \<open>Inl e\<close> is the
  exception \<open>e\<close>, \<open>Inr v\<close> the returned value. A function that also changes a state
  \<open>'s\<close> is an \<open>('s, 'a) stmt\<close>: it either throws or returns a value with the new state.
\<close>

named_theorems stmt_simps \<open>computation rules of statements\<close>
named_theorems row_defs \<open>definitions of table operations, unfolded together\<close>

section \<open>Exceptions\<close>

text \<open>
  The exception classes the sources throw. The NestJS classes carry the i18n key that is
  their message; developer-facing message texts of plain errors are kept only where a caller
  can observe them. \<open>DbError\<close> carries the SQLSTATE of a PostgreSQL error.
\<close>

datatype err =
    BadRequestException string
  | ForbiddenException string
  | NotFoundException string
  | ConflictException string
  | UnauthorizedException string
  | MoneyError
  | AdvanceCapExceededError
  | MissingTemplateError string
  | RangeError
  | TypeError
  | PlainError string
  | DbError string
  | ConnectionError

section \<open>Fallible values\<close>

definition sum_bind :: "err + 'a \<Rightarrow> ('a \<Rightarrow> err + 'b) \<Rightarrow> err + 'b" where
  "sum_bind r k = (case r of Inl e \<Rightarrow> Inl e | Inr v \<Rightarrow> k v)"

lemma sum_bind_simps [simp]:
  "sum_bind (Inl e) k = Inl e"
  "sum_bind (Inr v) k = k v"
  by (simp_all add: sum_bind_def)

lemma sum_bind_Inr_iff:
  "sum_bind r k = Inr w \<longleftrightarrow> (\<exists>v. r = Inr v \<and> k v = Inr w)"
  by (cases r) simp_all

lemma sum_bind_cong [fundef_cong]:
  "r = r' \<Longrightarrow> (\<And>v. r' = Inr v \<Longrightarrow> k v = k' v) \<Longrightarrow> sum_bind r k = sum_bind r' k'"
  by (cases r') simp_all

text \<open>\<open>Array.map\<close> with a callback that may throw: the first exception wins.\<close>

fun map_throwing :: "('a \<Rightarrow> err + 'b) \<Rightarrow> 'a list \<Rightarrow> err + 'b list" where
  "map_throwing f [] = Inr []"
| "map_throwing f (x # xs) =
     sum_bind (f x) (\<lambda>y. sum_bind (map_throwing f xs) (\<lambda>ys. Inr (y # ys)))"

lemma map_throwing_Inr_iff:
  "map_throwing f xs = Inr ys \<longleftrightarrow> list_all2 (\<lambda>x y. f x = Inr y) xs ys"
proof (induction xs arbitrary: ys)
  case Nil
  then show ?case by auto
next
  case (Cons x xs)
  then show ?case by (cases ys) (auto simp: sum_bind_Inr_iff)
qed

lemma sum_list_map_of_int: "sum_list (map of_int ns) = (of_int (sum_list ns) :: 'a::ring_1)"
  by (induction ns) simp_all

lemma list_all2_in2: "list_all2 P xs ys \<Longrightarrow> y \<in> set ys \<Longrightarrow> \<exists>x\<in>set xs. P x y"
  by (induction rule: list_all2_induct) auto

lemma list_all2_in1: "list_all2 P xs ys \<Longrightarrow> x \<in> set xs \<Longrightarrow> \<exists>y\<in>set ys. P x y"
  by (induction rule: list_all2_induct) auto

lemma map_throwing_length: "map_throwing f xs = Inr ys \<Longrightarrow> length ys = length xs"
  by (auto simp: map_throwing_Inr_iff dest: list_all2_lengthD)

section \<open>Fallible statements over a state\<close>

type_synonym ('s, 'a) stmt = "'s \<Rightarrow> err + 'a \<times> 's"

definition stmt_return :: "'a \<Rightarrow> ('s, 'a) stmt" where
  "stmt_return a s = Inr (a, s)"

definition stmt_throw :: "err \<Rightarrow> ('s, 'a) stmt" where
  "stmt_throw e s = Inl e"

definition stmt_lift :: "err + 'a \<Rightarrow> ('s, 'a) stmt" where
  "stmt_lift r s = (case r of Inl e \<Rightarrow> Inl e | Inr a \<Rightarrow> Inr (a, s))"

definition stmt_bind :: "('s, 'a) stmt \<Rightarrow> ('a \<Rightarrow> ('s, 'b) stmt) \<Rightarrow> ('s, 'b) stmt" where
  "stmt_bind m k s = (case m s of Inl e \<Rightarrow> Inl e | Inr (a, s') \<Rightarrow> k a s')"

text \<open>A \<open>for\<close> loop whose body awaits one statement per element.\<close>

fun stmt_for :: "'a list \<Rightarrow> ('a \<Rightarrow> ('s, unit) stmt) \<Rightarrow> ('s, unit) stmt" where
  "stmt_for [] f = stmt_return ()"
| "stmt_for (x # xs) f = stmt_bind (f x) (\<lambda>_. stmt_for xs f)"

lemma stmt_return_apply [simp, stmt_simps]: "stmt_return a s = Inr (a, s)"
  by (simp add: stmt_return_def)

lemma stmt_throw_apply [simp, stmt_simps]: "stmt_throw e s = Inl e"
  by (simp add: stmt_throw_def)

lemma stmt_lift_apply [simp, stmt_simps]:
  "stmt_lift (Inl e) s = Inl e"
  "stmt_lift (Inr a) s = Inr (a, s)"
  by (simp_all add: stmt_lift_def)

lemma stmt_bind_Inl [simp, stmt_simps]: "m s = Inl e \<Longrightarrow> stmt_bind m k s = Inl e"
  by (simp add: stmt_bind_def)

lemma stmt_bind_Inr [simp, stmt_simps]: "m s = Inr (a, s') \<Longrightarrow> stmt_bind m k s = k a s'"
  by (simp add: stmt_bind_def)

lemma stmt_bind_Inr_iff:
  "stmt_bind m k s = Inr (b, t) \<longleftrightarrow> (\<exists>a s'. m s = Inr (a, s') \<and> k a s' = Inr (b, t))"
  by (auto simp: stmt_bind_def split: sum.splits)

lemma stmt_lift_Inr_iff: "stmt_lift r s = Inr (a, t) \<longleftrightarrow> r = Inr a \<and> t = s"
  by (cases r) auto

text \<open>
  A relation between the states before and after that is reflexive and transitive is kept by
  a loop when each round keeps it.
\<close>

lemma stmt_for_preserves:
  assumes "stmt_for xs f s = Inr (u, t)"
    and "\<And>x s v t. x \<in> set xs \<Longrightarrow> f x s = Inr (v, t) \<Longrightarrow> R s t"
    and "\<And>s. R s s" and "\<And>a b c. R a b \<Longrightarrow> R b c \<Longrightarrow> R a c"
  shows "R s t"
  using assms(1,2)
proof (induction xs arbitrary: s)
  case Nil
  then show ?case using assms(3) by simp
next
  case (Cons x xs)
  from Cons.prems(1) obtain v s' where
    1: "f x s = Inr (v, s')" and 2: "stmt_for xs f s' = Inr (u, t)"
    by (auto simp: stmt_bind_Inr_iff)
  have "R s s'" using Cons.prems(2)[OF _ 1] by simp
  moreover have "R s' t" by (rule Cons.IH[OF 2]) (rule Cons.prems(2), auto)
  ultimately show ?case using assms(4) by blast
qed

section \<open>Lists\<close>

text \<open>\<open>rows[0] ?? null\<close> and \<open>Array.find\<close>.\<close>

definition first_row :: "'a list \<Rightarrow> 'a option" where
  "first_row xs = (case xs of [] \<Rightarrow> None | x # _ \<Rightarrow> Some x)"

lemma first_row_simps [simp]:
  "first_row [] = None"
  "first_row (x # xs) = Some x"
  by (simp_all add: first_row_def)

lemma first_row_filter: "first_row (filter P xs) = find P xs"
  by (induction xs) auto

lemma first_row_Some: "first_row xs = Some x \<Longrightarrow> x \<in> set xs"
  by (cases xs) auto

lemma find_Some_in: "find P xs = Some x \<Longrightarrow> x \<in> set xs \<and> P x"
  by (induction xs) (auto split: if_splits)

lemma find_None_all: "find P xs = None \<longleftrightarrow> (\<forall>x\<in>set xs. \<not> P x)"
  by (induction xs) auto

lemma find_append_fresh:
  "i \<notin> key ` set xs \<Longrightarrow> key y = i \<Longrightarrow> find (\<lambda>x. key x = i) (xs @ [y]) = Some y"
  by (induction xs) auto

lemma find_append_other:
  "key y \<noteq> i \<Longrightarrow> find (\<lambda>x. key x = i) (xs @ [y]) = find (\<lambda>x. key x = i) xs"
  by (induction xs) auto

text \<open>An \<open>UPDATE ... WHERE\<close>: every matching row is rewritten in place.\<close>

definition update_rows :: "('a \<Rightarrow> bool) \<Rightarrow> ('a \<Rightarrow> 'a) \<Rightarrow> 'a list \<Rightarrow> 'a list" where
  "update_rows P f rows = map (\<lambda>r. if P r then f r else r) rows"

lemma update_rows_simps [simp]:
  "update_rows P f [] = []"
  "update_rows P f (r # rows) = (if P r then f r else r) # update_rows P f rows"
  "length (update_rows P f rows) = length rows"
  by (simp_all add: update_rows_def)

lemma update_rows_append: "update_rows P f (xs @ ys) = update_rows P f xs @ update_rows P f ys"
  by (simp add: update_rows_def)

lemma update_rows_map:
  "(\<And>r. P r \<Longrightarrow> g (f r) = g r) \<Longrightarrow> map g (update_rows P f rows) = map g rows"
  by (simp add: update_rows_def)

lemma update_rows_none: "(\<And>r. r \<in> set rows \<Longrightarrow> \<not> P r) \<Longrightarrow> update_rows P f rows = rows"
  by (simp add: update_rows_def map_idI)

lemma in_update_rows:
  "r \<in> set (update_rows P f rows) \<longleftrightarrow>
     (\<exists>r0\<in>set rows. r = (if P r0 then f r0 else r0))"
  by (auto simp: update_rows_def)

text \<open>A row found by its key before an update that keeps keys is found after it, updated.\<close>

lemma find_update_rows:
  assumes "\<And>r. key (f r) = key r"
  shows "find (\<lambda>r. key r = i) (update_rows (\<lambda>r. key r = j) f rows) =
    map_option (\<lambda>r. if i = j then f r else r) (find (\<lambda>r. key r = i) rows)"
  using assms by (induction rows) auto

lemma distinct_map_same:
  "distinct (map g xs) \<Longrightarrow> x \<in> set xs \<Longrightarrow> y \<in> set xs \<Longrightarrow> g x = g y \<Longrightarrow> x = y"
  by (auto simp: distinct_map inj_on_def)

end
