(* ===== verification/JsNumber.thy ===== *)
theory JsNumber
  imports Prelude
begin

text \<open>
  The JavaScript numbers the backend computes with. Every finite IEEE-754 double is a
  rational, so a finite JavaScript number is a \<open>rat\<close>, and each arithmetic operation is the
  exact one followed by \<open>fl\<close>, the rounding to 53 significant bits (nearest, ties to
  even). Not represented: NaN, the infinities (so no overflow beyond \<open>2 ^ 1024\<close>), the
  sign of zero and the subnormal range; no operation of the modelled code reaches the last
  three, and NaN only enters through \<open>Invalid Date\<close>, which the date model has.

  The lemmas show when the rounding is invisible: integers up to \<open>2 ^ 53\<close> are exact, and
  the floor of a hundredth of such an integer is the exact integer division.
\<close>

type_synonym number = rat

section \<open>Rounding to double precision\<close>

text \<open>The binary exponent: the integer \<open>e\<close> with \<open>2 powi e \<le> \<bar>x\<bar> < 2 powi (e + 1)\<close>.\<close>

definition exponent :: "rat \<Rightarrow> int" where
  "exponent x =
     (let (p, q) = quotient_of \<bar>x\<bar>; k = bitlen p - bitlen q
      in if (2::rat) powi k \<le> \<bar>x\<bar> then k else k - 1)"

definition round_half_even :: "rat \<Rightarrow> int" where
  "round_half_even y =
     (let f = \<lfloor>y\<rfloor>; d = y - of_int f
      in if d < 1/2 then f else if d > 1/2 then f + 1 else if even f then f else f + 1)"

definition fl :: "rat \<Rightarrow> number" where
  "fl x =
     (if x = 0 then 0
      else let u = (2::rat) powi (exponent x - 52) in u * of_int (round_half_even (x / u)))"

text \<open>\<open>Number.isInteger\<close>, \<open>Number.isSafeInteger\<close>, \<open>Math.floor\<close> and the
  remainder \<open>%\<close> of non-negative operands (exact in JavaScript).\<close>

definition isInteger :: "number \<Rightarrow> bool" where
  "isInteger x \<longleftrightarrow> of_int \<lfloor>x\<rfloor> = x"

definition isSafeInteger :: "number \<Rightarrow> bool" where
  "isSafeInteger x \<longleftrightarrow> isInteger x \<and> \<bar>x\<bar> \<le> 2 ^ 53 - 1"

definition js_floor :: "number \<Rightarrow> number" where
  "js_floor x = of_int \<lfloor>x\<rfloor>"

definition js_rem :: "number \<Rightarrow> number \<Rightarrow> number" where
  "js_rem a b = a - b * of_int \<lfloor>a / b\<rfloor>"

section \<open>The exponent\<close>

lemma bitlen_pow_bounds:
  assumes "0 < (p::int)"
  shows "(2::rat) powi (bitlen p - 1) \<le> of_int p" and "of_int p < (2::rat) powi bitlen p"
proof -
  have b: "1 \<le> bitlen p"
    using assms bitlen_nonneg[of p] bitlen_eq_zero_iff[of p] by linarith
  from bitlen_bounds[OF assms]
  have lo: "2 ^ nat (bitlen p - 1) \<le> p" and hi: "p < 2 ^ nat (bitlen p)" by auto
  have "(2::rat) ^ nat (bitlen p - 1) = of_int (2 ^ nat (bitlen p - 1))" by simp
  also have "\<dots> \<le> of_int p" using lo by (simp only: of_int_le_iff)
  finally show "(2::rat) powi (bitlen p - 1) \<le> of_int p" using b by (simp add: power_int_def)
  have "of_int p < (of_int (2 ^ nat (bitlen p)) :: rat)" using hi by (simp only: of_int_less_iff)
  also have "\<dots> = (2::rat) ^ nat (bitlen p)" by simp
  finally show "of_int p < (2::rat) powi bitlen p" using b by (simp add: power_int_def)
qed

lemma powi2_pos [simp]: "0 < (2::rat) powi k"
  by (simp add: zero_less_power_int)

lemma powi2_add: "(2::rat) powi (a + b) = 2 powi a * 2 powi b"
  by (simp add: power_int_add)

lemma powi2_mono: "a \<le> b \<Longrightarrow> (2::rat) powi a \<le> 2 powi b"
  by (simp add: power_int_increasing)

lemma powi2_less_cancel: "(2::rat) powi a < 2 powi b \<Longrightarrow> a < b"
  using powi2_mono[of b a] by force

lemma exponent_bounds:
  assumes "x \<noteq> 0"
  shows "(2::rat) powi exponent x \<le> \<bar>x\<bar>" and "\<bar>x\<bar> < 2 powi (exponent x + 1)"
proof -
  obtain p q where pq: "quotient_of \<bar>x\<bar> = (p, q)" by (cases "quotient_of \<bar>x\<bar>")
  have q: "0 < q" using quotient_of_denom_pos[OF pq] .
  have x: "\<bar>x\<bar> = of_int p / of_int q" using quotient_of_div[OF pq] .
  have "0 < (of_int p :: rat) / of_int q" using assms x by (metis zero_less_abs_iff)
  then have p: "0 < p" using q by (simp add: zero_less_divide_iff)
  let ?k = "bitlen p - bitlen q"
  have xq: "\<bar>x\<bar> * of_int q = of_int p" using x q by simp
  have lo: "(2::rat) powi (?k - 1) \<le> \<bar>x\<bar>"
  proof -
    have "(2::rat) powi (?k - 1) * of_int q \<le> 2 powi (?k - 1) * 2 powi bitlen q"
      using bitlen_pow_bounds(2)[OF q] by (simp add: mult_left_mono)
    also have "\<dots> = 2 powi (bitlen p - 1)" by (simp flip: powi2_add)
    also have "\<dots> \<le> of_int p" by (rule bitlen_pow_bounds(1)[OF p])
    finally show ?thesis using xq q by (metis mult_right_le_imp_le of_int_0_less_iff)
  qed
  have hi: "\<bar>x\<bar> < (2::rat) powi (?k + 1)"
  proof -
    have "of_int p < (2::rat) powi bitlen p" by (rule bitlen_pow_bounds(2)[OF p])
    also have "\<dots> = 2 powi (?k + 1) * 2 powi (bitlen q - 1)" by (simp flip: powi2_add)
    also have "\<dots> \<le> 2 powi (?k + 1) * of_int q"
      using bitlen_pow_bounds(1)[OF q] by (simp add: mult_left_mono)
    finally show ?thesis using xq q by (metis mult_less_cancel_right_pos of_int_0_less_iff)
  qed
  show "(2::rat) powi exponent x \<le> \<bar>x\<bar>" "\<bar>x\<bar> < 2 powi (exponent x + 1)"
    using lo hi by (auto simp: exponent_def pq Let_def)
qed

lemma exponent_less: "x \<noteq> 0 \<Longrightarrow> \<bar>x\<bar> < 2 powi k \<Longrightarrow> exponent x < k"
  using exponent_bounds(1)[of x] powi2_less_cancel[of "exponent x" k] by linarith

lemma exponent_unique:
  assumes "(2::rat) powi e \<le> \<bar>x\<bar>" and "\<bar>x\<bar> < 2 powi (e + 1)"
  shows "exponent x = e"
proof -
  have x: "x \<noteq> 0" using assms(1) powi2_pos[of e] by force
  have "exponent x < e + 1" by (rule exponent_less[OF x assms(2)])
  moreover have "(2::rat) powi e < 2 powi (exponent x + 1)"
    using assms(1) exponent_bounds(2)[OF x] by linarith
  then have "e < exponent x + 1" by (rule powi2_less_cancel)
  ultimately show ?thesis by simp
qed

section \<open>The rounding error\<close>

lemma round_half_even_error: "\<bar>of_int (round_half_even y) - y\<bar> \<le> 1/2"
proof -
  have "0 \<le> y - of_int \<lfloor>y\<rfloor>" "y - of_int \<lfloor>y\<rfloor> < 1" by linarith+
  then show ?thesis by (simp add: round_half_even_def Let_def abs_le_iff)
qed

lemma round_half_even_int [simp]: "round_half_even (of_int n) = n"
  by (simp add: round_half_even_def)

lemma fl_0 [simp]: "fl 0 = 0"
  by (simp add: fl_def)

lemma fl_error:
  assumes "x \<noteq> 0"
  shows "\<bar>fl x - x\<bar> \<le> 2 powi (exponent x - 53)"
proof -
  let ?u = "(2::rat) powi (exponent x - 52)"
  let ?r = "of_int (round_half_even (x / ?u)) :: rat"
  have u: "0 < ?u" by simp
  have "fl x - x = ?u * (?r - x / ?u)"
    using assms u by (simp add: fl_def Let_def right_diff_distrib)
  then have "\<bar>fl x - x\<bar> = ?u * \<bar>?r - x / ?u\<bar>" using u by (simp add: abs_mult)
  also have "\<dots> \<le> ?u * (1/2)"
    using u round_half_even_error[of "x / ?u"] by (intro mult_left_mono) auto
  also have "\<dots> = 2 powi (exponent x - 53)"
    using powi2_add[of "exponent x - 53" 1] by simp
  finally show ?thesis .
qed

lemma fl_ge_half:
  assumes "0 < x"
  shows "x / 2 \<le> fl x"
proof -
  have x: "x \<noteq> 0" "\<bar>x\<bar> = x" using assms by simp_all
  have "(2::rat) powi (exponent x - 53) \<le> 2 powi (exponent x - 1)" by (rule powi2_mono) simp
  also have "\<dots> = 2 powi exponent x / 2" using powi2_add[of "exponent x - 1" 1] by simp
  also have "\<dots> \<le> x / 2" using exponent_bounds(1)[OF x(1)] x(2) by simp
  finally show ?thesis using fl_error[OF x(1)] by (simp add: abs_le_iff)
qed

lemma fl_exact:
  assumes "x / 2 powi (exponent x - 52) = of_int n"
  shows "fl x = x"
proof (cases "x = 0")
  case False
  have "fl x = 2 powi (exponent x - 52) * of_int n"
    using False by (simp add: fl_def Let_def assms)
  also have "\<dots> = x" by (simp flip: assms)
  finally show ?thesis .
qed simp

text \<open>Rounding never changes the sign.\<close>

lemma fl_sign_pos:
  assumes "0 < x"
  shows "0 < fl x"
proof -
  have "(2::rat) powi (exponent x - 53) < 2 powi exponent x"
    using power_int_strict_increasing[of "exponent x - 53" "exponent x" "2::rat"] by simp
  then show ?thesis
    using fl_error[of x] exponent_bounds(1)[of x] assms by (simp add: abs_le_iff)
qed

lemma fl_sign_neg:
  assumes "x < 0"
  shows "fl x < 0"
proof -
  have "(2::rat) powi (exponent x - 53) < 2 powi exponent x"
    using power_int_strict_increasing[of "exponent x - 53" "exponent x" "2::rat"] by simp
  then show ?thesis
    using fl_error[of x] exponent_bounds(1)[of x] assms by (simp add: abs_le_iff)
qed

lemma fl_neg_iff [simp]: "fl x < 0 \<longleftrightarrow> x < 0"
  using fl_sign_pos[of x] fl_sign_neg[of x] by (cases x "0::rat" rule: linorder_cases) auto

section \<open>Integers up to 2 to the 53 are exact\<close>

lemma isInteger_of_int [simp]: "isInteger (of_int n)"
  by (simp add: isInteger_def)

lemma isInteger_numeral [simp]:
  "isInteger 0" "isInteger 1" "isInteger (numeral k)" "isInteger (- numeral k)"
proof -
  show "isInteger 0" using isInteger_of_int[of 0] by simp
  show "isInteger 1" using isInteger_of_int[of 1] by simp
  show "isInteger (numeral k)" using isInteger_of_int[of "numeral k"] by simp
  show "isInteger (- numeral k)" using isInteger_of_int[of "- numeral k"] by simp
qed

lemma isInteger_cases:
  assumes "isInteger x" obtains n where "x = of_int n"
  using assms by (metis isInteger_def)

lemma isInteger_closed [intro]:
  "isInteger x \<Longrightarrow> isInteger y \<Longrightarrow> isInteger (x + y)"
  "isInteger x \<Longrightarrow> isInteger y \<Longrightarrow> isInteger (x - y)"
  "isInteger x \<Longrightarrow> isInteger y \<Longrightarrow> isInteger (x * y)"
  "isInteger x \<Longrightarrow> isInteger (- x)"
  "isInteger x \<Longrightarrow> isInteger \<bar>x\<bar>"
  by (auto elim!: isInteger_cases simp flip: of_int_add of_int_diff of_int_mult of_int_minus of_int_abs)

lemma js_floor_isInteger [simp]: "isInteger (js_floor x)"
  by (simp add: js_floor_def)

lemma powi2_nat: "0 \<le> k \<Longrightarrow> (2::rat) powi k = of_int (2 ^ nat k)"
  by (simp add: power_int_def)

lemma fl_of_int:
  assumes "\<bar>n\<bar> \<le> 2 ^ 53"
  shows "fl (of_int n) = of_int n"
proof (cases "\<bar>n\<bar> = 2 ^ 53")
  case True
  have abs_n: "\<bar>of_int n :: rat\<bar> = 2 ^ 53"
    using True by (metis of_int_abs of_int_numeral of_int_power)
  have "exponent (of_int n) = 53"
    by (rule exponent_unique) (simp_all add: abs_n)
  moreover have "even n" using True by (metis dvd_abs_iff even_numeral even_power zero_less_numeral)
  then have "n = 2 * (n div 2)" by simp
  then have "(of_int n :: rat) = 2 * of_int (n div 2)"
    by (metis of_int_mult of_int_numeral)
  ultimately have "of_int n / 2 powi (exponent (of_int n) - 52) = (of_int (n div 2) :: rat)"
    by simp
  then show ?thesis by (rule fl_exact)
next
  case False
  show ?thesis
  proof (cases "n = 0")
    case n0: False
    then have "(of_int n :: rat) \<noteq> 0" by simp
    moreover have "\<bar>of_int n :: rat\<bar> < 2 powi 53"
    proof -
      have "\<bar>n\<bar> < 2 ^ 53" using assms False by linarith
      then have "(of_int \<bar>n\<bar> :: rat) < of_int (2 ^ 53)" by (simp only: of_int_less_iff)
      then show ?thesis by simp
    qed
    ultimately have e: "exponent (of_int n) < 53" by (rule exponent_less)
    let ?e = "exponent (of_int n)"
    have "(of_int n :: rat) / 2 powi (?e - 52) = of_int n * 2 powi (52 - ?e)"
      using power_int_minus[of "2::rat" "52 - ?e"] by (simp add: field_simps)
    also have "\<dots> = of_int (n * 2 ^ nat (52 - ?e))" using e by (simp add: powi2_nat)
    finally show ?thesis by (rule fl_exact)
  qed simp
qed

lemma fl_isInteger: "isInteger x \<Longrightarrow> \<bar>x\<bar> \<le> 2 ^ 53 \<Longrightarrow> fl x = x"
proof (elim isInteger_cases)
  fix n assume x: "x = of_int n" and "\<bar>x\<bar> \<le> 2 ^ 53"
  then have "(of_int \<bar>n\<bar> :: rat) \<le> of_int (2 ^ 53)" by simp
  then have "\<bar>n\<bar> \<le> 2 ^ 53" by (simp only: of_int_le_iff)
  then show "fl x = x" unfolding x by (rule fl_of_int)
qed

text \<open>
  Dividing an integer of safe size by 100 rounds by less than a hundredth, so the floor of
  the rounded quotient is the exact one: \<open>Math.floor(a / 100)\<close> is integer division.
\<close>

lemma fl_hundredth_error:
  assumes "\<bar>m\<bar> \<le> (2::int) ^ 53"
  shows "\<bar>fl (of_int m / 100) - of_int m / 100\<bar> < 1 / 100"
proof (cases "m = 0")
  case False
  let ?x = "of_int m / 100 :: rat"
  have "\<bar>?x\<bar> = of_int \<bar>m\<bar> / 100" by simp
  also have "\<dots> \<le> of_int (2 ^ 53) / 100"
    using assms by (intro divide_right_mono) (simp only: of_int_le_iff, simp)
  also have "\<dots> < 2 powi 47" by simp
  finally have "exponent ?x < 47" using False by (intro exponent_less) auto
  then have "\<bar>fl ?x - ?x\<bar> \<le> 2 powi (- 7)"
    using fl_error[of ?x] False powi2_mono[of "exponent ?x - 53" "- 7"] by simp
  also have "\<dots> < 1 / 100" by (simp add: power_int_minus)
  finally show ?thesis .
qed simp

lemma floor_of_int_div: "\<lfloor>(of_int m :: rat) / of_int k\<rfloor> = m div k"
  by (simp add: floor_divide_of_int_eq)

lemma floor_fl_hundredth:
  assumes "\<bar>m\<bar> \<le> (2::int) ^ 53"
  shows "\<lfloor>fl (of_int m / 100)\<rfloor> = m div 100"
proof (cases "m mod 100 = 0")
  case True
  then obtain k where m: "m = 100 * k" by auto
  then have "fl (of_int m / 100) = of_int k" using assms by (simp add: fl_of_int)
  then show ?thesis using m by simp
next
  case False
  let ?q = "m div 100" and ?r = "m mod 100"
  have r: "1 \<le> ?r" "?r \<le> 99" using False pos_mod_bound[of 100 m] pos_mod_sign[of 100 m] by linarith+
  have "(of_int m :: rat) = 100 * of_int ?q + of_int ?r"
    by (metis mult_div_mod_eq of_int_add of_int_mult of_int_numeral)
  then have x: "(of_int m :: rat) / 100 = of_int ?q + of_int ?r / 100"
    by (simp add: add_divide_distrib)
  have "(1::rat) \<le> of_int ?r" "(of_int ?r :: rat) \<le> 99" using r by simp_all
  then show ?thesis
    using fl_hundredth_error[OF assms] unfolding x by (intro floor_unique) (simp_all add: abs_less_iff field_simps)
qed

end
