(* ===== verification/Money.thy ===== *)
theory Money
  imports JsString
begin

text \<open>
  \<open>api/src/common/money.ts\<close>: BDT amounts as integer poisha, the conversions to and from
  the \<open>NUMERIC(12,2)\<close> text of the database, and the checked arithmetic. A \<open>Poisha\<close> is
  a JavaScript number, so every operation rounds with \<open>fl\<close>; the lemmas show that inside
  the range of the column no operation rounds. The overload of \<open>takaToPoisha\<close> that takes
  a number is not modelled: every caller passes the string the driver returns.
\<close>

type_synonym poisha = number

section \<open>Operations\<close>

definition MAX_TAKA :: number where
  "MAX_TAKA = fl (999999999999 / 100)"

text \<open>The regular expression \<open>/^-?\d+(\.\d+)?$/\<close>.\<close>

definition bdt_pattern :: "string \<Rightarrow> bool" where
  "bdt_pattern t =
     (let body = (if startsWith ''-'' t then tl t else t);
          w = takeWhile is_digit body; r = dropWhile is_digit body
      in w \<noteq> [] \<and> (r = [] \<or> (hd r = CHR ''.'' \<and> tl r \<noteq> [] \<and> list_all is_digit (tl r))))"

text \<open>The regular expression \<open>/[1-9]/\<close>.\<close>

definition has_nonzero_digit :: "string \<Rightarrow> bool" where
  "has_nonzero_digit s \<longleftrightarrow> list_ex (\<lambda>c. is_digit c \<and> c \<noteq> CHR ''0'') s"

definition takaToPoisha :: "string \<Rightarrow> err + poisha" where
  "takaToPoisha amount =
     (let text = trim amount in
      if \<not> bdt_pattern text then Inl MoneyError
      else
        let negative = startsWith ''-'' text;
            (whole, fraction) =
              (case split_on CHR ''.'' (remove1 CHR ''-'' text) of
                 [] \<Rightarrow> ([], []) | [w] \<Rightarrow> (w, []) | w # f # _ \<Rightarrow> (w, f))
        in if has_nonzero_digit (drop 2 fraction) then Inl MoneyError
           else
             let paddedFraction = take 2 (padEnd 2 CHR ''0'' fraction);
                 p = fl (fl (number_of_digits whole * 100) + number_of_digits paddedFraction)
             in if \<not> isSafeInteger p then Inl MoneyError
                else Inr (if negative then - p else p))"

definition poishaToTaka :: "poisha \<Rightarrow> err + string" where
  "poishaToTaka p =
     (if \<not> isInteger p then Inl MoneyError
      else
        let negative = p < 0;
            absolute = \<bar>p\<bar>;
            whole = js_floor (fl (absolute / 100));
            fraction = padStart 2 CHR ''0'' (show_int \<lfloor>js_rem absolute 100\<rfloor>)
        in if whole > MAX_TAKA then Inl MoneyError
           else Inr ((if negative then ''-'' else '''') @ show_int \<lfloor>whole\<rfloor> @ ''.'' @ fraction))"

definition percentageOf :: "poisha \<Rightarrow> number \<Rightarrow> err + poisha" where
  "percentageOf amount percent =
     (if \<not> isInteger amount then Inl MoneyError
      else if \<not> (0 \<le> percent \<and> percent \<le> 100) then Inl MoneyError
      else Inr (js_floor (fl (fl (amount * percent) / 100))))"

text \<open>\<open>sum\<close>: the reduction starts at 0 and rejects the first non-integer it meets.\<close>

fun sum_from :: "poisha \<Rightarrow> poisha list \<Rightarrow> err + poisha" where
  "sum_from acc [] = Inr acc"
| "sum_from acc (amount # amounts) =
     (if \<not> isInteger amount then Inl MoneyError else sum_from (fl (acc + amount)) amounts)"

definition sum_poisha :: "poisha list \<Rightarrow> err + poisha" where
  "sum_poisha amounts = sum_from 0 amounts"

definition multiply :: "poisha \<Rightarrow> number \<Rightarrow> err + poisha" where
  "multiply unitPrice quantity =
     (if \<not> isInteger unitPrice then Inl MoneyError
      else if \<not> isInteger quantity \<or> quantity < 1 then Inl MoneyError
      else Inr (fl (unitPrice * quantity)))"

section \<open>The accepted texts\<close>

text \<open>Every accepted text is a sign, whole digits and fraction digits.\<close>

definition amount_text :: "bool \<Rightarrow> string \<Rightarrow> string \<Rightarrow> string" where
  "amount_text neg w f = (if neg then ''-'' else '''') @ w @ (if f = [] then [] else CHR ''.'' # f)"

lemma startsWith_minus: "startsWith ''-'' t \<longleftrightarrow> (\<exists>t'. t = CHR ''-'' # t')"
  by (cases t) (auto simp: startsWith_def)

lemma minus_not_digit [simp]: "\<not> is_digit CHR ''-''" "\<not> is_digit CHR ''.''"
  by (simp_all add: is_digit_def)

lemma bdt_pattern_amount_text:
  assumes "w \<noteq> []" "list_all is_digit w" "list_all is_digit f"
  shows "bdt_pattern (amount_text neg w f)"
proof -
  have *: "\<not> startsWith ''-'' (w @ r)" for r
    using assms(1,2) by (cases w) (auto simp: startsWith_minus)
  have w: "takeWhile is_digit (w @ r) = w" "dropWhile is_digit (w @ r) = r"
    if "r = [] \<or> \<not> is_digit (hd r)" for r
    using that assms(2) by (cases r; simp add: list_all_iff takeWhile_append dropWhile_append)+
  show ?thesis
    using assms * w by (cases neg) (auto simp: bdt_pattern_def amount_text_def Let_def startsWith_def list_all_iff)
qed

lemma bdt_pattern_cases:
  assumes "bdt_pattern t"
  obtains neg w f where "t = amount_text neg w f" "w \<noteq> []" "list_all is_digit w" "list_all is_digit f"
proof -
  define neg where "neg = startsWith ''-'' t"
  define body where "body = (if neg then tl t else t)"
  define w where "w = takeWhile is_digit body"
  define r where "r = dropWhile is_digit body"
  have w: "w \<noteq> []" and r: "r = [] \<or> (hd r = CHR ''.'' \<and> tl r \<noteq> [] \<and> list_all is_digit (tl r))"
    using assms by (auto simp: bdt_pattern_def Let_def neg_def body_def w_def r_def)
  have "t = (if neg then ''-'' else '''') @ body"
    by (auto simp: neg_def body_def startsWith_minus)
  moreover have "body = w @ r" by (simp add: w_def r_def)
  ultimately have "t = amount_text neg w (tl r)"
    using r by (cases r) (auto simp: amount_text_def)
  moreover have "list_all is_digit w" by (auto simp: w_def list_all_iff dest: set_takeWhileD)
  moreover have "list_all is_digit (tl r)" using r by auto
  ultimately show ?thesis using that w by blast
qed

lemma amount_text_parts:
  assumes "w \<noteq> []" "list_all is_digit w" "list_all is_digit f"
  shows "startsWith ''-'' (amount_text neg w f) = neg"
    and "split_on CHR ''.'' (remove1 CHR ''-'' (amount_text neg w f)) = (if f = [] then [w] else [w, f])"
proof -
  have d: "CHR ''-'' \<notin> set w" "CHR ''.'' \<notin> set w" "CHR ''-'' \<notin> set f" "CHR ''.'' \<notin> set f"
    using assms(2,3) no_sign_in_digits by (auto simp: list_all_iff)
  show "startsWith ''-'' (amount_text neg w f) = neg"
    using assms(1) d(1) by (cases w) (auto simp: amount_text_def startsWith_def)
  have b: "remove1 CHR ''-'' (amount_text neg w f) = w @ (if f = [] then [] else CHR ''.'' # f)"
    using d by (auto simp: amount_text_def remove1_append remove1_idem)
  show "split_on CHR ''.'' (remove1 CHR ''-'' (amount_text neg w f)) = (if f = [] then [w] else [w, f])"
    unfolding b using d by (auto simp: split_on_no_sep split_on_append)
qed

lemma takaToPoisha_amount_text:
  assumes "trim s = amount_text neg w f" "w \<noteq> []" "list_all is_digit w" "list_all is_digit f"
  shows "takaToPoisha s =
     (if has_nonzero_digit (drop 2 f) then Inl MoneyError
      else let p = fl (fl (number_of_digits w * 100)
                       + number_of_digits (take 2 (padEnd 2 CHR ''0'' f)))
           in if isSafeInteger p then Inr (if neg then - p else p) else Inl MoneyError)"
  using bdt_pattern_amount_text[OF assms(2-4), of neg]
  by (simp add: takaToPoisha_def assms(1) amount_text_parts[OF assms(2-4)] Let_def)

section \<open>Parsing is exact\<close>

lemma round_half_even_ge: "of_int n \<le> y \<Longrightarrow> n \<le> round_half_even y"
  using le_floor_iff[of n y] by (simp add: round_half_even_def Let_def)

lemma fl_ge_2_53:
  assumes "2 ^ 53 \<le> x"
  shows "2 ^ 53 \<le> fl x"
proof -
  have x: "x \<noteq> 0" "\<bar>x\<bar> = x" using assms by auto
  let ?e = "exponent x"
  have "(2::rat) powi 53 < 2 powi (?e + 1)" using assms exponent_bounds(2)[OF x(1)] x by simp
  then have e: "53 \<le> ?e" using powi2_less_cancel[of 53 "?e + 1"] by linarith
  have "of_int (2 ^ 52) * 2 powi (?e - 52) = (2::rat) powi ?e"
    using powi2_add[of 52 "?e - 52"] by simp
  also have "\<dots> \<le> x" using exponent_bounds(1)[OF x(1)] x by simp
  finally have "of_int (2 ^ 52) \<le> x / 2 powi (?e - 52)"
    by (subst pos_le_divide_eq) simp_all
  then have "2 ^ 52 \<le> round_half_even (x / 2 powi (?e - 52))" by (rule round_half_even_ge)
  then have "(of_int (2 ^ 52) :: rat) \<le> of_int (round_half_even (x / 2 powi (?e - 52)))"
    by (simp only: of_int_le_iff)
  then have "2 powi (?e - 52) * of_int (2 ^ 52) \<le> fl x"
    using x by (simp add: fl_def Let_def)
  moreover have "2 powi (?e - 52) * of_int (2 ^ 52) = (2::rat) powi ?e"
    using powi2_add[of "?e - 52" 52] by simp
  moreover have "(2::rat) powi 53 \<le> 2 powi ?e" using e by (rule powi2_mono)
  ultimately show ?thesis by simp
qed

lemma fl_lt_2_53: "fl x < 2 ^ 53 \<Longrightarrow> x < 2 ^ 53"
  using fl_ge_2_53[of x] by linarith

lemma fl_of_nat: "of_nat n \<le> (2 ^ 53 :: rat) \<Longrightarrow> fl (of_nat n) = of_nat n"
  using fl_isInteger[of "of_nat n"] isInteger_of_int[of "int n"] by simp

text \<open>
  If the rounded combination of whole and fraction digits is a safe integer, no step rounded.
\<close>

lemma combined_exact:
  assumes "fl (fl (number_of_digits w * 100) + number_of_digits g) < 2 ^ 53" and "digits_val g < 100"
  shows "fl (fl (number_of_digits w * 100) + number_of_digits g) =
           of_nat (100 * digits_val w + digits_val g)"
    and "100 * digits_val w + digits_val g < 2 ^ 53"
proof -
  have g: "number_of_digits g = of_nat (digits_val g)"
    using assms(2) by (simp add: number_of_digits_def fl_of_nat)
  have s: "fl (number_of_digits w * 100) + of_nat (digits_val g) < 2 ^ 53"
    using assms(1) g fl_lt_2_53 by metis
  then have "fl (number_of_digits w * 100) < 2 ^ 53"
    by (rule le_less_trans[rotated]) simp
  then have w100: "number_of_digits w * 100 < 2 ^ 53" by (rule fl_lt_2_53)
  then have "fl (of_nat (digits_val w)) < 2 ^ 53" by (simp add: number_of_digits_def)
  then have "of_nat (digits_val w) < (2 ^ 53 :: rat)" by (rule fl_lt_2_53)
  then have w: "number_of_digits w = of_nat (digits_val w)"
    by (simp add: number_of_digits_def fl_of_nat)
  have m: "fl (number_of_digits w * 100) = of_nat (100 * digits_val w)"
    using w100 fl_of_nat[of "100 * digits_val w"] by (simp add: w mult.commute)
  have lt: "of_nat (100 * digits_val w + digits_val g) < (2 ^ 53 :: rat)"
    using s m by simp
  show "fl (fl (number_of_digits w * 100) + number_of_digits g) =
          of_nat (100 * digits_val w + digits_val g)"
    using fl_of_nat[OF less_imp_le[OF lt]] m g by simp
  show "100 * digits_val w + digits_val g < 2 ^ 53"
    using lt by (metis of_nat_less_iff of_nat_numeral of_nat_power)
qed

lemma digits_val_padded:
  assumes "list_all is_digit f"
  shows "digits_val (take 2 (padEnd 2 CHR ''0'' f)) < 100"
proof -
  have "\<forall>c\<in>set (take 2 (padEnd 2 CHR ''0'' f)). is_digit c"
    using assms by (auto simp: padEnd_def list_all_iff is_digit_def dest!: in_set_takeD)
  then have "digits_val (take 2 (padEnd 2 CHR ''0'' f)) < 10 ^ length (take 2 (padEnd 2 CHR ''0'' f))"
    by (rule digits_val_bound)
  moreover have "length (take 2 (padEnd 2 CHR ''0'' f)) = 2" by (simp add: padEnd_def)
  ultimately show ?thesis by simp
qed

text \<open>The number of poisha a sign, whole digits and fraction digits denote.\<close>

definition amount_value :: "bool \<Rightarrow> string \<Rightarrow> string \<Rightarrow> int" where
  "amount_value neg w f =
     (let n = int (100 * digits_val w + digits_val (take 2 (padEnd 2 CHR ''0'' f)))
      in if neg then - n else n)"

lemma takaToPoisha_eq:
  assumes "trim s = amount_text neg w f" "w \<noteq> []" "list_all is_digit w" "list_all is_digit f"
  shows "takaToPoisha s =
     (if \<not> has_nonzero_digit (drop 2 f) \<and> \<bar>amount_value neg w f\<bar> < 2 ^ 53
      then Inr (of_int (amount_value neg w f)) else Inl MoneyError)"
proof -
  let ?g = "take 2 (padEnd 2 CHR ''0'' f)"
  let ?p = "fl (fl (number_of_digits w * 100) + number_of_digits ?g)"
  let ?n = "100 * digits_val w + digits_val ?g"
  have g: "digits_val ?g < 100" by (rule digits_val_padded[OF assms(4)])
  have abs: "\<bar>amount_value neg w f\<bar> = int ?n" by (simp add: amount_value_def Let_def)
  have safe: "isSafeInteger ?p \<longleftrightarrow> ?n < 2 ^ 53"
  proof
    assume "isSafeInteger ?p"
    then have "?p < 2 ^ 53" by (auto simp: isSafeInteger_def)
    then show "?n < 2 ^ 53" by (rule combined_exact(2)[OF _ g])
  next
    assume n: "?n < 2 ^ 53"
    then have "(of_nat ?n :: rat) \<le> of_nat (2 ^ 53 - 1)" by (simp only: of_nat_le_iff)
    then have le: "(of_nat ?n :: rat) \<le> 2 ^ 53 - 1" by simp
    have w: "number_of_digits w = of_nat (digits_val w)"
      unfolding number_of_digits_def by (rule fl_of_nat) (use le in simp)
    have "fl (number_of_digits w * 100) = fl (of_nat (100 * digits_val w))" by (simp add: w mult.commute)
    also have "\<dots> = of_nat (100 * digits_val w)" by (rule fl_of_nat) (use le in simp)
    finally have "?p = fl (of_nat ?n)"
      using g by (simp add: number_of_digits_def fl_of_nat)
    also have "\<dots> = of_nat ?n" by (rule fl_of_nat) (use le in simp)
    finally have "?p = of_nat ?n" .
    then show "isSafeInteger ?p"
      using le isInteger_of_int[of "int ?n"] by (simp add: isSafeInteger_def)
  qed
  moreover have exact: "?p = of_int (int ?n)" if "isSafeInteger ?p"
    using combined_exact(1)[OF _ g, of w] that by (auto simp: isSafeInteger_def)
  have "int ?n < 2 ^ 53 \<longleftrightarrow> ?n < 2 ^ 53"
    by (metis of_nat_less_iff of_nat_numeral of_nat_power)
  ultimately have small: "\<bar>amount_value neg w f\<bar> < 2 ^ 53 \<longleftrightarrow> isSafeInteger ?p" by (simp only: abs)
  have val: "of_int (amount_value neg w f) = (if neg then - ?p else ?p)" if "isSafeInteger ?p"
    unfolding exact[OF that] by (simp add: amount_value_def Let_def)
  show ?thesis
    unfolding takaToPoisha_amount_text[OF assms] Let_def small
    by (cases "isSafeInteger ?p") (simp_all add: val)
qed

section \<open>Printing\<close>

lemma MAX_TAKA_bounds: "9999999999 \<le> MAX_TAKA" "MAX_TAKA < 10000000000"
  using fl_hundredth_error[of 999999999999] unfolding MAX_TAKA_def abs_less_iff by simp_all

text \<open>The canonical text of an amount: sign, whole taka, two digits.\<close>

definition money_text :: "int \<Rightarrow> string" where
  "money_text n =
     (let a = nat \<bar>n\<bar> in amount_text (n < 0) (dec (a div 100)) [digit_char (a div 10 mod 10), digit_char (a mod 10)])"

lemma digit_char_0: "digit_char 0 = CHR ''0''"
proof -
  have "(of_char (digit_char 0) :: nat) = of_char CHR ''0''" by (simp add: digit_char_def)
  then show ?thesis by (simp only: of_char_eq_iff)
qed

lemma tens_digit: "(a::nat) mod 100 div 10 = a div 10 mod 10"
  using mod_mult2_eq[of a 10 10] by simp

lemma two_digits: "n < 100 \<Longrightarrow> padStart 2 CHR ''0'' (dec n) = [digit_char (n div 10), digit_char (n mod 10)]"
  by (cases "n < 10") (simp_all add: dec_small dec_two padStart_def digit_char_0)

lemma js_rem_of_int: "js_rem (of_int a) (of_int b) = of_int (a mod b)"
  by (simp add: js_rem_def floor_of_int_div minus_div_mult_eq_mod[symmetric] mult.commute)

lemma poishaToTaka_of_int:
  assumes "\<bar>n\<bar> \<le> 999999999999"
  shows "poishaToTaka (of_int n) = Inr (money_text n)"
proof -
  have whole: "js_floor (fl (\<bar>of_int n\<bar> / 100)) = of_int (\<bar>n\<bar> div 100)"
    using floor_fl_hundredth[of "\<bar>n\<bar>"] assms by (simp add: js_floor_def)
  have "\<bar>n\<bar> div 100 \<le> 9999999999" using assms by linarith
  then have "(of_int (\<bar>n\<bar> div 100) :: rat) \<le> of_int 9999999999" by (simp only: of_int_le_iff)
  then have le: "\<not> of_int (\<bar>n\<bar> div 100) > MAX_TAKA" using MAX_TAKA_bounds(1) by simp
  have rem: "js_rem \<bar>of_int n\<bar> 100 = of_int (\<bar>n\<bar> mod 100)"
    using js_rem_of_int[of "\<bar>n\<bar>" 100] by simp
  have nat1: "nat (\<bar>n\<bar> div 100) = nat \<bar>n\<bar> div 100" by (simp add: nat_div_distrib)
  have nat2: "nat (\<bar>n\<bar> mod 100) = nat \<bar>n\<bar> mod 100" by (simp add: nat_mod_distrib)
  have "nat \<bar>n\<bar> mod 100 mod 10 = nat \<bar>n\<bar> mod 10" by (rule mod_mod_cancel) simp
  then have two: "padStart 2 CHR ''0'' (dec (nat \<bar>n\<bar> mod 100)) =
      [digit_char (nat \<bar>n\<bar> div 10 mod 10), digit_char (nat \<bar>n\<bar> mod 10)]"
    by (simp add: two_digits tens_digit)
  have "\<not> \<bar>n\<bar> mod 100 < 0" "\<not> \<bar>n\<bar> div 100 < 0" by simp_all
  then show ?thesis
    unfolding poishaToTaka_def Let_def whole rem
    using le two by (simp add: money_text_def Let_def amount_text_def show_int_def nat1 nat2)
qed

lemma poishaToTaka_Inr:
  assumes "isInteger p" "\<bar>p\<bar> \<le> 999999999999"
  obtains n where "p = of_int n" "\<bar>n\<bar> \<le> 999999999999" "poishaToTaka p = Inr (money_text n)"
proof -
  from assms(1) obtain n where p: "p = of_int n" by (rule isInteger_cases)
  have "(of_int \<bar>n\<bar> :: rat) \<le> of_int 999999999999" using assms(2) p by simp
  then have "\<bar>n\<bar> \<le> 999999999999" by (simp only: of_int_le_iff)
  then show ?thesis using that p poishaToTaka_of_int by blast
qed

text \<open>\<open>poishaToTaka\<close> accepts exactly the integers \<open>NUMERIC(12,2)\<close> can hold.\<close>

lemma poishaToTaka_too_large:
  assumes "999999999999 < \<bar>n\<bar>"
  shows "poishaToTaka (of_int n) = Inl MoneyError"
proof -
  have "10000000000 \<le> \<lfloor>fl (of_int \<bar>n\<bar> / 100)\<rfloor>"
  proof (cases "\<bar>n\<bar> \<le> 2 ^ 53")
    case True
    then show ?thesis using assms floor_fl_hundredth[of "\<bar>n\<bar>"] by simp
  next
    case False
    have "(of_int (2 ^ 53) :: rat) \<le> of_int \<bar>n\<bar>" using False by (simp only: of_int_le_iff)
    moreover from this have "of_int \<bar>n\<bar> / 100 / 2 \<le> fl (of_int \<bar>n\<bar> / 100)" by (intro fl_ge_half) simp
    ultimately show ?thesis by (simp add: le_floor_iff)
  qed
  then have "(of_int 10000000000 :: rat) \<le> of_int \<lfloor>fl (of_int \<bar>n\<bar> / 100)\<rfloor>" by (simp only: of_int_le_iff)
  then have "MAX_TAKA < of_int \<lfloor>fl (of_int \<bar>n\<bar> / 100)\<rfloor>"
    using MAX_TAKA_bounds(2) unfolding of_int_numeral by (rule order.strict_trans2[rotated])
  then have "js_floor (fl (\<bar>of_int n\<bar> / 100)) > MAX_TAKA" by (simp only: js_floor_def of_int_abs)
  then show ?thesis by (simp add: poishaToTaka_def Let_def)
qed

lemma poishaToTaka_Inr_iff:
  "poishaToTaka p = Inr t \<longleftrightarrow> (\<exists>n. p = of_int n \<and> \<bar>n\<bar> \<le> 999999999999 \<and> t = money_text n)"
proof
  assume t: "poishaToTaka p = Inr t"
  then have "isInteger p" by (auto simp: poishaToTaka_def split: if_splits)
  then obtain n where n: "p = of_int n" by (rule isInteger_cases)
  have "\<bar>n\<bar> \<le> 999999999999" using t n poishaToTaka_too_large[of n] by fastforce
  then show "\<exists>n. p = of_int n \<and> \<bar>n\<bar> \<le> 999999999999 \<and> t = money_text n"
    using t n poishaToTaka_of_int by auto
qed (auto simp: poishaToTaka_of_int)

section \<open>Reading back what was printed\<close>

lemma hundreds_split: "100 * (a div 100) + (10 * (a div 10 mod 10) + a mod 10) = (a::nat)"
proof -
  have "100 * (a div 100) + a mod 100 = a" by simp
  moreover have "10 * (a mod 100 div 10) + a mod 100 mod 10 = a mod 100" by simp
  moreover have "a mod 100 mod 10 = a mod 10" by (rule mod_mod_cancel) simp
  ultimately show ?thesis by (simp only: tens_digit)
qed

lemma takaToPoisha_money_text:
  assumes "\<bar>n\<bar> < 2 ^ 53"
  shows "takaToPoisha (money_text n) = Inr (of_int n)"
proof -
  let ?a = "nat \<bar>n\<bar>"
  let ?w = "dec (?a div 100)" and ?f = "[digit_char (?a div 10 mod 10), digit_char (?a mod 10)]"
  have t: "money_text n = amount_text (n < 0) ?w ?f" by (simp add: money_text_def Let_def)
  have digits: "list_all is_digit ?w" "list_all is_digit ?f"
    using dec_digits by (auto simp: list_all_iff)
  have "\<not> is_space (hd ?w)" using dec_digits[of "?a div 100"] no_sign_in_digits(3)[of ?w] by (meson dec_nonempty hd_in_set)
  then have "\<not> is_space (hd (amount_text (n < 0) ?w ?f))" by (auto simp: amount_text_def is_space_def)
  moreover have "\<not> is_space (last (amount_text (n < 0) ?w ?f))"
    using no_sign_in_digits(3)[of ?f] by (auto simp: amount_text_def)
  ultimately have trim: "trim (money_text n) = amount_text (n < 0) ?w ?f"
    unfolding t by (intro trim_id) (auto simp: amount_text_def)
  have "digits_val (take 2 (padEnd 2 CHR ''0'' ?f)) = 10 * (?a div 10 mod 10) + ?a mod 10"
    by (simp add: padEnd_def digits_val_def)
  then have m: "int (100 * digits_val ?w + digits_val (take 2 (padEnd 2 CHR ''0'' ?f))) = \<bar>n\<bar>"
    by (simp only: digits_val_dec hundreds_split) simp
  then have val: "amount_value (n < 0) ?w ?f = n"
    by (simp only: amount_value_def Let_def m) simp
  have "\<not> has_nonzero_digit (drop 2 ?f)" by (simp add: has_nonzero_digit_def)
  then show ?thesis
    unfolding takaToPoisha_eq[OF trim dec_nonempty digits] val using assms by simp
qed

section \<open>Checked arithmetic\<close>

lemma div_100_bounds: "100 * (m div 100) \<le> (m::int)" "m < 100 * (m div 100 + 1)"
  by presburger+

lemma percentageOf_exact:
  assumes "0 \<le> amount" "0 \<le> percent" "percent \<le> 100" "amount * percent \<le> 2 ^ 53"
  shows "percentageOf (of_int amount) (of_int percent) = Inr (of_int (amount * percent div 100))"
proof -
  have m: "\<bar>amount * percent\<bar> \<le> 2 ^ 53" using assms by simp
  have p: "(of_int percent :: rat) \<le> of_int 100" using assms(3) by (simp only: of_int_le_iff)
  have "fl (of_int amount * of_int percent) = (of_int (amount * percent) :: rat)"
    using fl_of_int[OF m] by simp
  then have "js_floor (fl (fl (of_int amount * of_int percent) / 100)) = of_int (amount * percent div 100)"
    using floor_fl_hundredth[OF m] by (simp only: js_floor_def)
  then show ?thesis using assms p by (simp add: percentageOf_def)
qed

lemma percentageOf_isInteger: "percentageOf a p = Inr c \<Longrightarrow> isInteger c"
  by (auto simp: percentageOf_def split: if_splits)

lemma sum_from_of_int:
  assumes "0 \<le> acc" "\<forall>n\<in>set ns. 0 \<le> n" "acc + sum_list ns \<le> 2 ^ 53"
  shows "sum_from (of_int acc) (map of_int ns) = Inr (of_int (acc + sum_list ns))"
  using assms
proof (induction ns arbitrary: acc)
  case (Cons n ns)
  have "0 \<le> sum_list ns" using Cons.prems by (intro sum_list_nonneg) auto
  then have "\<bar>acc + n\<bar> \<le> 2 ^ 53" using Cons.prems by simp
  then have "fl (of_int acc + of_int n) = (of_int (acc + n) :: rat)"
    using fl_of_int[of "acc + n"] by simp
  then show ?case using Cons.IH[of "acc + n"] Cons.prems by (simp add: add.assoc)
qed simp

lemma sum_poisha_exact:
  assumes "\<forall>n\<in>set ns. 0 \<le> n" "sum_list ns \<le> 2 ^ 53"
  shows "sum_poisha (map of_int ns) = Inr (of_int (sum_list ns))"
  using sum_from_of_int[of 0 ns] assms by (simp add: sum_poisha_def)

text \<open>A sum of non-negative amounts that comes out below \<open>2 ^ 53\<close> was exact at every step.\<close>

lemma sum_from_large:
  assumes "sum_from acc xs = Inr s" "2 ^ 53 \<le> acc" "\<forall>x\<in>set xs. 0 \<le> x"
  shows "2 ^ 53 \<le> s"
  using assms
proof (induction xs arbitrary: acc)
  case (Cons x xs)
  have "2 ^ 53 \<le> fl (acc + x)" using Cons.prems(2,3) by (intro fl_ge_2_53) simp
  then show ?case using Cons.IH Cons.prems by (auto split: if_splits)
qed simp

lemma sum_from_small:
  assumes "sum_from acc xs = Inr s" "s < 2 ^ 53" "0 \<le> acc" "isInteger acc" "\<forall>x\<in>set xs. 0 \<le> x"
  shows "s = acc + sum_list xs"
  using assms
proof (induction xs arbitrary: acc)
  case (Cons x xs)
  have x: "isInteger x" "0 \<le> x" and r: "sum_from (fl (acc + x)) xs = Inr s"
    using Cons.prems(1,5) by (auto split: if_splits)
  have "fl (acc + x) < 2 ^ 53"
    using sum_from_large[OF r] Cons.prems(2,5) by force
  then have "acc + x < 2 ^ 53" by (rule fl_lt_2_53)
  then have "fl (acc + x) = acc + x"
    using x Cons.prems(3,4) by (intro fl_isInteger isInteger_closed) simp_all
  then show ?case
    using Cons.IH[OF r] Cons.prems(2-5) x isInteger_closed by simp
qed simp

lemma sum_two_exact:
  assumes "\<bar>a\<bar> \<le> 999999999999" "\<bar>b\<bar> \<le> 999999999999"
  shows "sum_poisha [of_int a, of_int b] = Inr (of_int (a + b))"
  using assms fl_of_int[of a] fl_of_int[of "a + b"] by (simp add: sum_poisha_def)

section \<open>The decimal value of an accepted text\<close>

lemma has_nonzero_digit_iff:
  "list_all is_digit s \<Longrightarrow> has_nonzero_digit s \<longleftrightarrow> digits_val s \<noteq> 0"
proof (induction s rule: rev_induct)
  case (snoc c s)
  have "digit_val c = 0 \<longleftrightarrow> c = CHR ''0''" if "is_digit c"
    using digit_char_val[OF that] digit_char_0 by (metis digit_char_props(2) zero_less_numeral)
  then show ?case using snoc by (auto simp: has_nonzero_digit_def list_all_iff list_ex_iff)
qed (simp add: has_nonzero_digit_def)

lemma hundred_pow: "2 \<le> l \<Longrightarrow> 100 * 10 ^ (l - 2) = (10::nat) ^ l"
  by (auto simp: le_iff_add power_add)

text \<open>
  The whole and fraction digits read as one number are the poisha followed by the digits
  beyond the second decimal place.
\<close>

lemma digits_val_whole_fraction:
  fixes w f
  defines "n \<equiv> 100 * digits_val w + digits_val (take 2 (padEnd 2 CHR ''0'' f))"
  shows "100 * digits_val (w @ f) = n * 10 ^ length f + 100 * digits_val (drop 2 f)"
proof (cases "length f < 2")
  case True
  have "take 2 (padEnd 2 CHR ''0'' f) = f @ replicate (2 - length f) CHR ''0''"
    using True by (simp add: padEnd_def)
  then have n: "n = 100 * digits_val w + digits_val f * 10 ^ (2 - length f)"
    by (simp add: n_def digits_val_append del: replicate.simps)
  have p: "10 ^ (2 - length f) * 10 ^ length f = (100::nat)"
    using True by (simp flip: power_add)
  have "n * 10 ^ length f = 100 * digits_val w * 10 ^ length f + digits_val f * (10 ^ (2 - length f) * 10 ^ length f)"
    by (simp add: n algebra_simps)
  also have "\<dots> = 100 * digits_val (w @ f)"
    unfolding p by (simp add: digits_val_append algebra_simps)
  finally have "n * 10 ^ length f = 100 * digits_val (w @ f)" .
  then show ?thesis using True by simp
next
  case False
  let ?k = "length f - 2"
  have f: "f = take 2 f @ drop 2 f" and g: "take 2 (padEnd 2 CHR ''0'' f) = take 2 f"
    using False by (auto simp: padEnd_def)
  have "digits_val (w @ f) = digits_val ((w @ take 2 f) @ drop 2 f)" using f by simp
  also have "\<dots> = n * 10 ^ ?k + digits_val (drop 2 f)"
    using False by (simp only: digits_val_append) (simp add: n_def g mult.commute)
  finally have "100 * digits_val (w @ f) = n * (100 * 10 ^ ?k) + 100 * digits_val (drop 2 f)"
    by (simp add: algebra_simps)
  moreover have "100 * 10 ^ ?k = (10::nat) ^ length f"
    using False by (intro hundred_pow) simp
  ultimately show ?thesis by simp
qed

lemma whole_multiple:
  fixes a n k r :: nat
  assumes "a * k = n * k + r" "r < k"
  shows "r = 0 \<and> a = n"
proof -
  have "a = (a * k) div k" using assms(2) by simp
  also have "\<dots> = n" using assms by simp
  finally show ?thesis using assms(1) by simp
qed

lemma value_iff:
  assumes "list_all is_digit f"
  shows "(\<bar>P\<bar> * 10 ^ length f = 100 * int (digits_val (w @ f))) \<longleftrightarrow>
     \<not> has_nonzero_digit (drop 2 f) \<and> \<bar>P\<bar> = \<bar>amount_value neg w f\<bar>"
proof -
  let ?n = "100 * digits_val w + digits_val (take 2 (padEnd 2 CHR ''0'' f))"
  have d: "list_all is_digit (drop 2 f)" using assms by (auto simp: list_all_iff dest: in_set_dropD)
  have r: "100 * digits_val (drop 2 f) < 10 ^ length f \<or> digits_val (drop 2 f) = 0"
  proof (cases "length f < 2")
    case False
    have "digits_val (drop 2 f) < 10 ^ (length f - 2)"
      using digits_val_bound[of "drop 2 f"] d by (simp add: list_all_iff)
    then have "100 * digits_val (drop 2 f) < 100 * 10 ^ (length f - 2)" by simp
    also have "\<dots> = 10 ^ length f" using False by (intro hundred_pow) simp
    finally show ?thesis by simp
  qed simp
  have abs: "\<bar>amount_value neg w f\<bar> = int ?n" by (simp add: amount_value_def Let_def)
  have "(\<bar>P\<bar> * 10 ^ length f = 100 * int (digits_val (w @ f))) \<longleftrightarrow>
      int (nat \<bar>P\<bar> * 10 ^ length f) = int (100 * digits_val (w @ f))" by simp
  also have "\<dots> \<longleftrightarrow> nat \<bar>P\<bar> * 10 ^ length f = 100 * digits_val (w @ f)"
    by (simp only: of_nat_eq_iff)
  also have "\<dots> \<longleftrightarrow> nat \<bar>P\<bar> * 10 ^ length f = ?n * 10 ^ length f + 100 * digits_val (drop 2 f)"
    by (simp only: digits_val_whole_fraction)
  also have "\<dots> \<longleftrightarrow> digits_val (drop 2 f) = 0 \<and> nat \<bar>P\<bar> = ?n"
    using r whole_multiple[of "nat \<bar>P\<bar>" "10 ^ length f" ?n "100 * digits_val (drop 2 f)"] by auto
  also have "nat \<bar>P\<bar> = ?n \<longleftrightarrow> \<bar>P\<bar> = int ?n" by linarith
  finally show ?thesis using has_nonzero_digit_iff[OF d] abs by simp
qed

lemma parsed_iff:
  assumes "list_all is_digit f"
  shows "((if \<not> has_nonzero_digit (drop 2 f) \<and> \<bar>amount_value neg w f\<bar> < 2 ^ 53
           then Inr (of_int (amount_value neg w f)) else Inl MoneyError) = Inr p) \<longleftrightarrow>
     isInteger p \<and> \<bar>p\<bar> < 2 ^ 53 \<and>
     p * 10 ^ length f = (if neg then -100 else 100) * of_nat (digits_val (w @ f))"
proof (cases "isInteger p")
  case False
  then show ?thesis by auto
next
  case True
  then obtain P where p: "p = of_int P" by (rule isInteger_cases)
  let ?v = "amount_value neg w f" and ?V = "digits_val (w @ f)"
  have sgn: "neg \<Longrightarrow> ?v \<le> 0" "\<not> neg \<Longrightarrow> 0 \<le> ?v" by (auto simp: amount_value_def Let_def)
  have lt: "\<bar>p\<bar> < 2 ^ 53 \<longleftrightarrow> \<bar>P\<bar> < 2 ^ 53"
    unfolding p by (metis of_int_abs of_int_less_iff of_int_numeral of_int_power)
  have "(p * 10 ^ length f = (if neg then -100 else 100) * of_nat ?V) \<longleftrightarrow>
        P * 10 ^ length f = (if neg then -100 else 100) * int ?V" (is "?A \<longleftrightarrow> ?B")
  proof -
    have "?A \<longleftrightarrow> (of_int (P * 10 ^ length f) :: rat) = of_int ((if neg then -100 else 100) * int ?V)"
      by (simp add: p)
    then show ?thesis by (simp only: of_int_eq_iff)
  qed
  also have "?B \<longleftrightarrow> (if neg then P \<le> 0 else 0 \<le> P) \<and> \<bar>P\<bar> * 10 ^ length f = 100 * int ?V"
    by (cases "0 \<le> P"; cases "P = 0"; simp add: abs_if zero_le_mult_iff mult_less_0_iff)
       (smt (verit) mult_minus_left mult_nonneg_nonneg mult_pos_pos of_nat_0_le_iff zero_less_power)+
  also have "\<dots> \<longleftrightarrow> \<not> has_nonzero_digit (drop 2 f) \<and> P = ?v"
    using value_iff[OF assms, of P w neg] sgn by (cases neg) auto
  finally show ?thesis using True p lt by auto
qed

section \<open>Properties\<close>

text \<open>
  C28. The conversion to the database text and back is the identity: every integer amount
  inside \<open>NUMERIC(12,2)\<close> prints, and what is printed reads back as the same poisha.
\<close>

theorem money_roundtrip:
  assumes "isInteger p" "\<bar>p\<bar> \<le> 999999999999"
  shows "sum_bind (poishaToTaka p) takaToPoisha = Inr p"
proof -
  obtain n where n: "p = of_int n" "\<bar>n\<bar> \<le> 999999999999" "poishaToTaka p = Inr (money_text n)"
    using assms by (rule poishaToTaka_Inr)
  have "\<bar>n\<bar> < 2 ^ 53" using n(2) by simp
  then show ?thesis using n takaToPoisha_money_text by simp
qed

theorem money_roundtrip_witness:
  "isInteger (-42005) \<and> sum_bind (poishaToTaka (-42005)) takaToPoisha = Inr (-42005)"
  using money_roundtrip[of "-42005"] by simp

text \<open>
  \<open>takaToPoisha\<close> accepts exactly the decimal texts (sign, digits, optional fraction,
  surrounding white space) whose value is a whole number of poisha of safe size, and returns
  that value exactly: nothing is rounded, however many trailing zeros the text has.
\<close>

theorem takaToPoisha_exact:
  "takaToPoisha s = Inr p \<longleftrightarrow>
     (\<exists>neg w f. trim s = amount_text neg w f \<and> w \<noteq> [] \<and> list_all is_digit w \<and> list_all is_digit f \<and>
        isInteger p \<and> \<bar>p\<bar> < 2 ^ 53 \<and>
        p * 10 ^ length f = (if neg then -100 else 100) * of_nat (digits_val (w @ f)))"
    (is "?lhs \<longleftrightarrow> ?rhs")
proof -
  have key: "takaToPoisha s = Inr p \<longleftrightarrow> isInteger p \<and> \<bar>p\<bar> < 2 ^ 53 \<and>
        p * 10 ^ length f = (if neg then -100 else 100) * of_nat (digits_val (w @ f))"
    if t: "trim s = amount_text neg w f" "w \<noteq> []" "list_all is_digit w" "list_all is_digit f" for neg w f
    using takaToPoisha_eq[OF t] parsed_iff[OF t(4)] by simp
  show ?thesis
  proof
    assume l: ?lhs
    then have "bdt_pattern (trim s)" by (auto simp: takaToPoisha_def Let_def split: if_splits)
    then show ?rhs using l key by (elim bdt_pattern_cases) blast
  next
    assume ?rhs
    then show ?lhs using key by blast
  qed
qed

text \<open>
  A percentage rounds down, and only down: for a non-negative integer amount and a whole
  percentage whose product a double holds exactly, \<open>percentageOf\<close> returns the largest
  integer that does not exceed the exact percentage.
\<close>

theorem percentageOf_rounds_down:
  assumes "isInteger amount" "isInteger percent" "0 \<le> amount" "0 \<le> percent" "percent \<le> 100"
    and "amount * percent \<le> 2 ^ 53"
  shows "\<exists>c. percentageOf amount percent = Inr c \<and> isInteger c \<and>
           100 * c \<le> amount * percent \<and> amount * percent < 100 * (c + 1)"
proof -
  obtain a where a: "amount = of_int a" using assms(1) by (rule isInteger_cases)
  obtain k where k: "percent = of_int k" using assms(2) by (rule isInteger_cases)
  have "(of_int k :: rat) \<le> of_int 100" "(of_int (a * k) :: rat) \<le> of_int (2 ^ 53)"
    using assms a k by simp_all
  then have "k \<le> 100" "a * k \<le> 2 ^ 53" by (simp_all only: of_int_le_iff)
  then have r: "percentageOf amount percent = Inr (of_int (a * k div 100))"
    using percentageOf_exact[of a k] assms a k by simp
  have "100 * (a * k div 100) \<le> a * k" "a * k < 100 * (a * k div 100 + 1)" by (rule div_100_bounds)+
  then have "(of_int (100 * (a * k div 100)) :: rat) \<le> of_int (a * k)"
    "(of_int (a * k) :: rat) < of_int (100 * (a * k div 100 + 1))"
    by (simp_all only: of_int_le_iff of_int_less_iff)
  then show ?thesis using r a k by auto
qed

theorem percentageOf_rounds_down_witness:
  "\<exists>c. percentageOf 4209 10 = Inr c \<and> isInteger c \<and> 100 * c \<le> 4209 * 10 \<and> 4209 * 10 < 100 * (c + 1)"
  by (rule percentageOf_rounds_down) simp_all

end
