(* ===== verification/AdvanceCap.thy ===== *)
theory AdvanceCap
  imports Money
begin

text \<open>
  \<open>api/src/order/domain/advance-cap.ts\<close>: the advance-payment cap of the Digital Commerce
  Operation Guidelines. The specification part states the rule without arithmetic: which
  carts may take the whole total, and what a tenth rounded down means.
\<close>

section \<open>Data\<close>

definition STANDARD_ADVANCE_PERCENT :: number where
  "STANDARD_ADVANCE_PERCENT = 10"

record cart_line =
  ln_listingId :: string
  ln_quantity :: number
  ln_unitPrice :: poisha
  ln_readyToShip :: bool

datatype cap_reason = Escrow | All_Items_Ready_To_Ship | Standard_Cap

record advance_cap_result =
  cap_amount :: poisha
  cap_reason :: cap_reason
  cap_allItemsReadyToShip :: bool
  cap_explanationKey :: string

section \<open>Operations\<close>

definition computeAdvanceCap :: "cart_line list \<Rightarrow> poisha \<Rightarrow> bool \<Rightarrow> err + advance_cap_result" where
  "computeAdvanceCap lines total_amount isEscrow =
     (if lines = [] then Inl (PlainError ''Cannot compute an advance cap for an empty cart'')
      else
        let allReady = list_all ln_readyToShip lines in
        if isEscrow then
          Inr \<lparr>cap_amount = total_amount, cap_reason = Escrow, cap_allItemsReadyToShip = allReady,
               cap_explanationKey = ''checkout.advance.escrow_full_allowed''\<rparr>
        else if allReady then
          Inr \<lparr>cap_amount = total_amount, cap_reason = All_Items_Ready_To_Ship,
               cap_allItemsReadyToShip = allReady,
               cap_explanationKey = ''checkout.advance.ready_to_ship_full_allowed''\<rparr>
        else
          sum_bind (percentageOf total_amount STANDARD_ADVANCE_PERCENT) (\<lambda>c.
            Inr \<lparr>cap_amount = c, cap_reason = Standard_Cap, cap_allItemsReadyToShip = allReady,
                 cap_explanationKey = ''checkout.advance.capped_at_ten_percent''\<rparr>))"

definition assertAdvanceWithinCap :: "poisha \<Rightarrow> advance_cap_result \<Rightarrow> err + unit" where
  "assertAdvanceWithinCap requested result =
     (if \<not> isInteger requested \<or> requested < 0
      then Inl (PlainError ''Requested advance must be non-negative poisha'')
      else if requested > cap_amount result then Inl AdvanceCapExceededError
      else Inr ())"

definition cartSubtotal :: "cart_line list \<Rightarrow> err + poisha" where
  "cartSubtotal lines = sum_poisha (map (\<lambda>line. fl (ln_unitPrice line * ln_quantity line)) lines)"

section \<open>The rule\<close>

text \<open>
  The whole total may be taken in advance when the order is settled through escrow or every
  line is ready to ship; otherwise a tenth, rounded down to a poisha.
\<close>

definition full_advance_allowed :: "cart_line list \<Rightarrow> bool \<Rightarrow> bool" where
  "full_advance_allowed lines isEscrow \<longleftrightarrow> isEscrow \<or> (\<forall>l\<in>set lines. ln_readyToShip l)"

definition cap_rule :: "bool \<Rightarrow> int \<Rightarrow> int" where
  "cap_rule full n = (if full then n else n div 10)"

lemma cap_rule_bounds: "0 \<le> n \<Longrightarrow> 0 \<le> cap_rule full n \<and> cap_rule full n \<le> n"
  using zdiv_mono2[of n 1 10] by (simp add: cap_rule_def pos_imp_zdiv_nonneg_iff)

lemma tenth: "(n * 10) div 100 = n div (10::int)"
  using div_mult_mult2[of "10::int" n 10] by simp

lemma computeAdvanceCap_of_int:
  assumes "lines \<noteq> []" "0 \<le> n" "10 * n \<le> 2 ^ 53"
  shows "\<exists>r. computeAdvanceCap lines (of_int n) isEscrow = Inr r \<and>
    cap_amount r = of_int (cap_rule (full_advance_allowed lines isEscrow) n) \<and>
    (cap_reason r = Escrow \<longleftrightarrow> isEscrow) \<and>
    (cap_allItemsReadyToShip r \<longleftrightarrow> (\<forall>l\<in>set lines. ln_readyToShip l))"
proof -
  have p: "percentageOf (of_int n) STANDARD_ADVANCE_PERCENT = Inr (of_int (n div 10))"
    using percentageOf_exact[of n 10] assms(2,3)
    by (simp add: STANDARD_ADVANCE_PERCENT_def tenth)
  show ?thesis
    using assms(1) p
    by (cases isEscrow; cases "\<forall>l\<in>set lines. ln_readyToShip l")
       (auto simp: computeAdvanceCap_def Let_def full_advance_allowed_def cap_rule_def list_all_iff)
qed

text \<open>Whatever its inputs, a computed cap records the flags of the cart it was computed from.\<close>

lemma computeAdvanceCap_flags:
  assumes "computeAdvanceCap lines n isEscrow = Inr r"
  shows "lines \<noteq> []" "cap_reason r = Escrow \<longleftrightarrow> isEscrow"
    "cap_allItemsReadyToShip r = list_all ln_readyToShip lines"
    "isEscrow \<or> list_all ln_readyToShip lines \<Longrightarrow> cap_amount r = n"
  using assms by (auto simp: computeAdvanceCap_def Let_def sum_bind_Inr_iff split: if_splits)

lemma assertAdvanceWithinCap_iff:
  "assertAdvanceWithinCap requested r = Inr () \<longleftrightarrow>
     isInteger requested \<and> 0 \<le> requested \<and> requested \<le> cap_amount r"
  by (auto simp: assertAdvanceWithinCap_def)

section \<open>The subtotal\<close>

text \<open>\<open>cartSubtotal\<close> on integer prices and quantities whose exact sum a double holds.\<close>

definition subtotal_of :: "cart_line list \<Rightarrow> int" where
  "subtotal_of lines = (\<Sum>l\<leftarrow>lines. \<lfloor>ln_unitPrice l\<rfloor> * \<lfloor>ln_quantity l\<rfloor>)"

definition whole_line :: "cart_line \<Rightarrow> bool" where
  "whole_line l \<longleftrightarrow> isInteger (ln_unitPrice l) \<and> isInteger (ln_quantity l) \<and>
     0 \<le> ln_unitPrice l \<and> 0 \<le> ln_quantity l"

lemma whole_line_product:
  assumes "whole_line l"
  shows "ln_unitPrice l * ln_quantity l = of_int (\<lfloor>ln_unitPrice l\<rfloor> * \<lfloor>ln_quantity l\<rfloor>)"
    and "0 \<le> \<lfloor>ln_unitPrice l\<rfloor> * \<lfloor>ln_quantity l\<rfloor>"
  using assms by (auto simp: whole_line_def isInteger_def)

lemma cartSubtotal_exact:
  assumes "\<forall>l\<in>set lines. whole_line l" "subtotal_of lines \<le> 2 ^ 53"
  shows "cartSubtotal lines = Inr (of_int (subtotal_of lines))"
proof -
  let ?ns = "map (\<lambda>l. \<lfloor>ln_unitPrice l\<rfloor> * \<lfloor>ln_quantity l\<rfloor>) lines"
  have nonneg: "\<forall>n\<in>set ?ns. 0 \<le> n" using assms(1) whole_line_product(2) by auto
  have "fl (ln_unitPrice l * ln_quantity l) = of_int (\<lfloor>ln_unitPrice l\<rfloor> * \<lfloor>ln_quantity l\<rfloor>)"
    if l: "l \<in> set lines" for l
  proof -
    let ?n = "\<lfloor>ln_unitPrice l\<rfloor> * \<lfloor>ln_quantity l\<rfloor>"
    have "?n \<le> sum_list ?ns" using l nonneg by (intro member_le_sum_list) auto
    then have "\<bar>?n\<bar> \<le> 2 ^ 53" using assms(2) nonneg l by (auto simp: subtotal_of_def)
    then show ?thesis using whole_line_product(1)[of l] assms(1) l fl_of_int by metis
  qed
  then have "map (\<lambda>l. fl (ln_unitPrice l * ln_quantity l)) lines = map of_int ?ns" by simp
  then show ?thesis
    using sum_poisha_exact[OF nonneg] assms(2) by (simp only: cartSubtotal_def subtotal_of_def)
qed

text \<open>A subtotal below \<open>2 ^ 53\<close> is exact without knowing the sum beforehand.\<close>

lemma cartSubtotal_small:
  assumes "\<forall>l\<in>set lines. whole_line l" "cartSubtotal lines = Inr s" "s < 2 ^ 53"
  shows "s = of_int (subtotal_of lines)"
proof -
  let ?xs = "map (\<lambda>l. fl (ln_unitPrice l * ln_quantity l)) lines"
  have nonneg: "\<forall>x\<in>set ?xs. 0 \<le> x"
    using assms(1) fl_neg_iff by (force simp: whole_line_def not_less[symmetric] mult_less_0_iff)
  have s: "s = sum_list ?xs"
    using sum_from_small[of 0 ?xs s] assms(2,3) nonneg isInteger_of_int[of 0] by (simp add: cartSubtotal_def sum_poisha_def)
  have "fl (ln_unitPrice l * ln_quantity l) = of_int (\<lfloor>ln_unitPrice l\<rfloor> * \<lfloor>ln_quantity l\<rfloor>)"
    if l: "l \<in> set lines" for l
  proof -
    have "fl (ln_unitPrice l * ln_quantity l) \<le> s"
      unfolding s using l nonneg by (intro member_le_sum_list) auto
    then have "ln_unitPrice l * ln_quantity l < 2 ^ 53" using assms(3) fl_lt_2_53 by simp
    moreover have "0 \<le> ln_unitPrice l * ln_quantity l" "isInteger (ln_unitPrice l * ln_quantity l)"
      using assms(1) l by (auto simp: whole_line_def)
    ultimately have "fl (ln_unitPrice l * ln_quantity l) = ln_unitPrice l * ln_quantity l"
      by (intro fl_isInteger) simp_all
    then show ?thesis using whole_line_product(1) assms(1) l by simp
  qed
  then have "?xs = map of_int (map (\<lambda>l. \<lfloor>ln_unitPrice l\<rfloor> * \<lfloor>ln_quantity l\<rfloor>) lines)" by simp
  then show ?thesis unfolding s subtotal_of_def by (simp only: sum_list_map_of_int)
qed

section \<open>Properties\<close>

text \<open>
  C27. The cap follows the rule of the guideline: for a non-empty cart and a non-negative total
  the cap is the whole total when the order is in escrow or every line is ready to ship, and
  otherwise exactly a tenth of the total rounded down. One line that is not ready to ship
  brings the whole order under the ten percent cap.
\<close>

theorem advance_cap_rule:
  assumes "lines \<noteq> []" "isInteger n" "0 \<le> n" "10 * n \<le> 2 ^ 53"
  shows "\<exists>r. computeAdvanceCap lines n isEscrow = Inr r \<and>
     (if isEscrow \<or> (\<forall>l\<in>set lines. ln_readyToShip l) then cap_amount r = n
      else isInteger (cap_amount r) \<and> 10 * cap_amount r \<le> n \<and> n < 10 * (cap_amount r + 1))"
proof -
  obtain k where k: "n = of_int k" using assms(2) by (rule isInteger_cases)
  have "(of_int (10 * k) :: rat) \<le> of_int (2 ^ 53)" "(of_int 0 :: rat) \<le> of_int k" using assms k by simp_all
  then have "10 * k \<le> 2 ^ 53" "0 \<le> k" by (simp_all only: of_int_le_iff)
  then obtain r where r: "computeAdvanceCap lines n isEscrow = Inr r"
    "cap_amount r = of_int (cap_rule (full_advance_allowed lines isEscrow) k)"
    using computeAdvanceCap_of_int[OF assms(1), of k isEscrow] k by auto
  have "10 * (k div 10) \<le> k" "k < 10 * (k div 10 + 1)" by presburger+
  then have "(of_int (10 * (k div 10)) :: rat) \<le> of_int k" "(of_int k :: rat) < of_int (10 * (k div 10 + 1))"
    by (simp_all only: of_int_le_iff of_int_less_iff)
  then show ?thesis
    using r by (auto simp: k full_advance_allowed_def cap_rule_def)
qed

theorem advance_cap_rule_witness:
  "\<exists>r. computeAdvanceCap [\<lparr>ln_listingId = ''a'', ln_quantity = 2, ln_unitPrice = 42005, ln_readyToShip = False\<rparr>]
        84010 False = Inr r \<and>
     (if False \<or> (\<forall>l\<in>set [\<lparr>ln_listingId = ''a'', ln_quantity = 2, ln_unitPrice = 42005, ln_readyToShip = False\<rparr>].
        ln_readyToShip l) then cap_amount r = 84010
      else isInteger (cap_amount r) \<and> 10 * cap_amount r \<le> 84010 \<and> 84010 < 10 * (cap_amount r + 1))"
  by (rule advance_cap_rule) simp_all

text \<open>
  An advance is accepted exactly when it is a non-negative integer of at most the cap, and
  is rejected, never reduced, otherwise: a non-integer or negative request is a plain error,
  one above the cap is an \<open>AdvanceCapExceededError\<close>.
\<close>

theorem advance_rejected_not_clamped:
  "assertAdvanceWithinCap requested r =
     (if isInteger requested \<and> 0 \<le> requested
      then (if requested \<le> cap_amount r then Inr () else Inl AdvanceCapExceededError)
      else Inl (PlainError ''Requested advance must be non-negative poisha''))"
  by (auto simp: assertAdvanceWithinCap_def)

text \<open>
  The subtotal of a cart of non-negative integer prices and quantities is the exact sum of
  price times quantity, as long as that sum is within the exact range of a double.
\<close>

theorem cartSubtotal_is_exact_sum:
  assumes "\<forall>l\<in>set lines. isInteger (ln_unitPrice l) \<and> isInteger (ln_quantity l) \<and>
             0 \<le> ln_unitPrice l \<and> 0 \<le> ln_quantity l"
    and "(\<Sum>l\<leftarrow>lines. ln_unitPrice l * ln_quantity l) \<le> 2 ^ 53"
  shows "cartSubtotal lines = Inr (\<Sum>l\<leftarrow>lines. ln_unitPrice l * ln_quantity l)"
proof -
  have w: "\<forall>l\<in>set lines. whole_line l" using assms(1) by (simp add: whole_line_def)
  then have s: "(\<Sum>l\<leftarrow>lines. ln_unitPrice l * ln_quantity l) = of_int (subtotal_of lines)"
    unfolding subtotal_of_def by (induction lines) (simp_all add: whole_line_product(1))
  then have "(of_int (subtotal_of lines) :: rat) \<le> of_int (2 ^ 53)" using assms(2) by simp
  then have "subtotal_of lines \<le> 2 ^ 53" by (simp only: of_int_le_iff)
  then show ?thesis using cartSubtotal_exact[OF w] s by simp
qed

theorem cartSubtotal_is_exact_sum_witness:
  "cartSubtotal [\<lparr>ln_listingId = ''a'', ln_quantity = 2, ln_unitPrice = 42005, ln_readyToShip = True\<rparr>,
       \<lparr>ln_listingId = ''b'', ln_quantity = 3, ln_unitPrice = 100, ln_readyToShip = False\<rparr>] = Inr 84310"
  by (subst cartSubtotal_is_exact_sum) simp_all

end
