(* ===== verification/DeliveryClock.thy ===== *)
theory DeliveryClock
  imports JsString
begin

text \<open>
  \<open>api/src/common/compliance/delivery-clock.ts\<close>: the 5-day and 10-day delivery windows of
  the Digital Commerce Operation Guidelines, the same-city test and the buyer-visible
  countdown. A \<open>Date\<close> is its time value: milliseconds since the epoch, or \<open>None\<close> for
  \<open>Invalid Date\<close>.
\<close>

section \<open>Dates\<close>

type_synonym date = "int option"

text \<open>\<open>new Date(t)\<close>: time values beyond the ECMAScript range are invalid.\<close>

definition MAX_TIME :: int where
  "MAX_TIME = 8640000000000000"

definition mk_date :: "int \<Rightarrow> date" where
  "mk_date t = (if \<bar>t\<bar> \<le> MAX_TIME then Some t else None)"

definition valid_date :: "date \<Rightarrow> bool" where
  "valid_date d \<longleftrightarrow> (case d of None \<Rightarrow> True | Some t \<Rightarrow> \<bar>t\<bar> \<le> MAX_TIME)"

section \<open>Operations\<close>

definition SAME_CITY_DELIVERY_DAYS :: int where
  "SAME_CITY_DELIVERY_DAYS = 5"

definition DIFFERENT_CITY_DELIVERY_DAYS :: int where
  "DIFFERENT_CITY_DELIVERY_DAYS = 10"

definition MS_PER_DAY :: int where
  "MS_PER_DAY = 24 * 60 * 60 * 1000"

record district_ref =
  division :: string
  district :: string

text \<open>\<open>replace(/\s+/g, ' ')\<close>: every maximal run of white space becomes one space.\<close>

function collapse_spaces :: "string \<Rightarrow> string" where
  "collapse_spaces [] = []"
| "collapse_spaces (c # cs) =
     (if is_space c then CHR '' '' # collapse_spaces (dropWhile is_space cs)
      else c # collapse_spaces cs)"
  by pat_completeness auto
termination
  by (relation "measure length") (auto simp: le_imp_less_Suc length_dropWhile_le)

definition normalise :: "string \<Rightarrow> string" where
  "normalise v = collapse_spaces (toLowerCase (trim v))"

definition isSameCity :: "('m district_ref_scheme) \<Rightarrow> ('d district_ref_scheme) \<Rightarrow> bool" where
  "isSameCity merchant delivery \<longleftrightarrow>
     normalise (division merchant) = normalise (division delivery) \<and>
     normalise (district merchant) = normalise (district delivery)"

definition deliveryWindowDays :: "bool \<Rightarrow> int" where
  "deliveryWindowDays sameCity =
     (if sameCity then SAME_CITY_DELIVERY_DAYS else DIFFERENT_CITY_DELIVERY_DAYS)"

record delivery_deadline =
  deadlineAt :: date
  windowDays :: int
  dl_explanationKey :: string

definition computeDeliveryDeadline :: "date \<Rightarrow> bool \<Rightarrow> err + delivery_deadline" where
  "computeDeliveryDeadline advancePaidAt sameCity =
     (case advancePaidAt of
        None \<Rightarrow> Inl (PlainError ''advancePaidAt is not a valid Date'')
      | Some t \<Rightarrow>
          let days = deliveryWindowDays sameCity in
          Inr \<lparr>deadlineAt = mk_date (t + days * MS_PER_DAY),
               windowDays = days,
               dl_explanationKey = (if sameCity then ''order.delivery.deadline_same_city''
                                    else ''order.delivery.deadline_different_city'')\<rparr>)"

text \<open>
  The two display helpers take valid dates (the deadline comes from a database column and the
  clock is the current time), so their arguments are time values.
\<close>

definition isOverdue :: "int option \<Rightarrow> int \<Rightarrow> bool" where
  "isOverdue deadline now = (case deadline of None \<Rightarrow> False | Some d \<Rightarrow> now > d)"

definition daysRemaining :: "int \<Rightarrow> int \<Rightarrow> number" where
  "daysRemaining deadline now = js_floor (fl (fl (of_int (deadline - now)) / of_int MS_PER_DAY))"

section \<open>Normalisation\<close>

lemma is_space_space [simp]: "is_space CHR '' ''"
  by (simp add: is_space_def)

lemma is_space_lower [simp]: "is_space (to_lower_char c) = is_space c"
  by (auto simp: is_space_def to_lower_char_def Let_def)

lemma to_lower_char_idem [simp]: "to_lower_char (to_lower_char c) = to_lower_char c"
  by (auto simp: to_lower_char_def Let_def)

lemma toLowerCase_idem [simp]: "toLowerCase (toLowerCase s) = toLowerCase s"
  by (simp add: toLowerCase_def comp_def)

lemma dropWhile_collapse:
  "dropWhile is_space (collapse_spaces s) = collapse_spaces (dropWhile is_space s)"
proof (induction s rule: collapse_spaces.induct)
  case (2 c cs)
  show ?case
  proof (cases "is_space c")
    case True
    then have "dropWhile is_space (collapse_spaces (c # cs)) =
        dropWhile is_space (collapse_spaces (dropWhile is_space cs))" by simp
    also have "\<dots> = collapse_spaces (dropWhile is_space (dropWhile is_space cs))" by (rule 2(1)[OF True])
    also have "dropWhile is_space (dropWhile is_space cs) = dropWhile is_space cs"
      by (induction cs) auto
    finally show ?thesis using True by simp
  qed simp
qed simp

lemma collapse_idem [simp]: "collapse_spaces (collapse_spaces s) = collapse_spaces s"
proof (induction s rule: collapse_spaces.induct)
  case (2 c cs)
  have dd: "dropWhile is_space (dropWhile is_space cs) = dropWhile is_space cs"
    by (induction cs) auto
  show ?case using 2 dd by (cases "is_space c") (simp_all add: dropWhile_collapse)
qed simp

lemma dropWhile_lower: "dropWhile is_space (map to_lower_char s) = map to_lower_char (dropWhile is_space s)"
  by (induction s) auto

lemma to_lower_space [simp]: "to_lower_char CHR '' '' = CHR '' ''"
  by (simp add: to_lower_char_def)

lemma collapse_lower: "collapse_spaces (map to_lower_char s) = map to_lower_char (collapse_spaces s)"
  by (induction s rule: collapse_spaces.induct) (simp_all add: dropWhile_lower)

lemma lower_collapse: "toLowerCase (collapse_spaces (toLowerCase s)) = collapse_spaces (toLowerCase s)"
  using toLowerCase_idem[of s] by (simp only: toLowerCase_def collapse_lower[symmetric])

lemma collapse_hd:
  "s \<noteq> [] \<Longrightarrow> \<not> is_space (hd s) \<Longrightarrow> collapse_spaces s \<noteq> [] \<and> hd (collapse_spaces s) = hd s"
  by (cases s) auto

lemma collapse_last:
  "s \<noteq> [] \<Longrightarrow> \<not> is_space (last s) \<Longrightarrow> collapse_spaces s \<noteq> [] \<and> last (collapse_spaces s) = last s"
proof (induction s rule: collapse_spaces.induct)
  case (2 c cs)
  show ?case
  proof (cases "is_space c")
    case True
    with 2(4) have cs: "cs \<noteq> []" "\<not> is_space (last cs)" by (auto split: if_splits)
    then have "last cs \<in> set cs" "\<not> is_space (last cs)" by auto
    then have d: "dropWhile is_space cs \<noteq> []" by auto
    moreover have "last (dropWhile is_space cs) = last cs"
      using d by (induction cs) (auto split: if_splits)
    ultimately show ?thesis using 2(1)[OF True] True cs by simp
  next
    case False
    then show ?thesis using 2 by (cases cs) auto
  qed
qed simp

lemma normalise_idem [simp]: "normalise (normalise v) = normalise v"
proof (cases "trim v = []")
  case True
  then have "normalise v = []" by (simp add: normalise_def toLowerCase_def)
  then show ?thesis by (simp add: normalise_def toLowerCase_def trim_def)
next
  case False
  let ?l = "toLowerCase (trim v)"
  have l: "?l \<noteq> []" "\<not> is_space (hd ?l)" "\<not> is_space (last ?l)"
    using False trim_ends[OF False] by (simp_all add: toLowerCase_def hd_map last_map)
  have "trim (collapse_spaces ?l) = collapse_spaces ?l"
    using collapse_hd[OF l(1,2)] collapse_last[OF l(1,3)] l by (intro trim_id) auto
  moreover have "toLowerCase (collapse_spaces ?l) = collapse_spaces ?l"
    using lower_collapse[of "trim v"] by simp
  ultimately show ?thesis by (simp add: normalise_def)
qed

section \<open>Properties\<close>

text \<open>
  Same-city is decided on the normalised administrative names only: it is symmetric, and
  replacing either side's division or district by its normal form (trimmed, lower-cased, runs
  of white space collapsed) never changes the answer.
\<close>

theorem isSameCity_normal_form:
  "isSameCity (m :: district_ref) (d :: district_ref) = isSameCity d m \<and> isSameCity m m \<and>
   isSameCity \<lparr>division = normalise (division m), district = normalise (district m)\<rparr> d = isSameCity m d"
  by (auto simp: isSameCity_def)

text \<open>
  The deadline of a valid payment date is exactly 5 days (same city) or 10 days later, and
  an invalid payment date is rejected.
\<close>

theorem computeDeliveryDeadline_window:
  "computeDeliveryDeadline None sameCity = Inl (PlainError ''advancePaidAt is not a valid Date'') \<and>
   (\<exists>r. computeDeliveryDeadline (Some t) sameCity = Inr r \<and>
     windowDays r = (if sameCity then 5 else 10) \<and>
     deadlineAt r = mk_date (t + (if sameCity then 432000000 else 864000000)))"
  by (simp_all add: computeDeliveryDeadline_def Let_def deliveryWindowDays_def MS_PER_DAY_def
      SAME_CITY_DELIVERY_DAYS_def DIFFERENT_CITY_DELIVERY_DAYS_def)

text \<open>
  The countdown and the overdue test agree: an order is overdue exactly when its countdown
  is negative, whatever the rounding of the divisions.
\<close>

theorem overdue_iff_negative_countdown:
  "isOverdue (Some deadline) now \<longleftrightarrow> daysRemaining deadline now < 0"
proof -
  have "daysRemaining deadline now < 0 \<longleftrightarrow> fl (fl (of_int (deadline - now)) / of_int MS_PER_DAY) < 0"
    by (simp add: daysRemaining_def js_floor_def)
  also have "\<dots> \<longleftrightarrow> deadline < now"
    by (simp only: fl_neg_iff divide_less_0_iff) (simp add: MS_PER_DAY_def)
  finally show ?thesis by (simp add: isOverdue_def)
qed

end
