(* ===== verification/Database.thy ===== *)
theory Database
  imports Money DeliveryClock
begin

text \<open>
  The PostgreSQL state the repositories read and write: one record per table of
  \<open>docs/data-model/phase-1-schema.sql\<close> and its two migrations, one row list per table in
  insertion order, and the conversions at the driver boundary. A statement of the sources is
  a function \<open>(db, 'a) stmt\<close>: it fails with the SQLSTATE of the violated constraint, in
  the order PostgreSQL checks them (parameter conversion, CHECK, UNIQUE, foreign keys), or
  returns rows with the new state. \<open>gen_random_uuid()\<close> draws the next element of the
  sequence \<open>uuids\<close>, about which nothing is assumed: a repeated id is a primary key
  violation. \<open>now()\<close> is the start time of the transaction, \<open>now_ts\<close>.
\<close>

section \<open>Enumerations of the schema\<close>

datatype role_type = Customer | Merchant | Rider | Professional

datatype verification_status = Unverified | Verification_Pending | Verified | Verification_Rejected

datatype listing_type = Product | Service_Slot

datatype order_status =
    Created | Awaiting_Payment | Confirmed | Preparing | Ready_For_Pickup | In_Transit
  | Delivered | Cancelled | Refund_Requested | Refunded

datatype payment_method = Bkash | Nagad | Cod | Escrow_Payment

datatype settlement_status = Pending | Authorized | Settled | Failed | Settlement_Refunded

datatype channel = Push | Sms

datatype notification_status = N_Pending | N_Sent | N_Failed | N_Abandoned

section \<open>Rows\<close>

record location_row =
  loc_id :: string
  loc_division :: string
  loc_district :: string
  loc_upazila_thana :: string
  loc_union_ward :: "string option"
  loc_village_mohalla :: "string option"
  loc_address_line :: "string option"
  loc_geo :: "(number \<times> number) option"   \<comment> \<open>longitude, latitude\<close>

record user_row =
  u_id :: string
  u_phone_e164 :: string
  u_language_preference :: string
  u_nid_number :: "string option"
  u_nid_verification_status :: verification_status

record role_row =
  r_id :: string
  r_user_id :: string
  r_type :: role_type
  r_is_active :: bool
  r_profile :: "(string \<times> string option) list"
  r_kyc_status :: verification_status
  r_pickup_location_id :: "string option"

record category_row =
  c_id :: string
  c_is_restricted :: bool
  c_requires_dgda_licence :: bool

record listing_row =
  l_id :: string
  l_owner_role_id :: string
  l_type :: listing_type
  l_category_id :: string
  l_title_bn :: string
  l_title_en :: "string option"
  l_description_bn :: "string option"
  l_description_en :: "string option"
  l_price_bdt :: int
  l_ready_to_ship :: bool
  l_stock_qty :: "int option"
  l_location_id :: string
  l_geo :: "(number \<times> number) option"
  l_is_active :: bool

record order_row =
  o_id :: string
  o_customer_user_id :: string
  o_merchant_role_id :: string
  o_delivery_location_id :: string
  o_status :: order_status
  o_payment_method :: payment_method
  o_subtotal_bdt :: int
  o_delivery_fee_bdt :: int
  o_total_bdt :: int
  o_advance_amount_bdt :: int
  o_advance_cap_bdt :: int
  o_is_escrow :: bool
  o_all_items_ready_to_ship :: bool
  o_is_same_city :: bool
  o_advance_paid_at :: "int option"
  o_delivery_deadline_at :: "int option"

record order_item_row =
  oi_id :: string
  oi_order_id :: string
  oi_listing_id :: string
  oi_quantity :: int
  oi_unit_price_bdt :: int
  oi_ready_to_ship_at_order :: bool

record status_event_row =
  se_id :: string
  se_order_id :: string
  se_from_status :: "order_status option"
  se_to_status :: order_status
  se_actor_role_id :: "string option"
  se_note_key :: "string option"
  se_occurred_at :: int

record transaction_row =
  t_id :: string
  t_order_id :: string
  t_method :: payment_method
  t_amount_bdt :: int
  t_status :: settlement_status
  t_aggregator :: "string option"
  t_aggregator_ref :: "string option"
  t_is_advance :: bool
  t_occurred_at :: int
  t_settled_at :: "int option"

record outbox_row =
  n_id :: string
  n_user_id :: string
  n_phone_e164 :: string
  n_language :: string
  n_channel :: channel
  n_template_key :: string
  n_params :: "(string \<times> string) list"
  n_order_id :: "string option"
  n_status :: notification_status
  n_attempts :: int
  n_last_error :: "string option"
  n_created_at :: int
  n_sent_at :: "int option"
  n_dedupe_key :: string

record kyc_submission_row =
  k_id :: string
  k_role_id :: string
  k_document_urls :: "string list"
  k_submitted_at :: int

record db =
  locations :: "location_row list"
  users :: "user_row list"
  roles :: "role_row list"
  categories :: "category_row list"
  listings :: "listing_row list"
  orders :: "order_row list"
  order_items :: "order_item_row list"
  status_events :: "status_event_row list"
  transactions :: "transaction_row list"
  outbox :: "outbox_row list"
  kyc_submissions :: "kyc_submission_row list"
  now_ts :: int
  uuids :: "nat \<Rightarrow> string"
  uuid_n :: nat

section \<open>The driver boundary\<close>

text \<open>
  \<open>NUMERIC(12,2)\<close>: a decimal text is stored in hundredths, rounded half away from zero
  beyond the second place, and refused from \<open>10 ^ 10\<close> on; it is read back in the
  canonical form. An \<open>INTEGER\<close> parameter must be integral and fit 32 bits. A
  \<open>TIMESTAMPTZ\<close> parameter must be a valid date.
\<close>

definition numeric_in :: "string \<Rightarrow> err + int" where
  "numeric_in s =
     (if \<not> bdt_pattern s then Inl (DbError ''22P02'')
      else
        let neg = startsWith ''-'' s;
            parts = split_on CHR ''.'' (remove1 CHR ''-'' s);
            w = hd parts; f = concat (tl parts);
            n = 100 * digits_val w + digits_val (take 2 (padEnd 2 CHR ''0'' f))
                + (if 2 < length f \<and> 5 \<le> digit_val (f ! 2) then 1 else 0)
        in if 10 ^ 12 \<le> n then Inl (DbError ''22003'')
           else Inr (if neg then - int n else int n))"

definition numeric_out :: "int \<Rightarrow> string" where
  "numeric_out n = money_text n"

text \<open>
  The driver sends the text of a number: from \<open>10 ^ 21\<close> on it has an exponent, which, like a
  fraction, the input of \<open>INTEGER\<close> refuses as malformed rather than as out of range.
\<close>

definition int4_in :: "number \<Rightarrow> err + int" where
  "int4_in q =
     (if \<not> isInteger q \<or> 10 ^ 21 \<le> \<bar>q\<bar> then Inl (DbError ''22P02'')
      else if q < -2147483648 \<or> 2147483647 < q then Inl (DbError ''22003'')
      else Inr \<lfloor>q\<rfloor>)"

definition timestamptz_in :: "date \<Rightarrow> err + int" where
  "timestamptz_in d = (case d of None \<Rightarrow> Inl (DbError ''22007'') | Some t \<Rightarrow> Inr t)"

text \<open>Constraint checks: each is a statement that fails with its SQLSTATE or does nothing.\<close>

type_synonym 'a sql = "(db, 'a) stmt"

definition check :: "bool \<Rightarrow> unit sql" where
  "check b = (if b then stmt_return () else stmt_throw (DbError ''23514''))"

definition unique :: "bool \<Rightarrow> unit sql" where
  "unique b = (if b then stmt_return () else stmt_throw (DbError ''23505''))"

definition foreign_key :: "bool \<Rightarrow> unit sql" where
  "foreign_key b = (if b then stmt_return () else stmt_throw (DbError ''23503''))"

definition gen_random_uuid :: "string sql" where
  "gen_random_uuid d = Inr (uuids d (uuid_n d), d\<lparr>uuid_n := Suc (uuid_n d)\<rparr>)"

definition read_db :: "(db \<Rightarrow> 'a) \<Rightarrow> 'a sql" where
  "read_db f d = Inr (f d, d)"

definition write_db :: "(db \<Rightarrow> db) \<Rightarrow> unit sql" where
  "write_db f d = Inr ((), f d)"

lemma sql_prim_simps [simp, stmt_simps]:
  "check b d = (if b then Inr ((), d) else Inl (DbError ''23514''))"
  "unique b d = (if b then Inr ((), d) else Inl (DbError ''23505''))"
  "foreign_key b d = (if b then Inr ((), d) else Inl (DbError ''23503''))"
  "gen_random_uuid d = Inr (uuids d (uuid_n d), d\<lparr>uuid_n := Suc (uuid_n d)\<rparr>)"
  "read_db f d = Inr (f d, d)"
  "write_db g d = Inr ((), g d)"
  by (simp_all add: check_def unique_def foreign_key_def gen_random_uuid_def read_db_def write_db_def)

lemma numeric_in_money_text:
  assumes "\<bar>n\<bar> < 10 ^ 12"
  shows "numeric_in (money_text n) = Inr n"
proof -
  let ?a = "nat \<bar>n\<bar>"
  let ?w = "dec (?a div 100)" and ?f = "[digit_char (?a div 10 mod 10), digit_char (?a mod 10)]"
  have t: "money_text n = amount_text (n < 0) ?w ?f" by (simp add: money_text_def Let_def)
  have digits: "list_all is_digit ?w" "list_all is_digit ?f"
    using dec_digits by (auto simp: list_all_iff)
  have parts: "startsWith ''-'' (amount_text (n < 0) ?w ?f) = (n < 0)"
      "split_on CHR ''.'' (remove1 CHR ''-'' (amount_text (n < 0) ?w ?f)) = [?w, ?f]"
    using amount_text_parts[OF dec_nonempty digits] by simp_all
  have "digits_val (take 2 (padEnd 2 CHR ''0'' ?f)) = 10 * (?a div 10 mod 10) + ?a mod 10"
    by (simp add: padEnd_def digits_val_def)
  then have m: "100 * digits_val ?w + digits_val (take 2 (padEnd 2 CHR ''0'' ?f)) = ?a"
    by (simp only: digits_val_dec hundreds_split)
  have m': "100 * digits_val (hd [?w, ?f]) + digits_val (take 2 (padEnd 2 CHR ''0'' (concat (tl [?w, ?f])))) +
      (if 2 < length (concat (tl [?w, ?f])) \<and> 5 \<le> digit_val (concat (tl [?w, ?f]) ! 2) then 1 else 0) = ?a"
    using m by simp
  have "\<not> 10 ^ 12 \<le> ?a" using assms by simp
  then show ?thesis
    using bdt_pattern_amount_text[OF dec_nonempty digits, of "n < 0"]
    unfolding numeric_in_def t parts Let_def m' by simp
qed

lemma poishaToTaka_numeric:
  "poishaToTaka p = Inr t \<Longrightarrow> numeric_in t = Inr n \<longleftrightarrow> p = of_int n"
  by (auto simp: poishaToTaka_Inr_iff numeric_in_money_text)

lemma int4_in_of_int [simp]:
  "- 2147483648 \<le> n \<Longrightarrow> n \<le> 2147483647 \<Longrightarrow> int4_in (of_int n) = Inr n"
proof -
  assume "- 2147483648 \<le> n" "n \<le> 2147483647"
  then have "(of_int (- 2147483648) :: rat) \<le> of_int n" "(of_int n :: rat) \<le> of_int 2147483647"
    by (simp_all only: of_int_le_iff)
  then show ?thesis by (simp add: int4_in_def)
qed

lemma int4_in_Inr: "int4_in q = Inr n \<Longrightarrow> q = of_int n \<and> -2147483648 \<le> n \<and> n \<le> 2147483647"
  by (auto simp: int4_in_def isInteger_def le_floor_iff floor_le_iff split: if_splits)

section \<open>A small database\<close>

text \<open>
  One customer, one verified merchant with two listings and a pickup address, one delivery
  address in the same district and one elsewhere. The witnesses of the properties run on it.
\<close>

definition sample_location :: "string \<Rightarrow> string \<Rightarrow> string \<Rightarrow> location_row" where
  "sample_location i dv dt =
     \<lparr>loc_id = i, loc_division = dv, loc_district = dt, loc_upazila_thana = ''Dhanmondi'',
      loc_union_ward = None, loc_village_mohalla = None, loc_address_line = None, loc_geo = None\<rparr>"

definition sample_listing :: "string \<Rightarrow> int \<Rightarrow> bool \<Rightarrow> listing_row" where
  "sample_listing i price ready =
     \<lparr>l_id = i, l_owner_role_id = ''shop'', l_type = Product, l_category_id = ''food'', l_title_bn = ''bhat'',
      l_title_en = None, l_description_bn = None, l_description_en = None, l_price_bdt = price,
      l_ready_to_ship = ready, l_stock_qty = Some 9, l_location_id = ''pickup'', l_geo = None,
      l_is_active = True\<rparr>"

definition sample_db :: db where
  "sample_db =
     \<lparr>locations = [sample_location ''pickup'' ''Dhaka'' ''Dhaka'', sample_location ''home'' '' dhaka '' ''DHAKA'',
        sample_location ''away'' ''Khulna'' ''Jashore''],
      users = [\<lparr>u_id = ''buyer'', u_phone_e164 = ''+8801712345678'', u_language_preference = ''bn'',
          u_nid_number = None, u_nid_verification_status = Unverified\<rparr>,
        \<lparr>u_id = ''owner'', u_phone_e164 = ''+8801812345678'', u_language_preference = ''en'',
          u_nid_number = Some ''1234567890'', u_nid_verification_status = Verified\<rparr>],
      roles = [\<lparr>r_id = ''shop'', r_user_id = ''owner'', r_type = Merchant, r_is_active = True, r_profile = [],
          r_kyc_status = Verified, r_pickup_location_id = Some ''pickup''\<rparr>],
      categories = [\<lparr>c_id = ''food'', c_is_restricted = False, c_requires_dgda_licence = False\<rparr>],
      listings = [sample_listing ''rice'' 42005 False, sample_listing ''tea'' 1000 True],
      orders = [], order_items = [], status_events = [], transactions = [], outbox = [],
      kyc_submissions = [], now_ts = 1000, uuids = (\<lambda>n. CHR ''u'' # replicate n CHR ''x''), uuid_n = 0\<rparr>"

end
