(* ===== verification/UnitOfWork.thy ===== *)
theory UnitOfWork
  imports Database
begin

text \<open>
  \<open>api/src/common/database/unit-of-work.ts\<close> and \<open>pg-unit-of-work.ts\<close>: the transaction
  boundary. The world holds the committed database, the state of the transaction in flight on
  the current asynchronous context (the \<open>AsyncLocalStorage\<close> store), the clock, and the
  connection failures still to come. An action takes the world and yields its outcome (an
  exception or a value) together with the world it leaves: unlike a statement, an action that
  throws has still changed the world.

  The interface other modules rely on is the locale \<open>unit_of_work\<close>: all or nothing, and
  any property the statement keeps is kept by the committed state.
\<close>

section \<open>The world and its actions\<close>

datatype tx_fault = No_Fault | Connect_Fails | Begin_Fails | Commit_Fails

record world =
  committed :: db
  inflight :: "db option"
  tx_faults :: "tx_fault list"
  clock :: int

type_synonym ('w, 'a) act = "'w \<Rightarrow> (err + 'a) \<times> 'w"

definition act_return :: "'a \<Rightarrow> ('w, 'a) act" where
  "act_return a w = (Inr a, w)"

definition act_throw :: "err \<Rightarrow> ('w, 'a) act" where
  "act_throw e w = (Inl e, w)"

definition act_lift :: "err + 'a \<Rightarrow> ('w, 'a) act" where
  "act_lift r w = (r, w)"

definition act_bind :: "('w, 'a) act \<Rightarrow> ('a \<Rightarrow> ('w, 'b) act) \<Rightarrow> ('w, 'b) act" where
  "act_bind m k w = (case m w of (Inl e, w') \<Rightarrow> (Inl e, w') | (Inr a, w') \<Rightarrow> k a w')"

text \<open>\<open>try { m } catch (error) { h error }\<close>.\<close>

definition act_catch :: "('w, 'a) act \<Rightarrow> (err \<Rightarrow> ('w, 'a) act) \<Rightarrow> ('w, 'a) act" where
  "act_catch m h w = (case m w of (Inl e, w') \<Rightarrow> h e w' | (Inr a, w') \<Rightarrow> (Inr a, w'))"

lemma act_simps [simp]:
  "act_return a w = (Inr a, w)"
  "act_throw e w = (Inl e, w)"
  "act_lift r w = (r, w)"
  by (simp_all add: act_return_def act_throw_def act_lift_def)

lemma act_bind_simps [simp]:
  "m w = (Inl e, w') \<Longrightarrow> act_bind m k w = (Inl e, w')"
  "m w = (Inr a, w') \<Longrightarrow> act_bind m k w = k a w'"
  by (simp_all add: act_bind_def)

lemma act_catch_simps [simp]:
  "m w = (Inl e, w') \<Longrightarrow> act_catch m h w = h e w'"
  "m w = (Inr a, w') \<Longrightarrow> act_catch m h w = (Inr a, w')"
  by (simp_all add: act_catch_def)

section \<open>Running statements\<close>

text \<open>
  \<open>tx.query\<close> runs on the transaction in flight; \<open>pool.query\<close> runs on another connection
  and commits by itself. A context exists only inside \<open>withTransaction\<close>, so the branch
  without one is unreachable.
\<close>

definition in_tx :: "'a sql \<Rightarrow> ('z world_scheme, 'a) act" where
  "in_tx m w =
     (case inflight w of
        None \<Rightarrow> (Inl (PlainError ''no transaction context''), w)
      | Some d \<Rightarrow>
          (case m d of Inl e \<Rightarrow> (Inl e, w) | Inr (a, d') \<Rightarrow> (Inr a, w\<lparr>inflight := Some d'\<rparr>)))"

definition started :: "'z world_scheme \<Rightarrow> db" where
  "started w = (committed w)\<lparr>now_ts := clock w\<rparr>"

definition on_pool :: "'a sql \<Rightarrow> ('z world_scheme, 'a) act" where
  "on_pool m w =
     (case m (started w) of Inl e \<Rightarrow> (Inl e, w) | Inr (a, d') \<Rightarrow> (Inr a, w\<lparr>committed := d'\<rparr>))"

definition next_fault :: "'z world_scheme \<Rightarrow> tx_fault" where
  "next_fault w = (case tx_faults w of [] \<Rightarrow> No_Fault | f # _ \<Rightarrow> f)"

definition drop_fault :: "'z world_scheme \<Rightarrow> 'z world_scheme" where
  "drop_fault w = w\<lparr>tx_faults := tl (tx_faults w)\<rparr>"

text \<open>\<open>ROLLBACK\<close> discards the state in flight; \<open>COMMIT\<close> makes it the committed one.\<close>

definition rollback :: "'z world_scheme \<Rightarrow> 'z world_scheme" where
  "rollback w = w\<lparr>inflight := None\<rparr>"

definition commit :: "'z world_scheme \<Rightarrow> 'z world_scheme" where
  "commit w = (case inflight w of None \<Rightarrow> w | Some d \<Rightarrow> w\<lparr>committed := d, inflight := None\<rparr>)"

definition withTransaction ::
  "('z world_scheme, 'a) act \<Rightarrow> ('z world_scheme, 'a) act" where
  "withTransaction work w =
     (case inflight w of
        Some _ \<Rightarrow> work w
      | None \<Rightarrow>
          let w1 = drop_fault w in
          (case next_fault w of
             Connect_Fails \<Rightarrow> (Inl ConnectionError, w1)
           | Begin_Fails \<Rightarrow> (Inl ConnectionError, rollback w1)
           | fault \<Rightarrow>
               (case work (w1\<lparr>inflight := Some (started w)\<rparr>) of
                  (Inl e, w2) \<Rightarrow> (Inl e, rollback w2)
                | (Inr r, w2) \<Rightarrow>
                    if fault = Commit_Fails then (Inl ConnectionError, rollback w2)
                    else (Inr r, commit w2))))"

text \<open>A service call that runs one sequence of statements in one transaction.\<close>

definition transact :: "'a sql \<Rightarrow> ('z world_scheme, 'a) act" where
  "transact m = withTransaction (in_tx m)"

section \<open>The interface\<close>

locale unit_of_work =
  fixes run :: "'a sql \<Rightarrow> 'w \<Rightarrow> (err + 'a) \<times> 'w"
    and stored :: "'w \<Rightarrow> db"
    and start :: "'w \<Rightarrow> db"
    and idle :: "'w \<Rightarrow> bool"
  assumes failed: "idle w \<Longrightarrow> run m w = (Inl e, w') \<Longrightarrow> stored w' = stored w"
    and succeeded: "idle w \<Longrightarrow> run m w = (Inr a, w') \<Longrightarrow> m (start w) = Inr (a, stored w')"
    and stays_idle: "idle w \<Longrightarrow> run m w = (r, w') \<Longrightarrow> idle w'"
begin

lemma all_or_nothing:
  assumes "idle w" "run m w = (r, w')"
  shows "stored w' = stored w \<or> (\<exists>a. r = Inr a \<and> m (start w) = Inr (a, stored w'))"
  using assms failed succeeded by (cases r) blast+

lemma keeps:
  assumes "idle w" "run m w = (r, w')" "P (stored w)" "P (stored w) \<Longrightarrow> P (start w)"
    and "\<And>d a d'. P d \<Longrightarrow> m d = Inr (a, d') \<Longrightarrow> P d'"
  shows "P (stored w')"
  using all_or_nothing[OF assms(1,2)] assms(3-5) by metis

end

lemma in_tx_some [simp]:
  "inflight w = Some d \<Longrightarrow>
   in_tx m w = (case m d of Inl e \<Rightarrow> (Inl e, w) | Inr (a, d') \<Rightarrow> (Inr a, w\<lparr>inflight := Some d'\<rparr>))"
  by (simp add: in_tx_def)

lemma transact_idle:
  "inflight w = None \<Longrightarrow>
   transact m w =
     (let w1 = drop_fault w in
      case next_fault w of
        Connect_Fails \<Rightarrow> (Inl ConnectionError, w1)
      | Begin_Fails \<Rightarrow> (Inl ConnectionError, w1)
      | fault \<Rightarrow>
          (case m (started w) of
             Inl e \<Rightarrow> (Inl e, w1)
           | Inr (a, d') \<Rightarrow> if fault = Commit_Fails then (Inl ConnectionError, w1)
                            else (Inr a, w1\<lparr>committed := d'\<rparr>)))"
  by (auto simp: transact_def withTransaction_def Let_def rollback_def commit_def drop_fault_def
      split: tx_fault.splits sum.splits)

interpretation pg: unit_of_work transact committed started "\<lambda>w. inflight w = None"
  by unfold_locales
     (auto simp: transact_idle Let_def drop_fault_def split: tx_fault.splits sum.splits if_splits)

lemma transact_no_fault:
  "inflight w = None \<Longrightarrow> tx_faults w = [] \<Longrightarrow>
   transact m w = (case m (started w) of Inl e \<Rightarrow> (Inl e, w) | Inr (a, d') \<Rightarrow> (Inr a, w\<lparr>committed := d'\<rparr>))"
  by (auto simp: transact_idle Let_def drop_fault_def next_fault_def split: sum.splits)

text \<open>Inversion rules, and the effect of a pool query.\<close>

lemma act_bind_Inr_iff:
  "act_bind m k w = (Inr b, w') \<longleftrightarrow> (\<exists>a w1. m w = (Inr a, w1) \<and> k a w1 = (Inr b, w'))"
  by (auto simp: act_bind_def split: prod.splits sum.splits)

lemma act_bind_Inl_iff:
  "act_bind m k w = (Inl e, w') \<longleftrightarrow>
     m w = (Inl e, w') \<or> (\<exists>a w1. m w = (Inr a, w1) \<and> k a w1 = (Inl e, w'))"
  by (auto simp: act_bind_def split: prod.splits sum.splits)

lemma on_pool_Inr_iff:
  "on_pool m w = (Inr a, w') \<longleftrightarrow> (\<exists>d'. m (started w) = Inr (a, d') \<and> w' = w\<lparr>committed := d'\<rparr>)"
  by (auto simp: on_pool_def split: sum.splits)

lemma on_pool_Inl_iff: "on_pool m w = (Inl e, w') \<longleftrightarrow> m (started w) = Inl e \<and> w' = w"
  by (auto simp: on_pool_def split: sum.splits)

lemma act_lift_iff: "act_lift r w = (s, w') \<longleftrightarrow> s = r \<and> w' = w"
  by auto

text \<open>
  Reading on the pool leaves the world with the same tables: \<open>at_now w\<close> is the world whose
  committed state carries the current time, the only thing a read may have set.
\<close>

definition at_now :: "'z world_scheme \<Rightarrow> 'z world_scheme" where
  "at_now w = w\<lparr>committed := started w\<rparr>"

lemma started_at_now [simp]: "started (at_now w) = started w"
  by (simp add: at_now_def started_def)

lemma at_now_idem [simp]: "at_now (at_now w) = at_now w"
  by (simp add: at_now_def started_def)

lemma at_now_fields [simp]:
  "inflight (at_now w) = inflight w" "tx_faults (at_now w) = tx_faults w" "clock (at_now w) = clock w"
  "committed (at_now w) = started w"
  by (simp_all add: at_now_def)

lemma on_pool_read:
  assumes "\<And>a d'. m (started w) = Inr (a, d') \<Longrightarrow> d' = started w"
  shows "on_pool m w = (Inr a, w') \<longleftrightarrow> m (started w) = Inr (a, started w) \<and> w' = at_now w"
  using assms by (auto simp: on_pool_Inr_iff at_now_def)

text \<open>The world of the small database, with no failure to come.\<close>

definition sample_world :: world where
  "sample_world = \<lparr>committed = sample_db, inflight = None, tx_faults = [], clock = 1000\<rparr>"

lemma sample_world_simps [simp]:
  "committed sample_world = sample_db" "inflight sample_world = None" "tx_faults sample_world = []"
  "started sample_world = sample_db" "at_now sample_world = sample_world" "clock sample_world = 1000"
  by (simp_all add: sample_world_def started_def at_now_def sample_db_def)

section \<open>Properties\<close>

text \<open>
  C32. A transaction is all or nothing, for any work at all: when the outermost
  \<open>withTransaction\<close> throws (the work threw, or the connection, \<open>BEGIN\<close> or \<open>COMMIT\<close>
  failed) no statement the work ran in the transaction is in the committed state, as long as
  the work itself writes through its transaction only.
\<close>

theorem withTransaction_atomic:
  assumes "inflight w = None"
    and "\<And>w1 r w2. work w1 = (r, w2) \<Longrightarrow> committed w2 = committed w1"
    and "withTransaction work w = (Inl e, w')"
  shows "committed w' = committed w \<and> inflight w' = None"
proof -
  let ?w1 = "(drop_fault w)\<lparr>inflight := Some (started w)\<rparr>"
  obtain r w2 where work: "work ?w1 = (r, w2)" by (cases "work ?w1")
  have w2: "committed w2 = committed w"
    using assms(2)[OF work] by (simp add: drop_fault_def)
  have "w' = drop_fault w \<or> w' = rollback (drop_fault w) \<or> w' = rollback w2"
    using assms(1,3) unfolding withTransaction_def Let_def
    by (cases "next_fault w"; cases r) (simp_all add: work)
  then show ?thesis
    using assms(1) w2 by (auto simp: rollback_def drop_fault_def)
qed

theorem withTransaction_atomic_witness:
  "committed (snd (withTransaction (in_tx (write_db (\<lambda>d. d\<lparr>uuid_n := 7\<rparr>)))
      \<lparr>committed = sample_db, inflight = None, tx_faults = [Commit_Fails], clock = 5\<rparr>)) = sample_db"
proof -
  let ?work = "in_tx (write_db (\<lambda>d. d\<lparr>uuid_n := 7\<rparr>)) :: (world, unit) act"
  let ?w = "\<lparr>committed = sample_db, inflight = None, tx_faults = [Commit_Fails], clock = 5\<rparr>"
  have r: "withTransaction ?work ?w = (Inl ConnectionError, snd (withTransaction ?work ?w))"
    by (simp add: withTransaction_def Let_def next_fault_def drop_fault_def)
  have "committed (snd (withTransaction ?work ?w)) = committed ?w \<and>
      inflight (snd (withTransaction ?work ?w)) = None"
    by (rule withTransaction_atomic[OF _ _ r]) (auto simp: in_tx_def split: option.splits)
  then show ?thesis by simp
qed

text \<open>
  Nesting joins: calling \<open>withTransaction\<close> inside a transaction is the same as running
  its work there directly, so a service that calls another one still commits once.
\<close>

theorem withTransaction_nested:
  "withTransaction (\<lambda>w. withTransaction work w) w = withTransaction work w"
  by (auto simp: withTransaction_def Let_def split: option.splits tx_fault.splits)

end
