(* ===== verification/Location.thy ===== *)
theory Location
  imports UnitOfWork
begin

text \<open>
  The location module: \<open>location.repository.ts\<close>, \<open>location.service.ts\<close>,
  \<open>location.adapter.ts\<close> and the interface \<open>common/ports/location.port.ts\<close>. A point is a
  pair of longitude and latitude in range; \<open>ST_MakePoint\<close> of a null coordinate is null.
\<close>

section \<open>Repository\<close>

record new_location =
  nl_division :: string
  nl_district :: string
  nl_upazilaThana :: string
  nl_unionWard :: "string option"
  nl_villageMohalla :: "string option"
  nl_addressLine :: "string option"
  nl_lat :: "number option"
  nl_lng :: "number option"

definition make_point :: "number option \<Rightarrow> number option \<Rightarrow> (number \<times> number) option" where
  "make_point lng lat = (case (lng, lat) of (Some x, Some y) \<Rightarrow> Some (x, y) | _ \<Rightarrow> None)"

definition new_location_row :: "string \<Rightarrow> new_location \<Rightarrow> location_row" where
  "new_location_row i r =
     \<lparr>loc_id = i, loc_division = nl_division r, loc_district = nl_district r,
      loc_upazila_thana = nl_upazilaThana r, loc_union_ward = nl_unionWard r,
      loc_village_mohalla = nl_villageMohalla r, loc_address_line = nl_addressLine r,
      loc_geo = (if nl_lng r = None then None else make_point (nl_lng r) (nl_lat r))\<rparr>"

definition insertLocation :: "new_location \<Rightarrow> string sql" where
  "insertLocation r =
     stmt_bind gen_random_uuid (\<lambda>i.
     stmt_bind (\<lambda>d. unique (i \<notin> loc_id ` set (locations d)) d) (\<lambda>_.
     stmt_bind (write_db (\<lambda>d. d\<lparr>locations := locations d @ [new_location_row i r]\<rparr>)) (\<lambda>_.
       stmt_return i)))"

section \<open>Service\<close>

text \<open>
  An optional property of the request can be missing or an explicit \<open>null\<close>; the coordinates
  are tested for the former and stored with \<open>?? null\<close>, which does not distinguish the two.
\<close>

datatype 'a optional = Undefined | Null | Given 'a

definition nullish :: "'a optional \<Rightarrow> 'a option" where
  "nullish x = (case x of Given a \<Rightarrow> Some a | _ \<Rightarrow> None)"

lemma nullish_simps [simp]: "nullish Undefined = None" "nullish Null = None" "nullish (Given a) = Some a"
  by (simp_all add: nullish_def)

record create_location_command =
  cl_division :: string
  cl_district :: string
  cl_upazilaThana :: string
  cl_unionWard :: "string option"
  cl_villageMohalla :: "string option"
  cl_addressLine :: "string option"
  cl_lat :: "number optional"
  cl_lng :: "number optional"

definition createLocation :: "create_location_command \<Rightarrow> string sql" where
  "createLocation command =
     (if (cl_lat command = Undefined) \<noteq> (cl_lng command = Undefined)
      then stmt_throw (BadRequestException ''error.address.lat_lng_must_be_paired'')
      else insertLocation
        \<lparr>nl_division = cl_division command, nl_district = cl_district command,
         nl_upazilaThana = cl_upazilaThana command, nl_unionWard = cl_unionWard command,
         nl_villageMohalla = cl_villageMohalla command, nl_addressLine = cl_addressLine command,
         nl_lat = nullish (cl_lat command), nl_lng = nullish (cl_lng command)\<rparr>)"

section \<open>Adapter\<close>

record resolved_location = district_ref +
  lo_id :: string
  lo_upazilaThana :: string
  lo_unionWard :: "string option"
  lo_villageMohalla :: "string option"
  lo_addressLine :: "string option"
  lo_hasGeo :: bool
  lo_lat :: "number option"
  lo_lng :: "number option"

definition resolved_of :: "location_row \<Rightarrow> resolved_location" where
  "resolved_of r =
     \<lparr>division = loc_division r, district = loc_district r, lo_id = loc_id r,
      lo_upazilaThana = loc_upazila_thana r, lo_unionWard = loc_union_ward r,
      lo_villageMohalla = loc_village_mohalla r, lo_addressLine = loc_address_line r,
      lo_hasGeo = (loc_geo r \<noteq> None), lo_lat = map_option snd (loc_geo r),
      lo_lng = map_option fst (loc_geo r)\<rparr>"

definition findById :: "string \<Rightarrow> resolved_location sql" where
  "findById i =
     stmt_bind (read_db (\<lambda>d. first_row (filter (\<lambda>r. loc_id r = i) (locations d)))) (\<lambda>row.
       case row of
         None \<Rightarrow> stmt_throw (NotFoundException ''error.address.not_found'')
       | Some r \<Rightarrow> stmt_return (resolved_of r))"

lemma findById_eq:
  "findById i d = (case find (\<lambda>r. loc_id r = i) (locations d) of
     None \<Rightarrow> Inl (NotFoundException ''error.address.not_found'') | Some r \<Rightarrow> Inr (resolved_of r, d))"
  by (simp add: findById_def first_row_filter split: option.splits)

section \<open>The interface\<close>

text \<open>
  What the callers rely on: a lookup changes nothing, answers with the requested id, and the
  coordinates are present exactly when \<open>hasGeo\<close> is set.
\<close>

locale location_port =
  fixes find_location :: "string \<Rightarrow> resolved_location sql"
  assumes reads: "find_location i d = Inr (l, d') \<Longrightarrow> d' = d \<and> lo_id l = i"
    and coordinates: "find_location i d = Inr (l, d') \<Longrightarrow>
      (lo_hasGeo l \<longleftrightarrow> lo_lat l \<noteq> None) \<and> (lo_hasGeo l \<longleftrightarrow> lo_lng l \<noteq> None)"
    and unknown: "find_location i d = Inl e \<Longrightarrow> e = NotFoundException ''error.address.not_found''"
begin

lemma outcome:
  "(\<exists>l. find_location i d = Inr (l, d) \<and> lo_id l = i) \<or>
   find_location i d = Inl (NotFoundException ''error.address.not_found'')"
proof (cases "find_location i d")
  case (Inl e)
  then show ?thesis using unknown by simp
next
  case (Inr p)
  then show ?thesis using reads[of i d "fst p" "snd p"] by (cases p) auto
qed

end

interpretation location: location_port findById
  by unfold_locales
     (auto simp: findById_eq resolved_of_def dest: find_Some_in split: option.splits)

section \<open>Properties\<close>

text \<open>
  A created address reads back as entered: the call succeeds only with both coordinate
  properties or with none, appends one row and nothing else, and looking the new id up returns
  the given fields, with \<open>hasGeo\<close> and both coordinates exactly when both are numbers. A pair of
  which one is an explicit \<open>null\<close> passes the check and loses the other coordinate.
\<close>

theorem createLocation_reads_back:
  assumes "createLocation command d = Inr (i, d')"
  shows "(cl_lat command = Undefined \<longleftrightarrow> cl_lng command = Undefined) \<and>
    (\<exists>row. d' = d\<lparr>uuid_n := Suc (uuid_n d), locations := locations d @ [row]\<rparr>) \<and>
    findById i d' = Inr (\<lparr>division = cl_division command, district = cl_district command, lo_id = i,
       lo_upazilaThana = cl_upazilaThana command, lo_unionWard = cl_unionWard command,
       lo_villageMohalla = cl_villageMohalla command, lo_addressLine = cl_addressLine command,
       lo_hasGeo = (nullish (cl_lat command) \<noteq> None \<and> nullish (cl_lng command) \<noteq> None),
       lo_lat = (if nullish (cl_lng command) = None then None else nullish (cl_lat command)),
       lo_lng = (if nullish (cl_lat command) = None then None else nullish (cl_lng command))\<rparr>, d')"
  using assms
  by (cases "cl_lat command"; cases "cl_lng command")
     (auto simp: createLocation_def insertLocation_def stmt_bind_Inr_iff findById_eq new_location_row_def
       resolved_of_def make_point_def find_append_fresh split: if_splits)

theorem createLocation_reads_back_witness:
  "\<exists>l. findById ''u'' (snd (projr (createLocation \<lparr>cl_division = ''Dhaka'', cl_district = ''Gazipur'',
       cl_upazilaThana = ''Sreepur'', cl_unionWard = None, cl_villageMohalla = None, cl_addressLine = None,
       cl_lat = Given 24, cl_lng = Given 90\<rparr> sample_db))) = l \<and> isl l = False"
proof -
  let ?c = "\<lparr>cl_division = ''Dhaka'', cl_district = ''Gazipur'',
       cl_upazilaThana = ''Sreepur'', cl_unionWard = None, cl_villageMohalla = None, cl_addressLine = None,
       cl_lat = Given 24, cl_lng = Given 90\<rparr> :: create_location_command"
  have "createLocation ?c sample_db = Inr (''u'', snd (projr (createLocation ?c sample_db)))"
    by (simp add: createLocation_def insertLocation_def stmt_bind_def sample_db_def sample_location_def)
  from createLocation_reads_back[OF this] show ?thesis by simp
qed

end
