(* ===== verification/Merchant.thy ===== *)
theory Merchant
  imports UnitOfWork
begin

text \<open>
  \<open>identity/merchant.adapter.ts\<close> behind \<open>common/ports/merchant.port.ts\<close>: the merchant
  facts the order and catalog modules ask for. The four-valued KYC status becomes a boolean
  here, by allowlist. The eligibility test both clients repeat is stated once, over the
  interface.
\<close>

record merchant_summary =
  ms_roleId :: string
  ms_kycVerified :: bool
  ms_isActive :: bool
  ms_pickupLocationId :: "string option"

definition summary_of :: "role_row \<Rightarrow> merchant_summary" where
  "summary_of r =
     \<lparr>ms_roleId = r_id r, ms_kycVerified = (r_kyc_status r = Verified), ms_isActive = r_is_active r,
      ms_pickupLocationId = r_pickup_location_id r\<rparr>"

definition findMerchant :: "string \<Rightarrow> merchant_summary sql" where
  "findMerchant roleId =
     stmt_bind (read_db (\<lambda>d. first_row (filter (\<lambda>r. r_id r = roleId \<and> r_type r = Merchant) (roles d)))) (\<lambda>row.
       case row of
         None \<Rightarrow> stmt_throw (NotFoundException ''error.checkout.merchant_not_found'')
       | Some r \<Rightarrow> stmt_return (summary_of r))"

lemma findMerchant_eq:
  "findMerchant i d = (case find (\<lambda>r. r_id r = i \<and> r_type r = Merchant) (roles d) of
     None \<Rightarrow> Inl (NotFoundException ''error.checkout.merchant_not_found'') | Some r \<Rightarrow> Inr (summary_of r, d))"
  by (simp add: findMerchant_def first_row_filter split: option.splits)

section \<open>The interface\<close>

text \<open>
  \<open>may_transact d i p\<close>: in the database the role \<open>i\<close> is an active merchant with verified
  KYC whose pickup address is \<open>p\<close>. The laws let a client conclude it from the answer.
\<close>

definition may_transact :: "db \<Rightarrow> string \<Rightarrow> string \<Rightarrow> bool" where
  "may_transact d i p \<longleftrightarrow> (\<exists>r\<in>set (roles d). r_id r = i \<and> r_type r = Merchant \<and> r_is_active r \<and>
     r_kyc_status r = Verified \<and> r_pickup_location_id r = Some p)"

locale merchant_port =
  fixes find_merchant :: "string \<Rightarrow> merchant_summary sql"
  assumes reads: "find_merchant i d = Inr (m, d') \<Longrightarrow> d' = d"
    and faithful: "find_merchant i d = Inr (m, d') \<Longrightarrow>
      \<exists>r\<in>set (roles d). r_id r = i \<and> r_type r = Merchant \<and> m = summary_of r"
begin

lemma eligible:
  assumes "find_merchant i d = Inr (m, d')" "ms_isActive m" "ms_kycVerified m" "ms_pickupLocationId m = Some p"
  shows "may_transact d i p"
  using faithful[OF assms(1)] assms(2-4) by (auto simp: may_transact_def summary_of_def)

end

interpretation merchant: merchant_port findMerchant
proof unfold_locales
  fix i d m d'
  assume m: "findMerchant i d = Inr (m, d')"
  then show "d' = d" by (simp add: findMerchant_eq split: option.splits)
  show "\<exists>r\<in>set (roles d). r_id r = i \<and> r_type r = Merchant \<and> m = summary_of r"
    using m by (auto simp: findMerchant_eq split: option.splits dest: find_Some_in)
qed

section \<open>Properties\<close>

text \<open>
  Only the status \<open>verified\<close> reads as verified: the answer is positive for a role exactly
  when the row found for it is a merchant role with that status, and an id that names no
  merchant role is refused.
\<close>

theorem kyc_allowlist:
  "(\<exists>m d'. findMerchant i d = Inr (m, d') \<and> ms_kycVerified m) \<longleftrightarrow>
     (\<exists>r. find (\<lambda>r. r_id r = i \<and> r_type r = Merchant) (roles d) = Some r \<and>
        r_kyc_status r \<notin> {Unverified, Verification_Pending, Verification_Rejected})"
proof -
  have "r_kyc_status r = Verified \<longleftrightarrow> r_kyc_status r \<notin> {Unverified, Verification_Pending, Verification_Rejected}" for r :: role_row
    by (cases "r_kyc_status r") simp_all
  then show ?thesis by (auto simp: findMerchant_eq summary_of_def split: option.splits)
qed

end
