(* ===== verification/Catalog.thy ===== *)
theory Catalog
  imports Location Merchant
begin

text \<open>
  The catalog module: \<open>catalog.repository.ts\<close>, \<open>catalog.adapter.ts\<close> (the cart resolution
  behind \<open>common/ports/catalog.port.ts\<close>) and \<open>catalog.service.ts\<close> (publishing a listing,
  radius search). The two PostGIS functions of the search query are parameters.
\<close>

section \<open>Repository\<close>

record listing_with_category =
  lc_id :: string
  lc_owner_role_id :: string
  lc_price_bdt :: string
  lc_ready_to_ship :: bool
  lc_stock_qty :: "int option"
  lc_is_active :: bool
  lc_category_restricted :: bool
  lc_category_requires_dgda_licence :: bool

definition findCategory :: "string \<Rightarrow> category_row option sql" where
  "findCategory i = read_db (\<lambda>d. first_row (filter (\<lambda>c. c_id c = i) (categories d)))"

record new_listing =
  ng_ownerRoleId :: string
  ng_locationId :: string
  ng_type :: listing_type
  ng_categoryId :: string
  ng_titleBn :: string
  ng_titleEn :: "string option"
  ng_descriptionBn :: "string option"
  ng_descriptionEn :: "string option"
  ng_priceBdt :: string
  ng_readyToShip :: bool
  ng_stockQty :: "number option"
  ng_lat :: "number option"
  ng_lng :: "number option"

definition new_listing_row :: "string \<Rightarrow> int \<Rightarrow> int option \<Rightarrow> new_listing \<Rightarrow> listing_row" where
  "new_listing_row i price stock r =
     \<lparr>l_id = i, l_owner_role_id = ng_ownerRoleId r, l_type = ng_type r, l_category_id = ng_categoryId r,
      l_title_bn = ng_titleBn r, l_title_en = ng_titleEn r, l_description_bn = ng_descriptionBn r,
      l_description_en = ng_descriptionEn r, l_price_bdt = price, l_ready_to_ship = ng_readyToShip r,
      l_stock_qty = stock, l_location_id = ng_locationId r,
      l_geo = (if ng_lng r = None then None else make_point (ng_lng r) (ng_lat r)), l_is_active = True\<rparr>"

definition int4_option_in :: "number option \<Rightarrow> err + int option" where
  "int4_option_in q = (case q of None \<Rightarrow> Inr None | Some x \<Rightarrow> map_sum id Some (int4_in x))"

definition insertListing :: "new_listing \<Rightarrow> string sql" where
  "insertListing r =
     stmt_bind (stmt_lift (numeric_in (ng_priceBdt r))) (\<lambda>price.
     stmt_bind (stmt_lift (int4_option_in (ng_stockQty r))) (\<lambda>stock.
     stmt_bind gen_random_uuid (\<lambda>i.
     stmt_bind (check (0 \<le> price)) (\<lambda>_.
     stmt_bind (\<lambda>d. unique (i \<notin> l_id ` set (listings d)) d) (\<lambda>_.
     stmt_bind (\<lambda>d. foreign_key (ng_ownerRoleId r \<in> r_id ` set (roles d)) d) (\<lambda>_.
     stmt_bind (\<lambda>d. foreign_key (ng_categoryId r \<in> c_id ` set (categories d)) d) (\<lambda>_.
     stmt_bind (\<lambda>d. foreign_key (ng_locationId r \<in> loc_id ` set (locations d)) d) (\<lambda>_.
     stmt_bind (write_db (\<lambda>d. d\<lparr>listings := listings d @ [new_listing_row i price stock r]\<rparr>)) (\<lambda>_.
       stmt_return i)))))))))"

type_synonym point = "number \<times> number"

record nearby_listing_row =
  ny_id :: string
  ny_title_bn :: string
  ny_title_en :: "string option"
  ny_price_bdt :: string
  ny_ready_to_ship :: bool
  ny_type :: listing_type
  ny_distance_m :: number

definition searchNearby_rows ::
  "(point \<Rightarrow> point \<Rightarrow> number) \<Rightarrow> (point \<Rightarrow> point \<Rightarrow> number \<Rightarrow> bool) \<Rightarrow>
   number \<Rightarrow> number \<Rightarrow> number \<Rightarrow> nat \<Rightarrow> nearby_listing_row list sql" where
  "searchNearby_rows ST_Distance ST_DWithin lat lng radiusMeters limit =
     read_db (\<lambda>d. take limit (sort_key ny_distance_m
       (List.map_filter (\<lambda>l.
          case l_geo l of
            None \<Rightarrow> None
          | Some g \<Rightarrow>
              if l_is_active l \<and> ST_DWithin g (lng, lat) radiusMeters
              then Some \<lparr>ny_id = l_id l, ny_title_bn = l_title_bn l, ny_title_en = l_title_en l,
                     ny_price_bdt = numeric_out (l_price_bdt l), ny_ready_to_ship = l_ready_to_ship l,
                     ny_type = l_type l, ny_distance_m = ST_Distance g (lng, lat)\<rparr>
              else None) (listings d))))"

definition joined :: "listing_row \<Rightarrow> category_row \<Rightarrow> listing_with_category" where
  "joined l c =
     \<lparr>lc_id = l_id l, lc_owner_role_id = l_owner_role_id l, lc_price_bdt = numeric_out (l_price_bdt l),
      lc_ready_to_ship = l_ready_to_ship l, lc_stock_qty = l_stock_qty l, lc_is_active = l_is_active l,
      lc_category_restricted = c_is_restricted c,
      lc_category_requires_dgda_licence = c_requires_dgda_licence c\<rparr>"

definition findByIds :: "string list \<Rightarrow> listing_with_category list sql" where
  "findByIds ids =
     (if ids = [] then stmt_return []
      else read_db (\<lambda>d. concat (map (\<lambda>l. map (joined l) (filter (\<lambda>c. c_id c = l_category_id l) (categories d)))
             (filter (\<lambda>l. l_id l \<in> set ids) (listings d)))))"

section \<open>Adapter\<close>

record requested_cart_line =
  rl_listingId :: string
  rl_quantity :: number

record resolved_cart_line =
  rs_listingId :: string
  rs_quantity :: number
  rs_unitPrice :: poisha
  rs_readyToShip :: bool
  rs_merchantRoleId :: string
  rs_categoryRestricted :: bool
  rs_categoryRequiresDgdaLicence :: bool
  rs_stockQty :: "int option"
  rs_isActive :: bool

text \<open>\<open>new Map(rows.map(row => [row.id, row]))\<close> keeps the last row of an id.\<close>

definition resolve_line :: "listing_with_category list \<Rightarrow> requested_cart_line \<Rightarrow> err + resolved_cart_line" where
  "resolve_line rows line =
     (case map_of (rev (map (\<lambda>row. (lc_id row, row)) rows)) (rl_listingId line) of
        None \<Rightarrow> Inl (NotFoundException ''error.checkout.listing_not_found'')
      | Some row \<Rightarrow>
          sum_bind (takaToPoisha (lc_price_bdt row)) (\<lambda>price.
            Inr \<lparr>rs_listingId = lc_id row, rs_quantity = rl_quantity line, rs_unitPrice = price,
                 rs_readyToShip = lc_ready_to_ship row, rs_merchantRoleId = lc_owner_role_id row,
                 rs_categoryRestricted = lc_category_restricted row,
                 rs_categoryRequiresDgdaLicence = lc_category_requires_dgda_licence row,
                 rs_stockQty = lc_stock_qty row, rs_isActive = lc_is_active row\<rparr>))"

definition resolveCartLines :: "requested_cart_line list \<Rightarrow> resolved_cart_line list sql" where
  "resolveCartLines lines =
     stmt_bind (findByIds (map rl_listingId lines)) (\<lambda>rows.
       stmt_lift (map_throwing (resolve_line rows) lines))"


section \<open>The interface of the cart resolution\<close>

text \<open>
  \<open>resolved_from d r l\<close>: the resolved line \<open>r\<close> carries the stored facts of the listing
  \<open>l\<close> and of its category. The port promises one resolved line per requested line, in the
  same order and with its quantity, each carrying the stored facts of the listing it names.
\<close>

definition resolved_from :: "db \<Rightarrow> resolved_cart_line \<Rightarrow> listing_row \<Rightarrow> bool" where
  "resolved_from d r l \<longleftrightarrow> l \<in> set (listings d) \<and> l_id l = rs_listingId r \<and>
     takaToPoisha (numeric_out (l_price_bdt l)) = Inr (rs_unitPrice r) \<and>
     rs_readyToShip r = l_ready_to_ship l \<and> rs_merchantRoleId r = l_owner_role_id l \<and>
     rs_stockQty r = l_stock_qty l \<and> rs_isActive r = l_is_active l \<and>
     (\<exists>c\<in>set (categories d). c_id c = l_category_id l \<and> rs_categoryRestricted r = c_is_restricted c \<and>
        rs_categoryRequiresDgdaLicence r = c_requires_dgda_licence c)"

definition same_line :: "requested_cart_line \<Rightarrow> resolved_cart_line \<Rightarrow> bool" where
  "same_line l r \<longleftrightarrow> rs_listingId r = rl_listingId l \<and> rs_quantity r = rl_quantity l"

locale catalog_port =
  fixes resolve :: "requested_cart_line list \<Rightarrow> resolved_cart_line list sql"
  assumes reads: "resolve ls d = Inr (rs, d') \<Longrightarrow> d' = d"
    and aligned: "resolve ls d = Inr (rs, d') \<Longrightarrow> list_all2 same_line ls rs"
    and faithful: "resolve ls d = Inr (rs, d') \<Longrightarrow> r \<in> set rs \<Longrightarrow> \<exists>l. resolved_from d r l"
begin

lemma same_length: "resolve ls d = Inr (rs, d') \<Longrightarrow> length rs = length ls"
  by (drule aligned) (simp add: list_all2_lengthD)

lemma ids_known:
  assumes "resolve ls d = Inr (rs, d')"
  shows "rl_listingId ` set ls \<subseteq> l_id ` set (listings d)"
proof
  fix i assume "i \<in> rl_listingId ` set ls"
  then obtain k where k: "k < length ls" "i = rl_listingId (ls ! k)" by (auto simp: in_set_conv_nth)
  have "same_line (ls ! k) (rs ! k)" using aligned[OF assms] k(1) by (simp add: list_all2_nthD)
  moreover have "rs ! k \<in> set rs" using same_length[OF assms] k(1) by simp
  moreover obtain l where "l \<in> set (listings d)" "l_id l = rs_listingId (rs ! k)"
    using faithful[OF assms calculation(2)] unfolding resolved_from_def by blast
  ultimately show "i \<in> l_id ` set (listings d)"
    using k(2) by (metis imageI same_line_def)
qed

lemma quantities: "resolve ls d = Inr (rs, d') \<Longrightarrow> map rs_quantity rs = map rl_quantity ls"
  by (drule aligned) (auto simp: list_all2_conv_all_nth same_line_def intro!: nth_equalityI)

end

lemma findByIds_Inr:
  assumes "findByIds ids d = Inr (rows, d')" "row \<in> set rows"
  shows "\<exists>l\<in>set (listings d). \<exists>c\<in>set (categories d). c_id c = l_category_id l \<and> row = joined l c"
  using assms by (fastforce simp: findByIds_def split: if_splits)

lemma findByIds_reads: "findByIds ids d = Inr (rows, d') \<Longrightarrow> d' = d"
  by (simp add: findByIds_def split: if_splits)

lemma resolve_line_Inr:
  assumes "resolve_line rows line = Inr r"
  shows "same_line line r \<and> (\<exists>row\<in>set rows. lc_id row = rs_listingId r \<and>
    takaToPoisha (lc_price_bdt row) = Inr (rs_unitPrice r) \<and> rs_readyToShip r = lc_ready_to_ship row \<and>
    rs_merchantRoleId r = lc_owner_role_id row \<and> rs_categoryRestricted r = lc_category_restricted row \<and>
    rs_categoryRequiresDgdaLicence r = lc_category_requires_dgda_licence row \<and>
    rs_stockQty r = lc_stock_qty row \<and> rs_isActive r = lc_is_active row)"
proof -
  obtain row where row: "map_of (rev (map (\<lambda>row. (lc_id row, row)) rows)) (rl_listingId line) = Some row"
    using assms by (cases "map_of (rev (map (\<lambda>row. (lc_id row, row)) rows)) (rl_listingId line)")
      (simp_all add: resolve_line_def)
  have "row \<in> set rows \<and> lc_id row = rl_listingId line" using map_of_SomeD[OF row] by auto
  then show ?thesis
    using assms row by (auto simp: resolve_line_def same_line_def sum_bind_Inr_iff)
qed

lemma resolveCartLines_Inr:
  "resolveCartLines ls d = Inr (rs, d') \<longleftrightarrow>
     d' = d \<and> (\<exists>rows. findByIds (map rl_listingId ls) d = Inr (rows, d) \<and>
       list_all2 (\<lambda>l r. resolve_line rows l = Inr r) ls rs)"
  by (auto simp: resolveCartLines_def stmt_bind_Inr_iff stmt_lift_Inr_iff map_throwing_Inr_iff
      dest: findByIds_reads)

interpretation catalog: catalog_port resolveCartLines
proof unfold_locales
  fix ls rs d d' r
  assume r: "resolveCartLines ls d = Inr (rs, d')"
  then obtain rows where rows: "findByIds (map rl_listingId ls) d = Inr (rows, d)"
    and lines: "list_all2 (\<lambda>l r. resolve_line rows l = Inr r) ls rs" and "d' = d"
    by (auto simp: resolveCartLines_Inr)
  then show "d' = d" by simp
  show "list_all2 same_line ls rs"
    using lines by (rule list_all2_mono) (simp add: resolve_line_Inr)
  assume "r \<in> set rs"
  then obtain l where "resolve_line rows l = Inr r"
    using lines by (auto simp: list_all2_conv_all_nth in_set_conv_nth)
  from resolve_line_Inr[OF this] obtain row where row: "row \<in> set rows" "lc_id row = rs_listingId r"
    "takaToPoisha (lc_price_bdt row) = Inr (rs_unitPrice r)" "rs_readyToShip r = lc_ready_to_ship row"
    "rs_merchantRoleId r = lc_owner_role_id row" "rs_categoryRestricted r = lc_category_restricted row"
    "rs_categoryRequiresDgdaLicence r = lc_category_requires_dgda_licence row"
    "rs_stockQty r = lc_stock_qty row" "rs_isActive r = lc_is_active row" by blast
  from findByIds_Inr[OF rows row(1)] obtain l c where "l \<in> set (listings d)" "c \<in> set (categories d)"
    "c_id c = l_category_id l" "row = joined l c" by blast
  then have "resolved_from d r l" using row(2-) unfolding resolved_from_def joined_def
    by (intro conjI bexI[of _ c]) simp_all
  then show "\<exists>l. resolved_from d r l" by blast
qed

section \<open>Service\<close>

definition MIN_RADIUS_KM :: number where "MIN_RADIUS_KM = 1"

definition MAX_RADIUS_KM :: number where "MAX_RADIUS_KM = 10"

definition MAX_SEARCH_RESULTS :: nat where "MAX_SEARCH_RESULTS = 50"

record create_listing_command =
  cg_ownerRoleId :: "string option"
  cg_type :: listing_type
  cg_categoryId :: string
  cg_titleBn :: string
  cg_titleEn :: "string option"
  cg_descriptionBn :: "string option"
  cg_descriptionEn :: "string option"
  cg_priceBdtPoisha :: poisha
  cg_readyToShip :: bool
  cg_stockQty :: "number option"

text \<open>An empty string is as absent as \<open>null\<close> for \<open>!x\<close>.\<close>

definition truthy_string :: "string option \<Rightarrow> bool" where
  "truthy_string s \<longleftrightarrow> (case s of None \<Rightarrow> False | Some t \<Rightarrow> t \<noteq> [])"

definition listing_record :: "create_listing_command \<Rightarrow> string \<Rightarrow> string \<Rightarrow> string \<Rightarrow> resolved_location \<Rightarrow> new_listing" where
  "listing_record command role p price pickup =
     \<lparr>ng_ownerRoleId = role, ng_locationId = p, ng_type = cg_type command,
      ng_categoryId = cg_categoryId command, ng_titleBn = cg_titleBn command, ng_titleEn = cg_titleEn command,
      ng_descriptionBn = cg_descriptionBn command, ng_descriptionEn = cg_descriptionEn command,
      ng_priceBdt = price, ng_readyToShip = cg_readyToShip command,
      ng_stockQty = (if cg_type command = Service_Slot then None else cg_stockQty command),
      ng_lat = lo_lat pickup, ng_lng = lo_lng pickup\<rparr>"

lemma truthy_string_simps [simp]:
  "\<not> truthy_string None"
  "truthy_string (Some t) \<longleftrightarrow> t \<noteq> []"
  by (simp_all add: truthy_string_def)

text \<open>Steps 2 to 4 of \<open>createListing\<close>, for an eligible merchant with pickup address \<open>p\<close>.\<close>

definition publishListing :: "create_listing_command \<Rightarrow> string \<Rightarrow> string \<Rightarrow> ('z world_scheme, string) act" where
  "publishListing command role p =
     act_bind (on_pool (findCategory (cg_categoryId command))) (\<lambda>c.
     case c of
       None \<Rightarrow> act_throw (BadRequestException ''error.catalog.category_not_found'')
     | Some category \<Rightarrow>
         if c_is_restricted category
         then act_throw (BadRequestException ''error.catalog.category_prohibited'')
         else if c_requires_dgda_licence category
         then act_throw (BadRequestException ''error.catalog.category_requires_licence'')
         else
           act_bind (on_pool (findById p)) (\<lambda>pickup.
           act_bind (act_lift (poishaToTaka (cg_priceBdtPoisha command))) (\<lambda>price.
             on_pool (insertListing (listing_record command role p price pickup)))))"

definition createListing :: "create_listing_command \<Rightarrow> ('z world_scheme, string) act" where
  "createListing command =
     (if \<not> truthy_string (cg_ownerRoleId command)
      then act_throw (BadRequestException ''error.catalog.no_active_role'')
      else
        let role = the (cg_ownerRoleId command) in
        act_bind (on_pool (findMerchant role)) (\<lambda>m.
          if \<not> ms_isActive m then act_throw (BadRequestException ''error.catalog.merchant_unavailable'')
          else if \<not> ms_kycVerified m then act_throw (ForbiddenException ''error.catalog.merchant_not_verified'')
          else if \<not> truthy_string (ms_pickupLocationId m)
          then act_throw (BadRequestException ''error.catalog.merchant_no_pickup_address'')
          else publishListing command role (the (ms_pickupLocationId m))))"

record nearby_listing =
  nb_listingId :: string
  nb_titleBn :: string
  nb_titleEn :: "string option"
  nb_priceBdtPoisha :: poisha
  nb_readyToShip :: bool
  nb_type :: listing_type
  nb_distanceMeters :: number

definition nearby_of :: "nearby_listing_row \<Rightarrow> err + nearby_listing" where
  "nearby_of row =
     sum_bind (takaToPoisha (ny_price_bdt row)) (\<lambda>p.
       Inr \<lparr>nb_listingId = ny_id row, nb_titleBn = ny_title_bn row, nb_titleEn = ny_title_en row,
            nb_priceBdtPoisha = p, nb_readyToShip = ny_ready_to_ship row, nb_type = ny_type row,
            nb_distanceMeters = ny_distance_m row\<rparr>)"

definition searchNearby ::
  "(point \<Rightarrow> point \<Rightarrow> number) \<Rightarrow> (point \<Rightarrow> point \<Rightarrow> number \<Rightarrow> bool) \<Rightarrow>
   number \<Rightarrow> number \<Rightarrow> number \<Rightarrow> nearby_listing list sql" where
  "searchNearby ST_Distance ST_DWithin lat lng radiusKm =
     (if radiusKm < MIN_RADIUS_KM \<or> radiusKm > MAX_RADIUS_KM
      then stmt_throw (BadRequestException ''error.catalog.radius_out_of_range'')
      else
        stmt_bind (searchNearby_rows ST_Distance ST_DWithin lat lng (fl (radiusKm * 1000)) MAX_SEARCH_RESULTS) (\<lambda>rows.
          stmt_lift (map_throwing nearby_of rows)))"


section \<open>Properties\<close>

text \<open>
  The cart resolution answers line by line: on success there is one resolved line per
  requested line, in the same order and with the requested quantity, and each carries the
  stored price, flags, owner and stock of the listing it names; the database is unchanged. No
  line is dropped: one unknown listing id makes the whole call fail.
\<close>

theorem cart_resolution_faithful:
  assumes "resolveCartLines ls d = Inr (rs, d')"
  shows "d' = d \<and> list_all2 same_line ls rs \<and> (\<forall>r\<in>set rs. \<exists>l. resolved_from d r l) \<and>
    rl_listingId ` set ls \<subseteq> l_id ` set (listings d)"
  using catalog.reads[OF assms] catalog.aligned[OF assms] catalog.faithful[OF assms]
    catalog.ids_known[OF assms] by blast

definition sample_lines :: "requested_cart_line list" where
  "sample_lines = [\<lparr>rl_listingId = ''tea'', rl_quantity = 2\<rparr>, \<lparr>rl_listingId = ''rice'', rl_quantity = 1\<rparr>]"

definition sample_resolved :: "resolved_cart_line list" where
  "sample_resolved =
     [\<lparr>rs_listingId = ''tea'', rs_quantity = 2, rs_unitPrice = 1000, rs_readyToShip = True,
       rs_merchantRoleId = ''shop'', rs_categoryRestricted = False, rs_categoryRequiresDgdaLicence = False,
       rs_stockQty = Some 9, rs_isActive = True\<rparr>,
      \<lparr>rs_listingId = ''rice'', rs_quantity = 1, rs_unitPrice = 42005, rs_readyToShip = False,
       rs_merchantRoleId = ''shop'', rs_categoryRestricted = False, rs_categoryRequiresDgdaLicence = False,
       rs_stockQty = Some 9, rs_isActive = True\<rparr>]"

lemma sample_resolution: "resolveCartLines sample_lines sample_db = Inr (sample_resolved, sample_db)"
proof -
  have "takaToPoisha (numeric_out 1000) = Inr 1000" "takaToPoisha (numeric_out 42005) = Inr 42005"
    using takaToPoisha_money_text[of 1000] takaToPoisha_money_text[of 42005]
    by (simp_all add: numeric_out_def)
  then show ?thesis
    by (simp add: resolveCartLines_def sample_lines_def sample_resolved_def findByIds_def resolve_line_def
        joined_def sample_db_def sample_listing_def stmt_bind_def)
qed

theorem cart_resolution_faithful_witness:
  "list_all2 same_line sample_lines sample_resolved \<and> (\<exists>l. resolved_from sample_db (hd sample_resolved) l)"
  using cart_resolution_faithful[OF sample_resolution] by (simp add: sample_resolved_def)

text \<open>The reads of the service leave the pool at the current time.\<close>

lemma pool_reads:
  "on_pool (findMerchant r) w = (Inr m, w1) \<longleftrightarrow> findMerchant r (started w) = Inr (m, started w) \<and> w1 = at_now w"
  "on_pool (findCategory i) w = (Inr c, w1) \<longleftrightarrow> find (\<lambda>c. c_id c = i) (categories (committed w)) = c \<and> w1 = at_now w"
  "on_pool (findById i) w = (Inr pl, w1) \<longleftrightarrow> findById i (started w) = Inr (pl, started w) \<and> w1 = at_now w"
  "on_pool (resolveCartLines ls) w = (Inr rs, w1) \<longleftrightarrow>
     resolveCartLines ls (started w) = Inr (rs, started w) \<and> w1 = at_now w"
  by (auto simp: on_pool_Inr_iff at_now_def findCategory_def first_row_filter started_def
      dest: merchant.reads location.reads catalog.reads)

lemma createListing_Inr:
  assumes "createListing command w = (Inr i, w')"
  obtains role m c p pickup price d' where "cg_ownerRoleId command = Some role"
    "findMerchant role (started w) = Inr (m, started w)" "ms_isActive m" "ms_kycVerified m"
    "ms_pickupLocationId m = Some p" "find (\<lambda>c. c_id c = cg_categoryId command) (categories (committed w)) = Some c"
    "\<not> c_is_restricted c" "\<not> c_requires_dgda_licence c" "findById p (started w) = Inr (pickup, started w)"
    "poishaToTaka (cg_priceBdtPoisha command) = Inr price"
    "insertListing (listing_record command role p price pickup) (started w) = Inr (i, d')"
    "committed w' = d'"
proof -
  obtain role where role: "cg_ownerRoleId command = Some role" "truthy_string (cg_ownerRoleId command)"
    using assms by (cases "cg_ownerRoleId command") (auto simp: createListing_def truthy_string_def split: if_splits)
  obtain m where m: "findMerchant role (started w) = Inr (m, started w)" "ms_isActive m" "ms_kycVerified m"
      "truthy_string (ms_pickupLocationId m)"
    and r1: "publishListing command role (the (ms_pickupLocationId m)) (at_now w) = (Inr i, w')"
    using assms role by (auto simp: createListing_def act_bind_Inr_iff pool_reads split: if_splits)
  obtain p where p: "ms_pickupLocationId m = Some p"
    using m(4) by (auto simp: truthy_string_def split: option.splits)
  obtain c where c: "find (\<lambda>c. c_id c = cg_categoryId command) (categories (committed w)) = Some c"
      "\<not> c_is_restricted c" "\<not> c_requires_dgda_licence c"
    and r2: "act_bind (on_pool (findById p)) (\<lambda>pickup.
           act_bind (act_lift (poishaToTaka (cg_priceBdtPoisha command))) (\<lambda>price.
             on_pool (insertListing (listing_record command role p price pickup)))) (at_now w) = (Inr i, w')"
    using r1 p unfolding publishListing_def act_bind_Inr_iff[of "on_pool (findCategory _)"] pool_reads
    by (auto simp: started_def split: option.splits if_splits)
  then obtain pickup price where l: "findById p (started w) = Inr (pickup, started w)"
    "poishaToTaka (cg_priceBdtPoisha command) = Inr price"
    and ins: "on_pool (insertListing (listing_record command role p price pickup)) (at_now w) = (Inr i, w')"
    by (auto simp: act_bind_Inr_iff pool_reads act_lift_iff)
  then obtain d' where "insertListing (listing_record command role p price pickup) (started w) = Inr (i, d')"
    "committed w' = d'"
    by (auto simp: on_pool_Inr_iff)
  then show thesis by (rule that[OF role(1) m(1,2,3) p c l])
qed

lemma insertListing_Inr:
  assumes "insertListing r d = Inr (i, d')"
  obtains price stock where "numeric_in (ng_priceBdt r) = Inr price" "0 \<le> price"
    "int4_option_in (ng_stockQty r) = Inr stock" "i = uuids d (uuid_n d)" "i \<notin> l_id ` set (listings d)"
    "ng_ownerRoleId r \<in> r_id ` set (roles d)" "ng_categoryId r \<in> c_id ` set (categories d)"
    "ng_locationId r \<in> loc_id ` set (locations d)"
    "d' = d\<lparr>uuid_n := Suc (uuid_n d), listings := listings d @ [new_listing_row i price stock r]\<rparr>"
  using assms by (auto simp: insertListing_def stmt_bind_Inr_iff stmt_lift_Inr_iff split: if_splits)

lemma int4_option_in_Inr: "int4_option_in q = Inr stock \<Longrightarrow> map_option of_int stock = q"
  by (cases q) (auto simp: int4_option_in_def map_sum_def dest!: int4_in_Inr split: sum.splits)

text \<open>
  C33. What publishing a listing guarantees: when it succeeds the caller acts as an active
  merchant role with verified KYC and a pickup address, the category exists and is neither
  prohibited nor licence-bound, and exactly one row was added: active, owned by that role, located
  at the pickup address with exactly the coordinates stored for that address (longitude first, or
  none if it has none), with the given texts, at exactly the given price, with the given stock
  count, or none for a service slot.
\<close>

theorem createListing_gate:
  assumes "createListing command w = (Inr i, w')"
  shows "\<exists>role pickup c place row. cg_ownerRoleId command = Some role \<and> may_transact (committed w) role pickup \<and>
     c \<in> set (categories (committed w)) \<and> c_id c = cg_categoryId command \<and>
     \<not> c_is_restricted c \<and> \<not> c_requires_dgda_licence c \<and>
     listings (committed w') = listings (committed w) @ [row] \<and> l_id row = i \<and>
     l_owner_role_id row = role \<and> l_location_id row = pickup \<and> l_category_id row = cg_categoryId command \<and>
     of_int (l_price_bdt row) = cg_priceBdtPoisha command \<and> 0 \<le> l_price_bdt row \<and>
     l_type row = cg_type command \<and> l_ready_to_ship row = cg_readyToShip command \<and>
     place \<in> set (locations (committed w)) \<and> loc_id place = pickup \<and> l_geo row = loc_geo place \<and> l_is_active row \<and>
     l_title_bn row = cg_titleBn command \<and> l_title_en row = cg_titleEn command \<and>
     l_description_bn row = cg_descriptionBn command \<and> l_description_en row = cg_descriptionEn command \<and>
     map_option of_int (l_stock_qty row) = (if cg_type command = Service_Slot then None else cg_stockQty command)"
proof -
  obtain role m c p pickup price d' where role: "cg_ownerRoleId command = Some role"
    and m: "findMerchant role (started w) = Inr (m, started w)" "ms_isActive m" "ms_kycVerified m"
      "ms_pickupLocationId m = Some p"
    and c: "find (\<lambda>c. c_id c = cg_categoryId command) (categories (committed w)) = Some c"
      "\<not> c_is_restricted c" "\<not> c_requires_dgda_licence c"
    and l: "findById p (started w) = Inr (pickup, started w)"
    and price: "poishaToTaka (cg_priceBdtPoisha command) = Inr price"
    and ins: "insertListing (listing_record command role p price pickup) (started w) = Inr (i, d')"
    and d': "committed w' = d'"
    using assms by (rule createListing_Inr)
  have may: "may_transact (committed w) role p"
    using merchant.eligible[OF m(1,2,3,4)] by (simp add: may_transact_def started_def)
  obtain n stock where row: "numeric_in price = Inr n" "0 \<le> n"
    "int4_option_in (ng_stockQty (listing_record command role p price pickup)) = Inr stock"
    "listings d' = listings (committed w) @ [new_listing_row i n stock (listing_record command role p price pickup)]"
    using ins by (rule insertListing_Inr) (auto simp: listing_record_def started_def)
  have "cg_priceBdtPoisha command = of_int n" using poishaToTaka_numeric[OF price, of n] row(1) by simp
  moreover have "map_option of_int stock = (if cg_type command = Service_Slot then None else cg_stockQty command)"
    using row(3) by (auto simp: listing_record_def int4_option_in_Inr)
  moreover obtain place where place: "place \<in> set (locations (committed w))" "loc_id place = p" "pickup = resolved_of place"
    using l by (auto simp: findById_eq started_def split: option.splits dest: find_Some_in)
  moreover have "l_geo (new_listing_row i n stock (listing_record command role p price pickup)) = loc_geo place"
    using place(3) by (cases "loc_geo place") (simp_all add: new_listing_row_def listing_record_def resolved_of_def make_point_def)
  ultimately show ?thesis
    using role may c find_Some_in[OF c(1)] row(2,4) d'
    by - (rule exI[of _ role], rule exI[of _ p], rule exI[of _ c], rule exI[of _ place],
        rule exI[of _ "new_listing_row i n stock (listing_record command role p price pickup)"],
        simp add: new_listing_row_def listing_record_def)
qed


definition sample_listing_command :: create_listing_command where
  "sample_listing_command =
     \<lparr>cg_ownerRoleId = Some ''shop'', cg_type = Service_Slot, cg_categoryId = ''food'', cg_titleBn = ''cha'',
      cg_titleEn = None, cg_descriptionBn = None, cg_descriptionEn = None, cg_priceBdtPoisha = 5000,
      cg_readyToShip = True, cg_stockQty = Some 0\<rparr>"

lemma sample_listing_command_simps:
  "cg_ownerRoleId sample_listing_command = Some ''shop''" "cg_categoryId sample_listing_command = ''food''"
  "cg_priceBdtPoisha sample_listing_command = 5000" "cg_type sample_listing_command = Service_Slot"
  by (simp_all add: sample_listing_command_def)

lemma sample_publication: "\<exists>w'. createListing sample_listing_command sample_world = (Inr ''u'', w')"
proof -
  have m: "on_pool (findMerchant ''shop'') sample_world =
      (Inr \<lparr>ms_roleId = ''shop'', ms_kycVerified = True, ms_isActive = True, ms_pickupLocationId = Some ''pickup''\<rparr>,
       sample_world)"
    by (simp add: pool_reads(1) findMerchant_eq) (simp add: sample_db_def summary_of_def)
  have c: "on_pool (findCategory ''food'') sample_world =
      (Inr (Some \<lparr>c_id = ''food'', c_is_restricted = False, c_requires_dgda_licence = False\<rparr>), sample_world)"
    by (simp add: pool_reads(2)) (simp add: sample_db_def)
  have l: "on_pool (findById ''pickup'') sample_world = (Inr (resolved_of (sample_location ''pickup'' ''Dhaka'' ''Dhaka'')), sample_world)"
    by (simp add: pool_reads(3) findById_eq) (simp add: sample_db_def sample_location_def)
  have "poishaToTaka 5000 = Inr (money_text 5000)" "numeric_in (money_text 5000) = Inr 5000"
    using poishaToTaka_of_int[of 5000] by (simp_all add: numeric_in_money_text)
  then have "\<exists>w'. on_pool (insertListing (listing_record sample_listing_command ''shop'' ''pickup'' (money_text 5000)
        (resolved_of (sample_location ''pickup'' ''Dhaka'' ''Dhaka'')))) sample_world = (Inr ''u'', w')"
    by (simp add: on_pool_def insertListing_def stmt_bind_def int4_option_in_def listing_record_def
        sample_listing_command_def) (simp add: sample_db_def sample_listing_def sample_location_def)
  then show ?thesis
    using m c l \<open>poishaToTaka 5000 = _\<close>
    by (simp add: createListing_def publishListing_def sample_listing_command_simps Let_def)
qed

theorem createListing_gate_witness:
  "\<exists>w' row. createListing sample_listing_command sample_world = (Inr ''u'', w') \<and>
     listings (committed w') = listings sample_db @ [row] \<and> l_stock_qty row = None"
proof -
  obtain w' where w': "createListing sample_listing_command sample_world = (Inr ''u'', w')"
    using sample_publication by blast
  have "cg_type sample_listing_command = Service_Slot" by (simp add: sample_listing_command_def)
  then show ?thesis
    using createListing_gate[OF w'] w' by auto
qed

text \<open>
  Radius search answers only inside its contract: a radius outside 1 to 10 km is refused;
  otherwise at most fifty active listings with coordinates within the radius come back, nearest
  first, and nothing is written.
\<close>

theorem searchNearby_contract:
  assumes "searchNearby ST_Distance ST_DWithin lat lng km d = Inr (rs, d')"
  shows "1 \<le> km \<and> km \<le> 10 \<and> d' = d \<and> length rs \<le> 50 \<and> sorted (map nb_distanceMeters rs) \<and>
    (\<forall>r\<in>set rs. \<exists>l\<in>set (listings d). \<exists>g. l_id l = nb_listingId r \<and> l_is_active l \<and> l_geo l = Some g \<and>
       ST_DWithin g (lng, lat) (fl (km * 1000)) \<and> nb_distanceMeters r = ST_Distance g (lng, lat))"
proof -
  have km: "1 \<le> km \<and> km \<le> 10"
    using assms by (auto simp: searchNearby_def MIN_RADIUS_KM_def MAX_RADIUS_KM_def split: if_splits)
  obtain rows where rows: "searchNearby_rows ST_Distance ST_DWithin lat lng (fl (km * 1000)) 50 d = Inr (rows, d)"
    and rs: "list_all2 (\<lambda>row r. nearby_of row = Inr r) rows rs" and d': "d' = d"
    using assms km
    by (auto simp: searchNearby_def stmt_bind_Inr_iff stmt_lift_Inr_iff map_throwing_Inr_iff MIN_RADIUS_KM_def
        MAX_RADIUS_KM_def MAX_SEARCH_RESULTS_def searchNearby_rows_def)
  have dist: "map nb_distanceMeters rs = map ny_distance_m rows"
    using rs by (induction rule: list_all2_induct) (auto simp: nearby_of_def sum_bind_Inr_iff)
  have "length rows \<le> 50" "sorted (map ny_distance_m rows)"
    using rows by (auto simp: searchNearby_rows_def take_map[symmetric] intro: sorted_wrt_take)
  then have shape: "length rs \<le> 50" "sorted (map nb_distanceMeters rs)"
    using dist list_all2_lengthD[OF rs] by simp_all
  have "\<exists>l\<in>set (listings d). \<exists>g. l_id l = nb_listingId r \<and> l_is_active l \<and> l_geo l = Some g \<and>
       ST_DWithin g (lng, lat) (fl (km * 1000)) \<and> nb_distanceMeters r = ST_Distance g (lng, lat)"
    if r: "r \<in> set rs" for r
  proof -
    obtain row where "row \<in> set rows" "nearby_of row = Inr r"
      using list_all2_in2[OF rs r] by blast
    then have "row \<in> set (List.map_filter (\<lambda>l. case l_geo l of None \<Rightarrow> None
          | Some g \<Rightarrow> if l_is_active l \<and> ST_DWithin g (lng, lat) (fl (km * 1000))
              then Some \<lparr>ny_id = l_id l, ny_title_bn = l_title_bn l, ny_title_en = l_title_en l,
                     ny_price_bdt = numeric_out (l_price_bdt l), ny_ready_to_ship = l_ready_to_ship l,
                     ny_type = l_type l, ny_distance_m = ST_Distance g (lng, lat)\<rparr> else None) (listings d))"
      and "nb_listingId r = ny_id row" "nb_distanceMeters r = ny_distance_m row"
      using rows by (auto simp: searchNearby_rows_def nearby_of_def sum_bind_Inr_iff dest: in_set_takeD)
    then show ?thesis by (fastforce simp: List.map_filter_def split: option.splits if_splits)
  qed
  then show ?thesis using km d' shape by blast
qed

theorem searchNearby_contract_witness:
  "\<exists>rs. searchNearby (\<lambda>a b. \<bar>fst a - fst b\<bar>) (\<lambda>a b r. \<bar>fst a - fst b\<bar> \<le> r) 24 90 2
       (sample_db\<lparr>listings := [(sample_listing ''tea'' 1000 True)\<lparr>l_geo := Some (91, 24)\<rparr>]\<rparr>) =
     Inr (rs, sample_db\<lparr>listings := [(sample_listing ''tea'' 1000 True)\<lparr>l_geo := Some (91, 24)\<rparr>]\<rparr>) \<and>
     length rs = 1 \<and> length rs \<le> 50"
proof -
  let ?d = "sample_db\<lparr>listings := [(sample_listing ''tea'' 1000 True)\<lparr>l_geo := Some (91, 24)\<rparr>]\<rparr>"
  let ?rs = "[\<lparr>nb_listingId = ''tea'', nb_titleBn = ''bhat'', nb_titleEn = None, nb_priceBdtPoisha = 1000,
    nb_readyToShip = True, nb_type = Product, nb_distanceMeters = 1\<rparr>]"
  have "takaToPoisha (numeric_out 1000) = Inr 1000" "fl 2000 = 2000"
    using takaToPoisha_money_text[of 1000] fl_of_int[of 2000] by (simp_all add: numeric_out_def)
  then have r: "searchNearby (\<lambda>a b. \<bar>fst a - fst b\<bar>) (\<lambda>a b r. \<bar>fst a - fst b\<bar> \<le> r) 24 90 2 ?d = Inr (?rs, ?d)"
    by (simp add: searchNearby_def MIN_RADIUS_KM_def MAX_RADIUS_KM_def MAX_SEARCH_RESULTS_def
        searchNearby_rows_def sample_listing_def map_filter_def nearby_of_def stmt_bind_def)
  show ?thesis using searchNearby_contract[OF r] r by auto
qed

end
