(* ===== verification/OrderRepo.thy ===== *)
theory OrderRepo
  imports UnitOfWork
begin

text \<open>
  \<open>order/order.repository.ts\<close> and \<open>order/order.adapter.ts\<close>: every statement on the order,
  its items, its status timeline and its pending transaction, with the constraints of the
  schema; and the interface \<open>common/ports/order.port.ts\<close> through which payments move an
  order forward. Amounts arrive as decimal texts and are stored in hundredths.
\<close>

section \<open>Repository\<close>

record new_order_item =
  no_listingId :: string
  no_quantity :: number
  no_unitPriceBdt :: string
  no_readyToShipAtOrder :: bool

record new_order_record =
  nr_customerUserId :: string
  nr_merchantRoleId :: string
  nr_deliveryLocationId :: string
  nr_paymentMethod :: payment_method
  nr_subtotalBdt :: string
  nr_deliveryFeeBdt :: string
  nr_totalBdt :: string
  nr_advanceAmountBdt :: string
  nr_advanceCapBdt :: string
  nr_isEscrow :: bool
  nr_allItemsReadyToShip :: bool
  nr_isSameCity :: bool
  nr_items :: "new_order_item list"

record status_event =
  ev_orderId :: string
  ev_fromStatus :: "order_status option"
  ev_toStatus :: order_status
  ev_actorRoleId :: "string option"
  ev_noteKey :: "string option"

record pending_transaction =
  pt_orderId :: string
  pt_method :: payment_method
  pt_amountBdt :: string
  pt_isAdvance :: bool

definition order_of :: "string \<Rightarrow> new_order_record \<Rightarrow> int \<Rightarrow> int \<Rightarrow> int \<Rightarrow> int \<Rightarrow> int \<Rightarrow> order_row" where
  "order_of i r subtotal fee total_amount advance cap =
     \<lparr>o_id = i, o_customer_user_id = nr_customerUserId r, o_merchant_role_id = nr_merchantRoleId r,
      o_delivery_location_id = nr_deliveryLocationId r, o_status = Created,
      o_payment_method = nr_paymentMethod r, o_subtotal_bdt = subtotal, o_delivery_fee_bdt = fee,
      o_total_bdt = total_amount, o_advance_amount_bdt = advance, o_advance_cap_bdt = cap,
      o_is_escrow = nr_isEscrow r, o_all_items_ready_to_ship = nr_allItemsReadyToShip r,
      o_is_same_city = nr_isSameCity r, o_advance_paid_at = None, o_delivery_deadline_at = None\<rparr>"

definition insertOrder :: "new_order_record \<Rightarrow> string sql" where
  "insertOrder r =
     stmt_bind (stmt_lift (numeric_in (nr_subtotalBdt r))) (\<lambda>subtotal.
     stmt_bind (stmt_lift (numeric_in (nr_deliveryFeeBdt r))) (\<lambda>fee.
     stmt_bind (stmt_lift (numeric_in (nr_totalBdt r))) (\<lambda>total_amount.
     stmt_bind (stmt_lift (numeric_in (nr_advanceAmountBdt r))) (\<lambda>advance.
     stmt_bind (stmt_lift (numeric_in (nr_advanceCapBdt r))) (\<lambda>cap.
     stmt_bind gen_random_uuid (\<lambda>i.
     stmt_bind (check (0 \<le> subtotal \<and> 0 \<le> total_amount \<and> 0 \<le> advance \<and> advance \<le> cap)) (\<lambda>_.
     stmt_bind (\<lambda>d. unique (i \<notin> o_id ` set (orders d)) d) (\<lambda>_.
     stmt_bind (\<lambda>d. foreign_key (nr_customerUserId r \<in> u_id ` set (users d)) d) (\<lambda>_.
     stmt_bind (\<lambda>d. foreign_key (nr_merchantRoleId r \<in> r_id ` set (roles d)) d) (\<lambda>_.
     stmt_bind (\<lambda>d. foreign_key (nr_deliveryLocationId r \<in> loc_id ` set (locations d)) d) (\<lambda>_.
     stmt_bind (write_db (\<lambda>d. d\<lparr>orders := orders d @ [order_of i r subtotal fee total_amount advance cap]\<rparr>)) (\<lambda>_.
       stmt_return i))))))))))))"

definition item_of :: "string \<Rightarrow> string \<Rightarrow> new_order_item \<Rightarrow> int \<Rightarrow> int \<Rightarrow> order_item_row" where
  "item_of i orderId item quantity price =
     \<lparr>oi_id = i, oi_order_id = orderId, oi_listing_id = no_listingId item, oi_quantity = quantity,
      oi_unit_price_bdt = price, oi_ready_to_ship_at_order = no_readyToShipAtOrder item\<rparr>"

definition insertItem :: "string \<Rightarrow> new_order_item \<Rightarrow> unit sql" where
  "insertItem orderId item =
     stmt_bind (stmt_lift (int4_in (no_quantity item))) (\<lambda>quantity.
     stmt_bind (stmt_lift (numeric_in (no_unitPriceBdt item))) (\<lambda>price.
     stmt_bind gen_random_uuid (\<lambda>i.
     stmt_bind (check (0 < quantity)) (\<lambda>_.
     stmt_bind (\<lambda>d. unique (i \<notin> oi_id ` set (order_items d)) d) (\<lambda>_.
     stmt_bind (\<lambda>d. foreign_key (orderId \<in> o_id ` set (orders d)) d) (\<lambda>_.
     stmt_bind (\<lambda>d. foreign_key (no_listingId item \<in> l_id ` set (listings d)) d) (\<lambda>_.
       write_db (\<lambda>d. d\<lparr>order_items := order_items d @ [item_of i orderId item quantity price]\<rparr>))))))))"

definition insertItems :: "string \<Rightarrow> new_order_item list \<Rightarrow> unit sql" where
  "insertItems orderId items = stmt_for items (insertItem orderId)"

definition event_of :: "string \<Rightarrow> status_event \<Rightarrow> int \<Rightarrow> status_event_row" where
  "event_of i event now =
     \<lparr>se_id = i, se_order_id = ev_orderId event, se_from_status = ev_fromStatus event,
      se_to_status = ev_toStatus event, se_actor_role_id = ev_actorRoleId event,
      se_note_key = ev_noteKey event, se_occurred_at = now\<rparr>"

definition set_status :: "string \<Rightarrow> order_status \<Rightarrow> order_row list \<Rightarrow> order_row list" where
  "set_status orderId to_status = update_rows (\<lambda>o1. o_id o1 = orderId) (\<lambda>o1. o1\<lparr>o_status := to_status\<rparr>)"

definition recordStatusEvent :: "status_event \<Rightarrow> unit sql" where
  "recordStatusEvent event =
     stmt_bind gen_random_uuid (\<lambda>i.
     stmt_bind (\<lambda>d. unique (i \<notin> se_id ` set (status_events d)) d) (\<lambda>_.
     stmt_bind (\<lambda>d. foreign_key (ev_orderId event \<in> o_id ` set (orders d)) d) (\<lambda>_.
     stmt_bind (\<lambda>d. foreign_key (case ev_actorRoleId event of None \<Rightarrow> True | Some a \<Rightarrow> a \<in> r_id ` set (roles d)) d) (\<lambda>_.
     stmt_bind (write_db (\<lambda>d. d\<lparr>status_events := status_events d @ [event_of i event (now_ts d)]\<rparr>)) (\<lambda>_.
       write_db (\<lambda>d. d\<lparr>orders := set_status (ev_orderId event) (ev_toStatus event) (orders d)\<rparr>))))))"

definition transaction_of :: "string \<Rightarrow> pending_transaction \<Rightarrow> int \<Rightarrow> int \<Rightarrow> transaction_row" where
  "transaction_of i p amount now =
     \<lparr>t_id = i, t_order_id = pt_orderId p, t_method = pt_method p, t_amount_bdt = amount,
      t_status = Pending, t_aggregator = None, t_aggregator_ref = None, t_is_advance = pt_isAdvance p,
      t_occurred_at = now, t_settled_at = None\<rparr>"

definition insertPendingTransaction :: "pending_transaction \<Rightarrow> unit sql" where
  "insertPendingTransaction p =
     stmt_bind (stmt_lift (numeric_in (pt_amountBdt p))) (\<lambda>amount.
     stmt_bind gen_random_uuid (\<lambda>i.
     stmt_bind (check (0 \<le> amount)) (\<lambda>_.
     stmt_bind (\<lambda>d. unique (i \<notin> t_id ` set (transactions d)) d) (\<lambda>_.
     stmt_bind (\<lambda>d. foreign_key (pt_orderId p \<in> o_id ` set (orders d)) d) (\<lambda>_.
       write_db (\<lambda>d. d\<lparr>transactions := transactions d @ [transaction_of i p amount (now_ts d)]\<rparr>))))))"

definition stamp_row :: "int \<Rightarrow> int \<Rightarrow> order_row \<Rightarrow> order_row" where
  "stamp_row paid deadline o1 = o1\<lparr>o_advance_paid_at := Some paid, o_delivery_deadline_at := Some deadline\<rparr>"

definition stampDeliveryClock :: "string \<Rightarrow> date \<Rightarrow> date \<Rightarrow> unit sql" where
  "stampDeliveryClock orderId advancePaidAt deadline =
     stmt_bind (stmt_lift (timestamptz_in advancePaidAt)) (\<lambda>paid.
     stmt_bind (stmt_lift (timestamptz_in deadline)) (\<lambda>due.
       write_db (\<lambda>d. d\<lparr>orders := update_rows (\<lambda>o1. o_id o1 = orderId) (stamp_row paid due) (orders d)\<rparr>)))"

section \<open>Adapter\<close>

record order_for_settlement =
  os_orderId :: string
  os_isSameCity :: bool
  os_advancePaidAt :: "int option"
  os_status :: order_status

definition find_order :: "string \<Rightarrow> db \<Rightarrow> order_row option" where
  "find_order orderId d = first_row (filter (\<lambda>o1. o_id o1 = orderId) (orders d))"

definition findForSettlement :: "string \<Rightarrow> order_for_settlement option sql" where
  "findForSettlement orderId =
     read_db (\<lambda>d. map_option (\<lambda>o1. \<lparr>os_orderId = o_id o1, os_isSameCity = o_is_same_city o1,
         os_advancePaidAt = o_advance_paid_at o1, os_status = o_status o1\<rparr>) (find_order orderId d))"

definition findCustomer :: "string \<Rightarrow> string option sql" where
  "findCustomer orderId = read_db (\<lambda>d. map_option o_customer_user_id (find_order orderId d))"

definition transitionStatus :: "string \<Rightarrow> order_status \<Rightarrow> string \<Rightarrow> unit sql" where
  "transitionStatus orderId to_status noteKey =
     stmt_bind (read_db (find_order orderId)) (\<lambda>row.
       recordStatusEvent
         \<lparr>ev_orderId = orderId, ev_fromStatus = map_option o_status row, ev_toStatus = to_status,
          ev_actorRoleId = None, ev_noteKey = Some noteKey\<rparr>)"

definition startDeliveryClock :: "string \<Rightarrow> date \<Rightarrow> date \<Rightarrow> unit sql" where
  "startDeliveryClock orderId advancePaidAt deadline = stampDeliveryClock orderId advancePaidAt deadline"

section \<open>Effect of each statement\<close>

lemma find_order_eq: "find_order i d = find (\<lambda>o1. o_id o1 = i) (orders d)"
  by (simp add: find_order_def first_row_filter)

lemma find_order_in: "find_order i d = Some o1 \<Longrightarrow> o1 \<in> set (orders d) \<and> o_id o1 = i"
  by (auto simp: find_order_eq dest: find_Some_in)

lemma find_order_None: "find_order i d = None \<longleftrightarrow> i \<notin> o_id ` set (orders d)"
  by (auto simp: find_order_eq find_None_all)

lemma insertOrder_Inr:
  assumes "insertOrder r d = Inr (i, d')"
  obtains subtotal fee total_amount advance cap where "numeric_in (nr_subtotalBdt r) = Inr subtotal"
    "numeric_in (nr_deliveryFeeBdt r) = Inr fee" "numeric_in (nr_totalBdt r) = Inr total_amount"
    "numeric_in (nr_advanceAmountBdt r) = Inr advance" "numeric_in (nr_advanceCapBdt r) = Inr cap"
    "0 \<le> subtotal" "0 \<le> total_amount" "0 \<le> advance" "advance \<le> cap"
    "i = uuids d (uuid_n d)" "i \<notin> o_id ` set (orders d)" "nr_customerUserId r \<in> u_id ` set (users d)"
    "nr_merchantRoleId r \<in> r_id ` set (roles d)" "nr_deliveryLocationId r \<in> loc_id ` set (locations d)"
    "d' = d\<lparr>uuid_n := Suc (uuid_n d), orders := orders d @ [order_of i r subtotal fee total_amount advance cap]\<rparr>"
  using assms
  by (auto simp: insertOrder_def stmt_bind_Inr_iff stmt_lift_Inr_iff split: if_splits)

lemma insertItem_Inr:
  assumes "insertItem orderId item d = Inr (x, d')"
  obtains quantity price i where "no_quantity item = of_int quantity" "0 < quantity" "quantity \<le> 2147483647"
    "numeric_in (no_unitPriceBdt item) = Inr price" "i = uuids d (uuid_n d)" "i \<notin> oi_id ` set (order_items d)"
    "orderId \<in> o_id ` set (orders d)" "no_listingId item \<in> l_id ` set (listings d)"
    "d' = d\<lparr>uuid_n := Suc (uuid_n d), order_items := order_items d @ [item_of i orderId item quantity price]\<rparr>"
  using assms
  by (auto simp: insertItem_def stmt_bind_Inr_iff stmt_lift_Inr_iff split: if_splits dest!: int4_in_Inr)

lemma recordStatusEvent_Inr:
  assumes "recordStatusEvent event d = Inr (x, d')"
  shows "ev_orderId event \<in> o_id ` set (orders d) \<and> uuids d (uuid_n d) \<notin> se_id ` set (status_events d) \<and>
    d' = d\<lparr>uuid_n := Suc (uuid_n d),
      status_events := status_events d @ [event_of (uuids d (uuid_n d)) event (now_ts d)],
      orders := set_status (ev_orderId event) (ev_toStatus event) (orders d)\<rparr>"
  using assms by (auto simp: recordStatusEvent_def stmt_bind_Inr_iff split: if_splits)

lemma insertPendingTransaction_Inr:
  assumes "insertPendingTransaction p d = Inr (x, d')"
  obtains amount i where "numeric_in (pt_amountBdt p) = Inr amount" "0 \<le> amount" "i = uuids d (uuid_n d)"
    "i \<notin> t_id ` set (transactions d)" "pt_orderId p \<in> o_id ` set (orders d)"
    "d' = d\<lparr>uuid_n := Suc (uuid_n d), transactions := transactions d @ [transaction_of i p amount (now_ts d)]\<rparr>"
  using assms
  by (auto simp: insertPendingTransaction_def stmt_bind_Inr_iff stmt_lift_Inr_iff split: if_splits)

lemma stampDeliveryClock_Inr:
  "stampDeliveryClock orderId p q d = Inr (x, d') \<longleftrightarrow>
     (\<exists>paid due. p = Some paid \<and> q = Some due \<and>
        d' = d\<lparr>orders := update_rows (\<lambda>o1. o_id o1 = orderId) (stamp_row paid due) (orders d)\<rparr>)"
  by (auto simp: stampDeliveryClock_def stmt_bind_Inr_iff stmt_lift_Inr_iff timestamptz_in_def split: option.splits)

definition item_written :: "string \<Rightarrow> new_order_item \<Rightarrow> order_item_row \<Rightarrow> bool" where
  "item_written orderId item row \<longleftrightarrow> oi_order_id row = orderId \<and> oi_listing_id row = no_listingId item \<and>
     of_int (oi_quantity row) = no_quantity item \<and> 0 < oi_quantity row \<and>
     numeric_in (no_unitPriceBdt item) = Inr (oi_unit_price_bdt row) \<and>
     oi_ready_to_ship_at_order row = no_readyToShipAtOrder item"

lemma insertItems_Inr:
  assumes "insertItems orderId items d = Inr (x, d')"
  shows "\<exists>rows n. d' = d\<lparr>uuid_n := n, order_items := order_items d @ rows\<rparr> \<and>
    list_all2 (item_written orderId) items rows"
  using assms unfolding insertItems_def
proof (induction items arbitrary: d)
  case Nil
  then have "d' = d\<lparr>uuid_n := uuid_n d, order_items := order_items d @ []\<rparr>" by simp
  then show ?case by blast
next
  case (Cons item items)
  then obtain d1 where 1: "insertItem orderId item d = Inr ((), d1)"
    and 2: "stmt_for items (insertItem orderId) d1 = Inr (x, d')"
    by (auto simp: stmt_bind_Inr_iff)
  from 1 obtain quantity price i where q: "no_quantity item = of_int quantity" "0 < quantity"
    "numeric_in (no_unitPriceBdt item) = Inr price"
    "d1 = d\<lparr>uuid_n := Suc (uuid_n d), order_items := order_items d @ [item_of i orderId item quantity price]\<rparr>"
    by (rule insertItem_Inr)
  from Cons.IH[OF 2] obtain rows n where r: "d' = d1\<lparr>uuid_n := n, order_items := order_items d1 @ rows\<rparr>"
    and all: "list_all2 (item_written orderId) items rows" by blast
  have "d' = d\<lparr>uuid_n := n, order_items := order_items d @ item_of i orderId item quantity price # rows\<rparr>"
    using r q(4) by simp
  moreover have "item_written orderId item (item_of i orderId item quantity price)"
    using q by (simp add: item_of_def item_written_def)
  ultimately show ?case
    using all by (intro exI[of _ "item_of i orderId item quantity price # rows"] exI[of _ n]) simp
qed

section \<open>The interface\<close>

text \<open>
  \<open>order_frame d d'\<close>: nothing but orders, the timeline and the id sequence differs. The port
  promises: lookups read and agree with the stored order; a transition sets the status of the
  one order and appends one event of it; starting the clock sets the two times of the one order.
\<close>

definition order_frame :: "db \<Rightarrow> db \<Rightarrow> bool" where
  "order_frame d d' \<longleftrightarrow>
     (\<exists>os evs n. d' = d\<lparr>orders := os, status_events := evs, uuid_n := n\<rparr>)"

lemma order_frameI:
  "d' = d\<lparr>uuid_n := n, status_events := evs, orders := os\<rparr> \<Longrightarrow> order_frame d d'"
  unfolding order_frame_def by (rule exI[of _ os], rule exI[of _ evs], rule exI[of _ n]) simp

lemma order_frame_orders: "order_frame d (d\<lparr>orders := os\<rparr>)"
  by (rule order_frameI[where n = "uuid_n d" and evs = "status_events d" and os = os]) simp

lemma order_frame_same:
  assumes "order_frame d d'"
  shows "transactions d' = transactions d" "order_items d' = order_items d" "outbox d' = outbox d"
    "users d' = users d" "roles d' = roles d" "locations d' = locations d" "listings d' = listings d"
    "categories d' = categories d" "kyc_submissions d' = kyc_submissions d" "now_ts d' = now_ts d"
  using assms by (auto simp: order_frame_def)

locale order_port =
  fixes find_for_settlement :: "string \<Rightarrow> order_for_settlement option sql"
    and find_customer :: "string \<Rightarrow> string option sql"
    and transition :: "string \<Rightarrow> order_status \<Rightarrow> string \<Rightarrow> unit sql"
    and start_clock :: "string \<Rightarrow> date \<Rightarrow> date \<Rightarrow> unit sql"
  assumes settlement_facts: "find_for_settlement i d = Inr (map_option (\<lambda>o1.
      \<lparr>os_orderId = i, os_isSameCity = o_is_same_city o1, os_advancePaidAt = o_advance_paid_at o1,
       os_status = o_status o1\<rparr>) (find_order i d), d)"
    and customer: "find_customer i d = Inr (map_option o_customer_user_id (find_order i d), d)"
    and transition_effect: "transition i s key d = Inr (x, d') \<Longrightarrow>
      order_frame d d' \<and> orders d' = set_status i s (orders d) \<and>
      (\<exists>e. status_events d' = status_events d @ [e] \<and> se_order_id e = i \<and> se_to_status e = s \<and>
           se_from_status e = map_option o_status (find_order i d))"
    and transition_known: "transition i s key d = Inr (x, d') \<Longrightarrow> find_order i d \<noteq> None"
    and clock_effect: "start_clock i p q d = Inr (x, d') \<Longrightarrow>
      order_frame d d' \<and> status_events d' = status_events d \<and>
      (\<exists>paid due. p = Some paid \<and> q = Some due \<and>
         orders d' = update_rows (\<lambda>o1. o_id o1 = i) (stamp_row paid due) (orders d))"
begin

lemma other_orders_untouched:
  "transition i s key d = Inr (x, d') \<Longrightarrow> j \<noteq> i \<Longrightarrow> find_order j d' = find_order j d"
  by (drule transition_effect) (simp add: find_order_eq set_status_def find_update_rows option.map_ident)

end


interpretation orders: order_port findForSettlement findCustomer transitionStatus startDeliveryClock
proof unfold_locales
  fix i d s key x d' p q
  show "findForSettlement i d = Inr (map_option (\<lambda>o1.
      \<lparr>os_orderId = i, os_isSameCity = o_is_same_city o1, os_advancePaidAt = o_advance_paid_at o1,
       os_status = o_status o1\<rparr>) (find_order i d), d)"
    by (cases "find_order i d") (auto simp: findForSettlement_def dest: find_order_in)
  show "findCustomer i d = Inr (map_option o_customer_user_id (find_order i d), d)"
    by (simp add: findCustomer_def)
  show "order_frame d d' \<and> orders d' = set_status i s (orders d) \<and>
      (\<exists>e. status_events d' = status_events d @ [e] \<and> se_order_id e = i \<and> se_to_status e = s \<and>
           se_from_status e = map_option o_status (find_order i d))"
    if "transitionStatus i s key d = Inr (x, d')"
  proof -
    have d': "d' = d\<lparr>uuid_n := Suc (uuid_n d), status_events := status_events d @
        [event_of (uuids d (uuid_n d)) \<lparr>ev_orderId = i, ev_fromStatus = map_option o_status (find_order i d),
          ev_toStatus = s, ev_actorRoleId = None, ev_noteKey = Some key\<rparr> (now_ts d)],
        orders := set_status i s (orders d)\<rparr>"
      using that recordStatusEvent_Inr by (force simp: transitionStatus_def stmt_bind_Inr_iff)
    then show ?thesis by (auto simp: event_of_def intro: order_frameI)
  qed
  show "find_order i d \<noteq> None" if "transitionStatus i s key d = Inr (x, d')"
    using that recordStatusEvent_Inr by (force simp: transitionStatus_def stmt_bind_Inr_iff find_order_None)
  show "order_frame d d' \<and> status_events d' = status_events d \<and>
      (\<exists>paid due. p = Some paid \<and> q = Some due \<and>
         orders d' = update_rows (\<lambda>o1. o_id o1 = i) (stamp_row paid due) (orders d))"
    if "startDeliveryClock i p q d = Inr (x, d')"
    using that by (auto simp: startDeliveryClock_def stampDeliveryClock_Inr order_frame_orders)
qed

end
