(* ===== verification/ChannelPolicy.thy ===== *)
theory ChannelPolicy
  imports Database
begin

text \<open>
  \<open>api/src/notification/domain/channel-policy.ts\<close>: which channels each event must use. An
  event is the string the callers pass; \<open>POLICIES\<close> is the object literal, in its key order.
\<close>

section \<open>The table\<close>

record policy =
  pol_sms :: bool
  pol_push :: bool
  pol_templateKey :: string

definition POLICIES :: "(string \<times> policy) list" where
  "POLICIES =
     [(''otp'', \<lparr>pol_sms = True, pol_push = False, pol_templateKey = ''notification.otp''\<rparr>),
      (''order_confirmed'', \<lparr>pol_sms = True, pol_push = True, pol_templateKey = ''notification.order.confirmed''\<rparr>),
      (''payment_received'', \<lparr>pol_sms = True, pol_push = True, pol_templateKey = ''notification.payment.received''\<rparr>),
      (''payment_failed'', \<lparr>pol_sms = True, pol_push = True, pol_templateKey = ''notification.payment.failed''\<rparr>),
      (''out_for_delivery'', \<lparr>pol_sms = True, pol_push = True, pol_templateKey = ''notification.delivery.out_for_delivery''\<rparr>),
      (''delivered'', \<lparr>pol_sms = True, pol_push = True, pol_templateKey = ''notification.delivery.delivered''\<rparr>)]"

section \<open>Operations\<close>

definition channelsFor :: "string \<Rightarrow> err + channel list" where
  "channelsFor event =
     (case map_of POLICIES event of
        None \<Rightarrow> Inl (PlainError (''No channel policy defined for event: '' @ event))
      | Some p \<Rightarrow> Inr ((if pol_push p then [Push] else []) @ (if pol_sms p then [Sms] else [])))"

definition templateKeyFor :: "string \<Rightarrow> err + string" where
  "templateKeyFor event =
     (case map_of POLICIES event of
        None \<Rightarrow> Inl (PlainError (''No channel policy defined for event: '' @ event))
      | Some p \<Rightarrow> Inr (pol_templateKey p))"

definition knownEvents :: "string list" where
  "knownEvents = map fst POLICIES"

definition requiresSms :: "string \<Rightarrow> bool" where
  "requiresSms event = (case map_of POLICIES event of None \<Rightarrow> False | Some p \<Rightarrow> pol_sms p)"

section \<open>Facts of the table\<close>

lemma map_of_policies_sms: "map_of POLICIES event = Some p \<Longrightarrow> pol_sms p"
  by (auto simp: POLICIES_def split: if_splits)

lemma requiresSms_known: "requiresSms event \<longleftrightarrow> event \<in> set knownEvents"
proof -
  have "map_of POLICIES event = None \<longleftrightarrow> event \<notin> set knownEvents"
    by (simp add: map_of_eq_None_iff knownEvents_def)
  then show ?thesis
    using map_of_policies_sms[of event] by (auto simp: requiresSms_def split: option.splits)
qed

lemma channelsFor_sms:
  assumes "channelsFor event = Inr cs"
  shows "Sms \<in> set cs" and "distinct cs" and "cs = [Sms] \<or> cs = [Push, Sms]"
  using assms map_of_policies_sms[of event] by (auto simp: channelsFor_def split: option.splits)

lemma channelsFor_known: "(\<exists>cs. channelsFor event = Inr cs) \<longleftrightarrow> event \<in> set knownEvents"
  using requiresSms_known[of event] by (auto simp: channelsFor_def requiresSms_def map_of_policies_sms split: option.splits)

lemma templateKeyFor_known: "(\<exists>k. templateKeyFor event = Inr k) \<longleftrightarrow> event \<in> set knownEvents"
  using requiresSms_known[of event] by (auto simp: templateKeyFor_def requiresSms_def map_of_policies_sms split: option.splits)

end
