(* ===== verification/Notification.thy ===== *)
theory Notification
  imports UnitOfWork ChannelPolicy
begin

text \<open>
  The notification outbox: \<open>notification.repository.ts\<close>, \<open>notification.adapter.ts\<close> and
  the interface \<open>common/ports/notification.port.ts\<close> its clients see. The port is a record of
  the operation the clients call; its contract is the locale \<open>notification_port\<close>, which the
  adapter satisfies.
\<close>

section \<open>Repository\<close>

record outbox_entry =
  en_userId :: string
  en_phoneE164 :: string
  en_language :: string
  en_channel :: channel
  en_templateKey :: string
  en_params :: "(string \<times> string) list"
  en_orderId :: "string option"
  en_dedupeKey :: string

text \<open>
  \<open>INSERT ... ON CONFLICT (dedupe_key) DO NOTHING\<close>: a row with the key means nothing is
  written; otherwise the language must be a \<open>language_code\<close>, the row starts pending with no
  attempt, and the user and the order must exist.
\<close>

definition language_ok :: "string \<Rightarrow> bool" where
  "language_ok s \<longleftrightarrow> s = ''bn'' \<or> s = ''en''"

definition new_outbox_row :: "string \<Rightarrow> int \<Rightarrow> outbox_entry \<Rightarrow> outbox_row" where
  "new_outbox_row i now e =
     \<lparr>n_id = i, n_user_id = en_userId e, n_phone_e164 = en_phoneE164 e, n_language = en_language e,
      n_channel = en_channel e, n_template_key = en_templateKey e, n_params = en_params e,
      n_order_id = en_orderId e, n_status = N_Pending, n_attempts = 0, n_last_error = None,
      n_created_at = now, n_sent_at = None, n_dedupe_key = en_dedupeKey e\<rparr>"

definition enqueue_entry :: "outbox_entry \<Rightarrow> unit sql" where
  "enqueue_entry e d =
     (if \<not> language_ok (en_language e) then Inl (DbError ''22P02'')
      else if en_dedupeKey e \<in> n_dedupe_key ` set (outbox d) then Inr ((), d)
      else stmt_bind gen_random_uuid (\<lambda>i.
           stmt_bind (unique (i \<notin> n_id ` set (outbox d))) (\<lambda>_.
           stmt_bind (foreign_key (en_userId e \<in> u_id ` set (users d))) (\<lambda>_.
           stmt_bind (foreign_key (case en_orderId e of None \<Rightarrow> True | Some oid \<Rightarrow> oid \<in> o_id ` set (orders d))) (\<lambda>_.
             write_db (\<lambda>d. d\<lparr>outbox := outbox d @ [new_outbox_row i (now_ts d) e]\<rparr>))))) d)"

text \<open>
  Oldest pending rows first, at most \<open>limit\<close>, skipping the rows another open transaction
  has locked.
\<close>

definition claimPending :: "(string \<Rightarrow> bool) \<Rightarrow> nat \<Rightarrow> outbox_row list sql" where
  "claimPending locked limit =
     read_db (\<lambda>d. take limit (sort_key n_created_at
       (filter (\<lambda>r. n_status r = N_Pending \<and> \<not> locked (n_id r)) (outbox d))))"

definition sent_row :: "int \<Rightarrow> outbox_row \<Rightarrow> outbox_row" where
  "sent_row now r = r\<lparr>n_status := N_Sent, n_sent_at := Some now, n_attempts := n_attempts r + 1\<rparr>"

definition markSent :: "string \<Rightarrow> unit sql" where
  "markSent i = write_db (\<lambda>d. d\<lparr>outbox := update_rows (\<lambda>r. n_id r = i) (sent_row (now_ts d)) (outbox d)\<rparr>)"

definition failed_row :: "string \<Rightarrow> int \<Rightarrow> outbox_row \<Rightarrow> outbox_row" where
  "failed_row error maxAttempts r =
     r\<lparr>n_attempts := n_attempts r + 1, n_last_error := Some (take 500 error),
       n_status := (if maxAttempts \<le> n_attempts r + 1 then N_Abandoned else N_Pending)\<rparr>"

definition markFailed :: "string \<Rightarrow> string \<Rightarrow> int \<Rightarrow> unit sql" where
  "markFailed i error maxAttempts =
     write_db (\<lambda>d. d\<lparr>outbox := update_rows (\<lambda>r. n_id r = i) (failed_row error maxAttempts) (outbox d)\<rparr>)"

section \<open>Adapter\<close>

record notification_request =
  rq_userId :: string
  rq_event :: string
  rq_params :: "(string \<times> string) list"
  rq_orderId :: "string option"
  rq_dedupeKey :: string

definition channel_name :: "channel \<Rightarrow> string" where
  "channel_name c = (case c of Push \<Rightarrow> ''push'' | Sms \<Rightarrow> ''sms'')"

lemma channel_name_sms: "channel_name c = ''sms'' \<longleftrightarrow> c = Sms"
  by (cases c) (simp_all add: channel_name_def)

definition entry_for :: "notification_request \<Rightarrow> user_row \<Rightarrow> string \<Rightarrow> channel \<Rightarrow> outbox_entry" where
  "entry_for request recipient templateKey c =
     \<lparr>en_userId = rq_userId request, en_phoneE164 = u_phone_e164 recipient,
      en_language = u_language_preference recipient, en_channel = c, en_templateKey = templateKey,
      en_params = rq_params request, en_orderId = rq_orderId request,
      en_dedupeKey = rq_dedupeKey request @ '':'' @ channel_name c\<rparr>"

definition enqueue :: "notification_request \<Rightarrow> unit sql" where
  "enqueue request =
     stmt_bind (read_db (\<lambda>d. first_row (filter (\<lambda>u. u_id u = rq_userId request) (users d)))) (\<lambda>recipient.
     case recipient of
       None \<Rightarrow> stmt_throw (PlainError (''Cannot notify unknown user: '' @ rq_userId request))
     | Some u \<Rightarrow>
         stmt_bind (stmt_lift (templateKeyFor (rq_event request))) (\<lambda>templateKey.
         stmt_bind (stmt_lift (channelsFor (rq_event request))) (\<lambda>channels.
           stmt_for channels (\<lambda>c. enqueue_entry (entry_for request u templateKey c)))))"

section \<open>What the outbox operations leave alone\<close>

text \<open>
  \<open>outbox_grows d d'\<close>: the two states differ at most in the outbox and the id sequence, and
  the outbox of the second extends that of the first by rows that wait for their first attempt.
\<close>

definition queued :: "outbox_row \<Rightarrow> bool" where
  "queued r \<longleftrightarrow> n_status r = N_Pending \<and> n_attempts r = 0"

lemma queued_new [simp]: "queued (new_outbox_row i t e)"
  by (simp add: queued_def new_outbox_row_def)

definition outbox_grows :: "db \<Rightarrow> db \<Rightarrow> bool" where
  "outbox_grows d d' \<longleftrightarrow>
     (\<exists>rows n. d' = d\<lparr>outbox := outbox d @ rows, uuid_n := n\<rparr> \<and> (\<forall>r\<in>set rows. queued r))"

lemma outbox_growsI: "d' = d\<lparr>outbox := outbox d @ rows, uuid_n := n\<rparr> \<Longrightarrow> \<forall>r\<in>set rows. queued r \<Longrightarrow> outbox_grows d d'"
  by (auto simp: outbox_grows_def)

lemma outbox_grows_refl [simp]: "outbox_grows d d"
  by (rule outbox_growsI[where rows = "[]" and n = "uuid_n d"]) simp_all

lemma outbox_grows_trans: "outbox_grows a b \<Longrightarrow> outbox_grows b c \<Longrightarrow> outbox_grows a c"
  unfolding outbox_grows_def by (elim exE conjE) (intro exI conjI, simp, auto)

lemma outbox_grows_same:
  assumes "outbox_grows d d'"
  shows "orders d' = orders d" "order_items d' = order_items d" "status_events d' = status_events d"
    "transactions d' = transactions d" "users d' = users d" "roles d' = roles d"
    "locations d' = locations d" "listings d' = listings d" "categories d' = categories d"
    "kyc_submissions d' = kyc_submissions d" "now_ts d' = now_ts d"
  using assms by (auto simp: outbox_grows_def)

lemma enqueue_entry_Inr:
  assumes "enqueue_entry e d = Inr (u, d')"
  shows "(en_dedupeKey e \<in> n_dedupe_key ` set (outbox d) \<and> d' = d) \<or>
    (en_dedupeKey e \<notin> n_dedupe_key ` set (outbox d) \<and>
     uuids d (uuid_n d) \<notin> n_id ` set (outbox d) \<and> en_userId e \<in> u_id ` set (users d) \<and>
     d' = d\<lparr>uuid_n := Suc (uuid_n d), outbox := outbox d @ [new_outbox_row (uuids d (uuid_n d)) (now_ts d) e]\<rparr>)"
  using assms by (auto simp: enqueue_entry_def stmt_bind_Inr_iff split: if_splits)

lemma enqueue_entry_grows:
  assumes "enqueue_entry e d = Inr (u, d')"
  shows "outbox_grows d d'"
  using enqueue_entry_Inr[OF assms]
proof (elim disjE conjE)
  assume "d' = d\<lparr>uuid_n := Suc (uuid_n d), outbox := outbox d @ [new_outbox_row (uuids d (uuid_n d)) (now_ts d) e]\<rparr>"
  then show ?thesis
    by (intro outbox_growsI[where rows = "[new_outbox_row (uuids d (uuid_n d)) (now_ts d) e]" and n = "Suc (uuid_n d)"]) simp_all
qed simp

lemma enqueue_Inr_iff:
  "enqueue request d = Inr (x, d') \<longleftrightarrow>
     (\<exists>u key cs. find (\<lambda>u. u_id u = rq_userId request) (users d) = Some u \<and>
        templateKeyFor (rq_event request) = Inr key \<and> channelsFor (rq_event request) = Inr cs \<and>
        stmt_for cs (\<lambda>c. enqueue_entry (entry_for request u key c)) d = Inr (x, d'))"
  by (auto simp: enqueue_def stmt_bind_Inr_iff first_row_filter stmt_lift_Inr_iff split: option.splits)

lemma enqueue_grows:
  assumes "enqueue request d = Inr (x, d')"
  shows "outbox_grows d d'"
proof -
  obtain u key cs where "stmt_for cs (\<lambda>c. enqueue_entry (entry_for request u key c)) d = Inr (x, d')"
    using assms by (auto simp: enqueue_Inr_iff)
  then show ?thesis
    by (rule stmt_for_preserves) (auto intro: enqueue_entry_grows outbox_grows_trans)
qed

lemma enqueue_entry_key:
  "enqueue_entry e d = Inr (u, d') \<Longrightarrow> en_dedupeKey e \<in> n_dedupe_key ` set (outbox d')"
  by (drule enqueue_entry_Inr) (auto simp: new_outbox_row_def)

lemma enqueue_entry_again:
  "language_ok (en_language e) \<Longrightarrow> en_dedupeKey e \<in> n_dedupe_key ` set (outbox d) \<Longrightarrow>
   enqueue_entry e d = Inr ((), d)"
  by (simp add: enqueue_entry_def)

lemma enqueue_entry_language: "enqueue_entry e d = Inr (u, d') \<Longrightarrow> language_ok (en_language e)"
  by (simp add: enqueue_entry_def split: if_splits)

text \<open>After a successful request every channel of the event has a row under its dedupe key.\<close>

lemma enqueue_loop_grows:
  "stmt_for cs (\<lambda>c. enqueue_entry (entry_for request u key c)) d = Inr (x, d') \<Longrightarrow> outbox_grows d d'"
  by (erule stmt_for_preserves) (auto intro: enqueue_entry_grows outbox_grows_trans)

lemma outbox_grows_keys: "outbox_grows d d' \<Longrightarrow> n_dedupe_key ` set (outbox d) \<subseteq> n_dedupe_key ` set (outbox d')"
  by (auto simp: outbox_grows_def)

lemma enqueue_loop_keys:
  assumes "stmt_for cs (\<lambda>c. enqueue_entry (entry_for request u key c)) d = Inr (x, d')" "c \<in> set cs"
  shows "rq_dedupeKey request @ '':'' @ channel_name c \<in> n_dedupe_key ` set (outbox d') \<and>
         language_ok (u_language_preference u)"
  using assms
proof (induction cs arbitrary: d)
  case (Cons b cs)
  obtain d1 where b: "enqueue_entry (entry_for request u key b) d = Inr ((), d1)"
    and r: "stmt_for cs (\<lambda>c. enqueue_entry (entry_for request u key c)) d1 = Inr (x, d')"
    using Cons.prems(1) by (auto simp: stmt_bind_Inr_iff)
  show ?case
    using enqueue_entry_key[OF b] enqueue_entry_language[OF b] outbox_grows_keys[OF enqueue_loop_grows[OF r]]
      Cons.IH[OF r] Cons.prems(2) by (auto simp: entry_for_def)
qed simp

section \<open>The port\<close>

text \<open>
  What a client of the port relies on: a request only appends to the outbox, and a request
  with the user, event and dedupe key of an accepted one, while its rows are still there, appends
  nothing, whatever its parameters.
\<close>

locale notification_port =
  fixes send :: "notification_request \<Rightarrow> unit sql"
  assumes appends: "send rq d = Inr (x, d') \<Longrightarrow> outbox_grows d d'"
    and repeated: "send rq d = Inr (x, d1) \<Longrightarrow> rq_userId rq' = rq_userId rq \<Longrightarrow> rq_event rq' = rq_event rq \<Longrightarrow>
      rq_dedupeKey rq' = rq_dedupeKey rq \<Longrightarrow> users d2 = users d1 \<Longrightarrow>
      n_dedupe_key ` set (outbox d1) \<subseteq> n_dedupe_key ` set (outbox d2) \<Longrightarrow> send rq' d2 = Inr ((), d2)"
begin

lemma later: "send rq d = Inr (x, d1) \<Longrightarrow> outbox_grows d1 d2 \<Longrightarrow> send rq d2 = Inr ((), d2)"
  using repeated[of rq d x d1 rq d2] outbox_grows_same(5) outbox_grows_keys by metis

lemma twice: "send rq d = Inr (x, d') \<Longrightarrow> send rq d' = Inr ((), d')"
  using repeated[of rq d x d' rq d'] by simp

lemma frame:
  assumes "send rq d = Inr (x, d')"
  shows "orders d' = orders d" "order_items d' = order_items d" "status_events d' = status_events d"
    "transactions d' = transactions d" "users d' = users d" "roles d' = roles d" "listings d' = listings d"
    "now_ts d' = now_ts d"
  using outbox_grows_same[OF appends[OF assms]] by simp_all

end

lemma enqueue_loop_again:
  assumes "\<forall>c\<in>set cs. rq_dedupeKey request @ '':'' @ channel_name c \<in> n_dedupe_key ` set (outbox d)"
    and "cs \<noteq> [] \<Longrightarrow> language_ok (u_language_preference u)"
  shows "stmt_for cs (\<lambda>c. enqueue_entry (entry_for request u key c)) d = Inr ((), d)"
  using assms by (induction cs) (auto simp: enqueue_entry_again entry_for_def)

lemma enqueue_repeated:
  assumes "enqueue rq d = Inr (x, d1)" "rq_userId rq' = rq_userId rq" "rq_event rq' = rq_event rq"
    and "rq_dedupeKey rq' = rq_dedupeKey rq" "users d2 = users d1"
    and "n_dedupe_key ` set (outbox d1) \<subseteq> n_dedupe_key ` set (outbox d2)"
  shows "enqueue rq' d2 = Inr ((), d2)"
proof -
  obtain u key cs where u: "find (\<lambda>u. u_id u = rq_userId rq) (users d) = Some u"
      "templateKeyFor (rq_event rq) = Inr key" "channelsFor (rq_event rq) = Inr cs"
    and l: "stmt_for cs (\<lambda>c. enqueue_entry (entry_for rq u key c)) d = Inr (x, d1)"
    using assms(1) by (auto simp: enqueue_Inr_iff)
  have "users d2 = users d"
    using outbox_grows_same(5)[OF enqueue_grows[OF assms(1)]] assms(5) by simp
  moreover have "stmt_for cs (\<lambda>c. enqueue_entry (entry_for rq' u key c)) d2 = Inr ((), d2)"
  proof (rule enqueue_loop_again)
    show "\<forall>c\<in>set cs. rq_dedupeKey rq' @ '':'' @ channel_name c \<in> n_dedupe_key ` set (outbox d2)"
      using enqueue_loop_keys[OF l] assms(4,6) by (metis subsetD)
    show "language_ok (u_language_preference u)" if "cs \<noteq> []"
      using enqueue_loop_keys[OF l, of "hd cs"] that by simp
  qed
  ultimately show ?thesis using u assms(2,3) by (auto simp: enqueue_Inr_iff)
qed

interpretation outbox: notification_port enqueue
  by unfold_locales (auto intro: enqueue_grows enqueue_repeated)

text \<open>Every row of the outbox was there before or carries the request to one of its channels.\<close>

lemma enqueue_loop_rows:
  assumes "stmt_for cs (\<lambda>c. enqueue_entry (entry_for rq u key c)) d = Inr (x, d')" "s \<in> set (outbox d')"
  shows "s \<in> set (outbox d) \<or> (\<exists>c i. s = new_outbox_row i (now_ts d) (entry_for rq u key c))"
  using assms
proof (induction cs arbitrary: d)
  case (Cons c cs)
  then obtain d1 where 1: "enqueue_entry (entry_for rq u key c) d = Inr ((), d1)"
    and 2: "stmt_for cs (\<lambda>c. enqueue_entry (entry_for rq u key c)) d1 = Inr (x, d')"
    by (auto simp: stmt_bind_Inr_iff)
  from Cons.IH[OF 2 Cons.prems(2)] show ?case
    using enqueue_entry_Inr[OF 1] outbox_grows_same(11)[OF enqueue_entry_grows[OF 1]] by auto
qed simp

lemma enqueue_keys:
  assumes "enqueue rq d = Inr (x, d')" "s \<in> set (outbox d')"
  shows "s \<in> set (outbox d) \<or> (\<exists>c. n_dedupe_key s = rq_dedupeKey rq @ '':'' @ channel_name c)"
proof -
  obtain u key cs where "stmt_for cs (\<lambda>c. enqueue_entry (entry_for rq u key c)) d = Inr (x, d')"
    using assms(1) by (auto simp: enqueue_Inr_iff)
  from enqueue_loop_rows[OF this assms(2)] show ?thesis
    by (auto simp: new_outbox_row_def entry_for_def)
qed

text \<open>The SMS row of a request, with the text it will have.\<close>

lemma enqueue_sms:
  assumes "enqueue rq d = Inr (x, d')"
  shows "\<exists>r\<in>set (outbox d'). n_dedupe_key r = rq_dedupeKey rq @ '':sms'' \<and>
     (r \<in> set (outbox d) \<or>
      (\<exists>u. find (\<lambda>u. u_id u = rq_userId rq) (users d) = Some u \<and> n_phone_e164 r = u_phone_e164 u \<and>
         n_language r = u_language_preference u \<and> templateKeyFor (rq_event rq) = Inr (n_template_key r) \<and> n_channel r = Sms \<and>
         n_params r = rq_params rq \<and> n_status r = N_Pending \<and> n_attempts r = 0))"
proof -
  obtain u key cs where u: "find (\<lambda>u. u_id u = rq_userId rq) (users d) = Some u"
      "channelsFor (rq_event rq) = Inr cs"
      "templateKeyFor (rq_event rq) = Inr key"
    and l: "stmt_for cs (\<lambda>c. enqueue_entry (entry_for rq u key c)) d = Inr (x, d')"
    using assms by (auto simp: enqueue_Inr_iff)
  have "Sms \<in> set cs" using u(2) by (rule channelsFor_sms)
  then obtain r where r: "r \<in> set (outbox d')" "n_dedupe_key r = rq_dedupeKey rq @ '':sms''"
    using enqueue_loop_keys[OF l, of Sms] by (auto simp: channel_name_def)
  note new = enqueue_loop_rows[OF l]
  show ?thesis
    using u new[OF r(1)] r
    by (intro bexI[OF _ r(1)])
       (auto simp: new_outbox_row_def entry_for_def channel_name_sms)
qed

section \<open>Properties\<close>

text \<open>
  C31. SMS is mandatory: whenever a notification is accepted, the outbox holds an SMS row for it
  (written now or already there under the same dedupe key), and a row just written carries the
  recipient's phone, language and parameters and starts pending.
\<close>

theorem enqueue_always_sms:
  assumes "enqueue rq d = Inr (x, d')"
  shows "\<exists>r\<in>set (outbox d'). n_dedupe_key r = rq_dedupeKey rq @ '':sms'' \<and>
     (r \<in> set (outbox d) \<or>
      (\<exists>u\<in>set (users d). u_id u = rq_userId rq \<and> n_phone_e164 r = u_phone_e164 u \<and>
         n_language r = u_language_preference u \<and> n_channel r = Sms \<and>
         n_params r = rq_params rq \<and> n_status r = N_Pending \<and> n_attempts r = 0))"
proof -
  obtain r where r: "r \<in> set (outbox d')" "n_dedupe_key r = rq_dedupeKey rq @ '':sms''"
    "r \<in> set (outbox d) \<or>
      (\<exists>u. find (\<lambda>u. u_id u = rq_userId rq) (users d) = Some u \<and> n_phone_e164 r = u_phone_e164 u \<and>
         n_language r = u_language_preference u \<and> n_channel r = Sms \<and> n_params r = rq_params rq \<and>
         n_status r = N_Pending \<and> n_attempts r = 0)"
    using enqueue_sms[OF assms] by blast
  then show ?thesis by (intro bexI[OF _ r(1)]) (auto dest: find_Some_in)
qed

definition sample_request :: notification_request where
  "sample_request =
     \<lparr>rq_userId = ''buyer'', rq_event = ''order_confirmed'', rq_params = [(''orderRef'', ''u'')],
      rq_orderId = None, rq_dedupeKey = ''order-created:u''\<rparr>"

lemma sample_enqueue:
  "enqueue sample_request sample_db =
     Inr ((), sample_db\<lparr>outbox :=
       [new_outbox_row ''u'' 1000 (entry_for sample_request (hd (users sample_db)) ''notification.order.confirmed'' Push),
        new_outbox_row ''ux'' 1000 (entry_for sample_request (hd (users sample_db)) ''notification.order.confirmed'' Sms)],
       uuid_n := 2\<rparr>)"
  by (simp add: enqueue_def sample_request_def templateKeyFor_def channelsFor_def POLICIES_def
      sample_db_def stmt_bind_def enqueue_entry_def entry_for_def new_outbox_row_def language_ok_def
      channel_name_def)

theorem enqueue_always_sms_witness:
  "\<exists>d'. enqueue sample_request sample_db = Inr ((), d') \<and>
     (\<exists>r\<in>set (outbox d'). n_dedupe_key r = ''order-created:u:sms'' \<and> n_channel r = Sms)"
proof -
  obtain d' where e: "enqueue sample_request sample_db = Inr ((), d')" using sample_enqueue by blast
  have "outbox sample_db = []" by (simp add: sample_db_def)
  then show ?thesis
    using enqueue_always_sms[OF e] e by (auto simp: sample_request_def)
qed

text \<open>
  Notifications are idempotent: a request that was accepted once is accepted again without
  writing anything, even after other notifications were queued in between.
\<close>

theorem enqueue_idempotent:
  assumes "enqueue rq d = Inr (x, d1)" "enqueue rq' d1 = Inr (y, d2)"
  shows "enqueue rq d2 = Inr ((), d2)"
  by (rule outbox.later[OF assms(1) outbox.appends[OF assms(2)]])

theorem enqueue_idempotent_witness:
  "\<exists>d1. enqueue sample_request sample_db = Inr ((), d1) \<and> enqueue sample_request d1 = Inr ((), d1)"
proof -
  obtain d1 where e: "enqueue sample_request sample_db = Inr ((), d1)" using sample_enqueue by blast
  have "enqueue sample_request d1 = Inr ((), d1)" by (rule outbox.twice[OF e])
  then have "enqueue sample_request d1 = Inr ((), d1)" by (rule enqueue_idempotent[OF e])
  then show ?thesis using e by blast
qed

end
