(* ===== verification/OrderService.thy ===== *)
theory OrderService
  imports AdvanceCap Catalog OrderRepo Notification
begin

text \<open>
  \<open>order/order.service.ts\<close>: order creation. The service receives its ports by constructor
  injection, so they are an argument of the model; \<open>checkout_wiring\<close> is the injection the
  modules configure. The reads run on the pool, one after the other; the writes are one
  transaction. The environment variable \<open>ESCROW_ENABLED\<close> is an argument.
\<close>

section \<open>Command, result and ports\<close>

record create_order_command =
  co_customerUserId :: string
  co_merchantRoleId :: string
  co_deliveryLocationId :: string
  co_paymentMethod :: payment_method
  co_lines :: "requested_cart_line list"
  co_requestedAdvance :: poisha
  co_deliveryFee :: poisha

record created_order =
  cr_orderId :: string
  cr_totalBdt :: string
  cr_advanceCapBdt :: string
  cr_advanceAmountBdt :: string
  cr_isSameCity :: bool
  cr_advanceExplanationKey :: string

record checkout_ports =
  cp_resolveCartLines :: "requested_cart_line list \<Rightarrow> resolved_cart_line list sql"
  cp_findLocation :: "string \<Rightarrow> resolved_location sql"
  cp_findMerchant :: "string \<Rightarrow> merchant_summary sql"
  cp_enqueue :: "notification_request \<Rightarrow> unit sql"

definition checkout_wiring :: checkout_ports where
  "checkout_wiring =
     \<lparr>cp_resolveCartLines = resolveCartLines, cp_findLocation = findById,
      cp_findMerchant = findMerchant, cp_enqueue = enqueue\<rparr>"

section \<open>Validation\<close>

definition check_line :: "string \<Rightarrow> resolved_cart_line \<Rightarrow> err + unit" where
  "check_line merchantRoleId line =
     (if \<not> rs_isActive line then Inl (BadRequestException ''error.checkout.listing_unavailable'')
      else if rs_categoryRestricted line then Inl (BadRequestException ''error.checkout.category_prohibited'')
      else if rs_categoryRequiresDgdaLicence line
      then Inl (BadRequestException ''error.checkout.category_requires_licence'')
      else if rs_merchantRoleId line \<noteq> merchantRoleId
      then Inl (BadRequestException ''error.checkout.multiple_merchants'')
      else if (case rs_stockQty line of None \<Rightarrow> False | Some n \<Rightarrow> rs_quantity line > of_int n)
      then Inl (BadRequestException ''error.checkout.insufficient_stock'')
      else if rs_quantity line < 1 then Inl (BadRequestException ''error.checkout.invalid_quantity'')
      else Inr ())"

fun assertCartIsOrderable :: "resolved_cart_line list \<Rightarrow> string \<Rightarrow> err + unit" where
  "assertCartIsOrderable [] merchantRoleId = Inr ()"
| "assertCartIsOrderable (line # lines) merchantRoleId =
     sum_bind (check_line merchantRoleId line) (\<lambda>_. assertCartIsOrderable lines merchantRoleId)"

definition escrowEnabled :: "string option \<Rightarrow> bool" where
  "escrowEnabled ESCROW_ENABLED \<longleftrightarrow> ESCROW_ENABLED = Some ''true''"

section \<open>The amounts and the record\<close>

definition cart_line_of :: "resolved_cart_line \<Rightarrow> cart_line" where
  "cart_line_of line =
     \<lparr>ln_listingId = rs_listingId line, ln_quantity = rs_quantity line, ln_unitPrice = rs_unitPrice line,
      ln_readyToShip = rs_readyToShip line\<rparr>"

record priced_cart =
  pc_subtotal :: poisha
  pc_total :: poisha
  pc_cap :: advance_cap_result

text \<open>The \<open>try\<close> around \<open>assertAdvanceWithinCap\<close>.\<close>

definition advance_check :: "poisha \<Rightarrow> advance_cap_result \<Rightarrow> err + unit" where
  "advance_check requested cap =
     (case assertAdvanceWithinCap requested cap of
        Inl e \<Rightarrow> Inl (if e = AdvanceCapExceededError
                     then BadRequestException ''error.checkout.advance_exceeds_cap'' else e)
      | Inr u \<Rightarrow> Inr u)"

text \<open>Step 4: subtotal, total, cap, and the two checks on the requested advance.\<close>

definition priceCart :: "string option \<Rightarrow> create_order_command \<Rightarrow> resolved_cart_line list \<Rightarrow> err + priced_cart" where
  "priceCart ESCROW_ENABLED command resolved =
     (let cartLines = map cart_line_of resolved in
      sum_bind (cartSubtotal cartLines) (\<lambda>subtotal.
      sum_bind (sum_poisha [subtotal, co_deliveryFee command]) (\<lambda>total_amount.
      sum_bind (computeAdvanceCap cartLines total_amount
          (co_paymentMethod command = Escrow_Payment \<and> escrowEnabled ESCROW_ENABLED)) (\<lambda>cap.
      sum_bind (advance_check (co_requestedAdvance command) cap) (\<lambda>_.
      if co_paymentMethod command = Cod \<and> co_requestedAdvance command \<noteq> 0
      then Inl (BadRequestException ''error.checkout.cod_cannot_have_advance'')
      else Inr \<lparr>pc_subtotal = subtotal, pc_total = total_amount, pc_cap = cap\<rparr>)))))"

definition item_record :: "resolved_cart_line \<Rightarrow> err + new_order_item" where
  "item_record line =
     sum_bind (poishaToTaka (rs_unitPrice line)) (\<lambda>price.
       Inr \<lparr>no_listingId = rs_listingId line, no_quantity = rs_quantity line, no_unitPriceBdt = price,
            no_readyToShipAtOrder = rs_readyToShip line\<rparr>)"

definition orderRecord ::
  "create_order_command \<Rightarrow> resolved_cart_line list \<Rightarrow> bool \<Rightarrow> priced_cart \<Rightarrow> err + new_order_record" where
  "orderRecord command resolved sameCity pc =
     sum_bind (poishaToTaka (pc_subtotal pc)) (\<lambda>subtotal.
     sum_bind (poishaToTaka (co_deliveryFee command)) (\<lambda>fee.
     sum_bind (poishaToTaka (pc_total pc)) (\<lambda>total_amount.
     sum_bind (poishaToTaka (co_requestedAdvance command)) (\<lambda>advance.
     sum_bind (poishaToTaka (cap_amount (pc_cap pc))) (\<lambda>cap.
     sum_bind (map_throwing item_record resolved) (\<lambda>items.
       Inr \<lparr>nr_customerUserId = co_customerUserId command, nr_merchantRoleId = co_merchantRoleId command,
            nr_deliveryLocationId = co_deliveryLocationId command, nr_paymentMethod = co_paymentMethod command,
            nr_subtotalBdt = subtotal, nr_deliveryFeeBdt = fee, nr_totalBdt = total_amount,
            nr_advanceAmountBdt = advance, nr_advanceCapBdt = cap,
            nr_isEscrow = (cap_reason (pc_cap pc) = Escrow),
            nr_allItemsReadyToShip = cap_allItemsReadyToShip (pc_cap pc), nr_isSameCity = sameCity,
            nr_items = items\<rparr>))))))"

section \<open>The operation\<close>

record prepared_order =
  pp_priced :: priced_cart
  pp_sameCity :: bool
  pp_record :: new_order_record

text \<open>Steps 3 to 5 up to the transaction, for an eligible merchant with pickup address \<open>pk\<close>.\<close>

definition priceOrder ::
  "checkout_ports \<Rightarrow> string option \<Rightarrow> create_order_command \<Rightarrow> resolved_cart_line list \<Rightarrow> string \<Rightarrow>
   ('z world_scheme, prepared_order) act" where
  "priceOrder P ESCROW_ENABLED command resolved pk =
     act_bind (on_pool (cp_findLocation P pk)) (\<lambda>pickup.
     act_bind (on_pool (cp_findLocation P (co_deliveryLocationId command))) (\<lambda>delivery.
     act_bind (act_lift (priceCart ESCROW_ENABLED command resolved)) (\<lambda>pc.
     act_bind (act_lift (orderRecord command resolved (isSameCity pickup delivery) pc)) (\<lambda>record.
       act_return \<lparr>pp_priced = pc, pp_sameCity = isSameCity pickup delivery, pp_record = record\<rparr>))))"

text \<open>Everything before the transaction.\<close>

definition prepareOrder ::
  "checkout_ports \<Rightarrow> string option \<Rightarrow> create_order_command \<Rightarrow> ('z world_scheme, prepared_order) act" where
  "prepareOrder P ESCROW_ENABLED command =
     (if co_lines command = [] then act_throw (BadRequestException ''error.checkout.empty_cart'')
      else
        act_bind (on_pool (cp_resolveCartLines P (co_lines command))) (\<lambda>resolved.
        act_bind (act_lift (assertCartIsOrderable resolved (co_merchantRoleId command))) (\<lambda>_.
        act_bind (on_pool (cp_findMerchant P (co_merchantRoleId command))) (\<lambda>m.
          if \<not> ms_isActive m then act_throw (BadRequestException ''error.checkout.merchant_unavailable'')
          else if \<not> ms_kycVerified m then act_throw (ForbiddenException ''error.checkout.merchant_not_verified'')
          else if \<not> truthy_string (ms_pickupLocationId m)
          then act_throw (BadRequestException ''error.checkout.merchant_no_pickup_address'')
          else priceOrder P ESCROW_ENABLED command resolved (the (ms_pickupLocationId m))))))"

text \<open>The body of the transaction.\<close>

definition writeOrder :: "checkout_ports \<Rightarrow> create_order_command \<Rightarrow> poisha \<Rightarrow> new_order_record \<Rightarrow> string sql" where
  "writeOrder P command total_amount record =
     stmt_bind (insertOrder record) (\<lambda>i.
     stmt_bind (insertItems i (nr_items record)) (\<lambda>_.
     stmt_bind (recordStatusEvent
         \<lparr>ev_orderId = i, ev_fromStatus = None, ev_toStatus = Created, ev_actorRoleId = None,
          ev_noteKey = Some ''order.event.created''\<rparr>) (\<lambda>_.
     stmt_bind (stmt_lift (poishaToTaka
         (if co_paymentMethod command = Cod then total_amount else co_requestedAdvance command))) (\<lambda>amount.
     stmt_bind (insertPendingTransaction
         \<lparr>pt_orderId = i, pt_method = co_paymentMethod command, pt_amountBdt = amount,
          pt_isAdvance = (co_paymentMethod command \<noteq> Cod)\<rparr>) (\<lambda>_.
     stmt_bind (cp_enqueue P
         \<lparr>rq_userId = co_customerUserId command, rq_event = ''order_confirmed'',
          rq_params = [(''orderRef'', take 8 i)], rq_orderId = Some i,
          rq_dedupeKey = ''order-created:'' @ i\<rparr>) (\<lambda>_.
       stmt_return i))))))"

definition orderResult :: "create_order_command \<Rightarrow> prepared_order \<Rightarrow> string \<Rightarrow> err + created_order" where
  "orderResult command p i =
     sum_bind (poishaToTaka (pc_total (pp_priced p))) (\<lambda>total_amount.
     sum_bind (poishaToTaka (cap_amount (pc_cap (pp_priced p)))) (\<lambda>cap.
     sum_bind (poishaToTaka (co_requestedAdvance command)) (\<lambda>advance.
       Inr \<lparr>cr_orderId = i, cr_totalBdt = total_amount, cr_advanceCapBdt = cap, cr_advanceAmountBdt = advance,
            cr_isSameCity = pp_sameCity p,
            cr_advanceExplanationKey = cap_explanationKey (pc_cap (pp_priced p))\<rparr>)))"

definition createOrder ::
  "checkout_ports \<Rightarrow> string option \<Rightarrow> create_order_command \<Rightarrow> ('z world_scheme, created_order) act" where
  "createOrder P ESCROW_ENABLED command =
     act_bind (prepareOrder P ESCROW_ENABLED command) (\<lambda>p.
     act_bind (transact (writeOrder P command (pc_total (pp_priced p)) (pp_record p))) (\<lambda>i.
       act_lift (orderResult command p i)))"


section \<open>What the validations establish\<close>

definition orderable :: "string \<Rightarrow> resolved_cart_line \<Rightarrow> bool" where
  "orderable merchantRoleId line \<longleftrightarrow> rs_isActive line \<and> \<not> rs_categoryRestricted line \<and>
     \<not> rs_categoryRequiresDgdaLicence line \<and> rs_merchantRoleId line = merchantRoleId \<and>
     (\<forall>n. rs_stockQty line = Some n \<longrightarrow> rs_quantity line \<le> of_int n) \<and> 1 \<le> rs_quantity line"

lemma check_line_iff: "check_line i line = Inr u \<longleftrightarrow> orderable i line"
  by (auto simp: check_line_def orderable_def split: option.splits)

lemma assertCartIsOrderable_iff:
  "assertCartIsOrderable lines i = Inr u \<longleftrightarrow> (\<forall>line\<in>set lines. orderable i line)"
  by (induction lines) (auto simp: sum_bind_Inr_iff check_line_iff)

lemma advance_check_iff:
  "advance_check requested cap = Inr u \<longleftrightarrow> isInteger requested \<and> 0 \<le> requested \<and> requested \<le> cap_amount cap"
  using assertAdvanceWithinCap_iff[of requested cap]
  by (cases "assertAdvanceWithinCap requested cap") (auto simp: advance_check_def)

lemma priceCart_Inr:
  assumes "priceCart env command resolved = Inr pc"
  shows "cartSubtotal (map cart_line_of resolved) = Inr (pc_subtotal pc)"
    "sum_poisha [pc_subtotal pc, co_deliveryFee command] = Inr (pc_total pc)"
    "computeAdvanceCap (map cart_line_of resolved) (pc_total pc)
       (co_paymentMethod command = Escrow_Payment \<and> escrowEnabled env) = Inr (pc_cap pc)"
    "isInteger (co_requestedAdvance command)" "0 \<le> co_requestedAdvance command"
    "co_requestedAdvance command \<le> cap_amount (pc_cap pc)"
    "co_paymentMethod command = Cod \<Longrightarrow> co_requestedAdvance command = 0"
  using assms
  by (auto simp: priceCart_def Let_def sum_bind_Inr_iff advance_check_iff split: if_splits)

lemma item_record_Inr:
  "item_record line = Inr item \<longleftrightarrow> (\<exists>t. poishaToTaka (rs_unitPrice line) = Inr t \<and>
     item = \<lparr>no_listingId = rs_listingId line, no_quantity = rs_quantity line, no_unitPriceBdt = t,
       no_readyToShipAtOrder = rs_readyToShip line\<rparr>)"
  by (auto simp: item_record_def sum_bind_Inr_iff)

lemma orderRecord_Inr:
  assumes "orderRecord command resolved sameCity pc = Inr r"
  shows "poishaToTaka (pc_subtotal pc) = Inr (nr_subtotalBdt r)"
    "poishaToTaka (co_deliveryFee command) = Inr (nr_deliveryFeeBdt r)"
    "poishaToTaka (pc_total pc) = Inr (nr_totalBdt r)"
    "poishaToTaka (co_requestedAdvance command) = Inr (nr_advanceAmountBdt r)"
    "poishaToTaka (cap_amount (pc_cap pc)) = Inr (nr_advanceCapBdt r)"
    "list_all2 (\<lambda>line item. item_record line = Inr item) resolved (nr_items r)"
    "nr_customerUserId r = co_customerUserId command" "nr_merchantRoleId r = co_merchantRoleId command"
    "nr_deliveryLocationId r = co_deliveryLocationId command" "nr_paymentMethod r = co_paymentMethod command"
    "nr_isEscrow r = (cap_reason (pc_cap pc) = Escrow)"
    "nr_allItemsReadyToShip r = cap_allItemsReadyToShip (pc_cap pc)" "nr_isSameCity r = sameCity"
  using assms by (auto simp: orderRecord_def sum_bind_Inr_iff map_throwing_Inr_iff)

lemma orderResult_total:
  assumes "orderRecord command resolved sameCity (pp_priced p) = Inr r"
  shows "\<exists>x. orderResult command p i = Inr x \<and> cr_orderId x = i \<and> cr_isSameCity x = pp_sameCity p \<and>
    cr_totalBdt x = nr_totalBdt r \<and> cr_advanceCapBdt x = nr_advanceCapBdt r \<and>
    cr_advanceAmountBdt x = nr_advanceAmountBdt r"
  using orderRecord_Inr(3-5)[OF assms] by (simp add: orderResult_def)

section \<open>Any ports that keep their contracts\<close>

locale checkout =
  catalog: catalog_port "cp_resolveCartLines P" + location: location_port "cp_findLocation P" +
  merchant: merchant_port "cp_findMerchant P" + notifications: notification_port "cp_enqueue P"
  for P :: checkout_ports
begin

lemma port_reads:
  "on_pool (cp_resolveCartLines P ls) w = (Inr rs, w1) \<longleftrightarrow>
     cp_resolveCartLines P ls (started w) = Inr (rs, started w) \<and> w1 = at_now w"
  "on_pool (cp_findMerchant P r) w = (Inr m, w1) \<longleftrightarrow>
     cp_findMerchant P r (started w) = Inr (m, started w) \<and> w1 = at_now w"
  "on_pool (cp_findLocation P i) w = (Inr l, w1) \<longleftrightarrow>
     cp_findLocation P i (started w) = Inr (l, started w) \<and> w1 = at_now w"
  by (intro on_pool_read; auto dest: catalog.reads merchant.reads location.reads)+

text \<open>A preparation that succeeds has only read, and every check of the code has passed.\<close>

lemma prepare_Inr:
  assumes "prepareOrder P env command w = (Inr p, w1)"
  obtains resolved m pk pickup delivery where "w1 = at_now w" "co_lines command \<noteq> []"
    "cp_resolveCartLines P (co_lines command) (started w) = Inr (resolved, started w)"
    "\<forall>line\<in>set resolved. orderable (co_merchantRoleId command) line"
    "cp_findMerchant P (co_merchantRoleId command) (started w) = Inr (m, started w)"
    "ms_isActive m" "ms_kycVerified m" "ms_pickupLocationId m = Some pk"
    "cp_findLocation P pk (started w) = Inr (pickup, started w)"
    "cp_findLocation P (co_deliveryLocationId command) (started w) = Inr (delivery, started w)"
    "pp_sameCity p = isSameCity pickup delivery"
    "priceCart env command resolved = Inr (pp_priced p)"
    "orderRecord command resolved (pp_sameCity p) (pp_priced p) = Inr (pp_record p)"
proof -
  have ne: "co_lines command \<noteq> []" using assms by (auto simp: prepareOrder_def split: if_splits)
  obtain resolved m where r: "cp_resolveCartLines P (co_lines command) (started w) = Inr (resolved, started w)"
    "\<forall>line\<in>set resolved. orderable (co_merchantRoleId command) line"
    "cp_findMerchant P (co_merchantRoleId command) (started w) = Inr (m, started w)"
    and ok: "ms_isActive m" "ms_kycVerified m" and t: "truthy_string (ms_pickupLocationId m)"
    and rest: "priceOrder P env command resolved (the (ms_pickupLocationId m)) (at_now w) = (Inr p, w1)"
    using assms ne unfolding prepareOrder_def
    by (auto simp: act_bind_Inr_iff port_reads act_lift_iff assertCartIsOrderable_iff split: if_splits)
  obtain pk where pk: "ms_pickupLocationId m = Some pk" using t by (cases "ms_pickupLocationId m") auto
  obtain pickup delivery where l: "cp_findLocation P pk (started w) = Inr (pickup, started w)"
    "cp_findLocation P (co_deliveryLocationId command) (started w) = Inr (delivery, started w)"
    and pr: "pp_sameCity p = isSameCity pickup delivery" "priceCart env command resolved = Inr (pp_priced p)"
    "orderRecord command resolved (pp_sameCity p) (pp_priced p) = Inr (pp_record p)" and w1: "w1 = at_now w"
    using rest pk by (auto simp: priceOrder_def act_bind_Inr_iff port_reads act_lift_iff)
  show thesis by (rule that[OF w1 ne r ok pk l pr])
qed

lemma prepare_Inl:
  assumes "prepareOrder P env command w = (Inl e, w1)"
  shows "w1 = w \<or> w1 = at_now w"
  using assms
  by (auto simp: prepareOrder_def priceOrder_def act_bind_Inl_iff act_bind_Inr_iff port_reads on_pool_Inl_iff
      act_lift_iff split: if_splits)

text \<open>The transaction body, on success: what it appended, and that nothing else differs.\<close>

lemma write_Inr:
  assumes "writeOrder P command total_amount r d = Inr (i, d')"
  obtains subtotal fee total_bdt advance cap items ev t amount where
    "i = uuids d (uuid_n d)" "i \<notin> o_id ` set (orders d)"
    "numeric_in (nr_subtotalBdt r) = Inr subtotal" "numeric_in (nr_deliveryFeeBdt r) = Inr fee"
    "numeric_in (nr_totalBdt r) = Inr total_bdt" "numeric_in (nr_advanceAmountBdt r) = Inr advance"
    "numeric_in (nr_advanceCapBdt r) = Inr cap" "0 \<le> subtotal" "0 \<le> total_bdt" "0 \<le> advance" "advance \<le> cap"
    "orders d' = orders d @ [order_of i r subtotal fee total_bdt advance cap]"
    "order_items d' = order_items d @ items" "list_all2 (item_written i) (nr_items r) items"
    "status_events d' = status_events d @ [ev]" "se_order_id ev = i" "se_from_status ev = None" "se_to_status ev = Created"
    "transactions d' = transactions d @ [t]" "t_order_id t = i" "t_method t = co_paymentMethod command"
    "t_status t = Pending" "t_is_advance t \<longleftrightarrow> co_paymentMethod command \<noteq> Cod" "t_settled_at t = None"
    "t_aggregator_ref t = None"
    "poishaToTaka (if co_paymentMethod command = Cod then total_amount else co_requestedAdvance command) = Inr amount"
    "numeric_in amount = Inr (t_amount_bdt t)" "0 \<le> t_amount_bdt t"
    "users d' = users d" "roles d' = roles d" "listings d' = listings d" "locations d' = locations d"
    "categories d' = categories d" "kyc_submissions d' = kyc_submissions d"
    "\<exists>rows. outbox d' = outbox d @ rows \<and> (\<forall>r\<in>set rows. queued r)" "t_id t \<notin> t_id ` set (transactions d)"
proof -
  obtain d1 d2 d3 amount d4 x1 x2 x3 x4 where 1: "insertOrder r d = Inr (i, d1)"
    and 2: "insertItems i (nr_items r) d1 = Inr (x1, d2)"
    and 3: "recordStatusEvent \<lparr>ev_orderId = i, ev_fromStatus = None, ev_toStatus = Created, ev_actorRoleId = None,
          ev_noteKey = Some ''order.event.created''\<rparr> d2 = Inr (x2, d3)"
    and amount: "poishaToTaka (if co_paymentMethod command = Cod then total_amount else co_requestedAdvance command) = Inr amount"
    and 4: "insertPendingTransaction \<lparr>pt_orderId = i, pt_method = co_paymentMethod command, pt_amountBdt = amount,
          pt_isAdvance = (co_paymentMethod command \<noteq> Cod)\<rparr> d3 = Inr (x3, d4)"
    and 5: "cp_enqueue P \<lparr>rq_userId = co_customerUserId command, rq_event = ''order_confirmed'',
          rq_params = [(''orderRef'', take 8 i)], rq_orderId = Some i,
          rq_dedupeKey = ''order-created:'' @ i\<rparr> d4 = Inr (x4, d')"
    using assms by (auto simp: writeOrder_def stmt_bind_Inr_iff stmt_lift_Inr_iff)
  obtain subtotal fee total_bdt advance cap where n: "numeric_in (nr_subtotalBdt r) = Inr subtotal"
    "numeric_in (nr_deliveryFeeBdt r) = Inr fee" "numeric_in (nr_totalBdt r) = Inr total_bdt"
    "numeric_in (nr_advanceAmountBdt r) = Inr advance" "numeric_in (nr_advanceCapBdt r) = Inr cap"
    "0 \<le> subtotal" "0 \<le> total_bdt" "0 \<le> advance" "advance \<le> cap"
    and i: "i = uuids d (uuid_n d)" "i \<notin> o_id ` set (orders d)"
    and d1: "d1 = d\<lparr>uuid_n := Suc (uuid_n d), orders := orders d @ [order_of i r subtotal fee total_bdt advance cap]\<rparr>"
    using 1 by (rule insertOrder_Inr)
  obtain items n2 where d2: "d2 = d1\<lparr>uuid_n := n2, order_items := order_items d1 @ items\<rparr>"
    and items: "list_all2 (item_written i) (nr_items r) items"
    using insertItems_Inr[OF 2] by blast
  note d3 = recordStatusEvent_Inr[OF 3]
  obtain a j where a: "numeric_in amount = Inr a" "0 \<le> a" and j: "j \<notin> t_id ` set (transactions d3)"
    and d4: "d4 = d3\<lparr>uuid_n := Suc (uuid_n d3), transactions := transactions d3 @ [transaction_of j
        \<lparr>pt_orderId = i, pt_method = co_paymentMethod command, pt_amountBdt = amount,
          pt_isAdvance = (co_paymentMethod command \<noteq> Cod)\<rparr> a (now_ts d3)]\<rparr>"
    using 4 by (rule insertPendingTransaction_Inr) auto
  note d5 = outbox_grows_same[OF notifications.appends[OF 5]]
  obtain rows where rows: "outbox d' = outbox d4 @ rows" "\<forall>r\<in>set rows. queued r"
    using notifications.appends[OF 5] by (auto simp: outbox_grows_def)
  have st: "set_status i Created (orders d @ [order_of i r subtotal fee total_bdt advance cap]) =
      orders d @ [order_of i r subtotal fee total_bdt advance cap]"
    using i(2) unfolding set_status_def update_rows_append
    by (subst update_rows_none) (auto simp: order_of_def)
  have f2: "orders d2 = orders d @ [order_of i r subtotal fee total_bdt advance cap]"
    "order_items d2 = order_items d @ items" "status_events d2 = status_events d" "transactions d2 = transactions d"
    "outbox d2 = outbox d" "users d2 = users d" "roles d2 = roles d" "listings d2 = listings d"
    "locations d2 = locations d" "categories d2 = categories d" "kyc_submissions d2 = kyc_submissions d"
    by (simp_all add: d2 d1)
  have f3: "orders d3 = orders d2" "order_items d3 = order_items d2" "transactions d3 = transactions d2"
    "outbox d3 = outbox d2" "users d3 = users d2" "roles d3 = roles d2" "listings d3 = listings d2"
    "locations d3 = locations d2" "categories d3 = categories d2" "kyc_submissions d3 = kyc_submissions d2"
    using d3 st f2(1) by simp_all
  obtain ev where ev: "status_events d3 = status_events d2 @ [ev]" "se_order_id ev = i" "se_from_status ev = None"
    "se_to_status ev = Created"
    using d3 by (simp add: event_of_def)
  obtain t where t: "transactions d4 = transactions d3 @ [t]" "t_order_id t = i" "t_method t = co_paymentMethod command"
    "t_status t = Pending" "t_is_advance t \<longleftrightarrow> co_paymentMethod command \<noteq> Cod" "t_settled_at t = None"
    "t_aggregator_ref t = None" "t_amount_bdt t = a" "t_id t = j"
    using d4 by (simp add: transaction_of_def)
  have f4: "orders d4 = orders d3" "order_items d4 = order_items d3" "status_events d4 = status_events d3"
    "outbox d4 = outbox d3" "users d4 = users d3" "roles d4 = roles d3" "listings d4 = listings d3"
    "locations d4 = locations d3" "categories d4 = categories d3" "kyc_submissions d4 = kyc_submissions d3"
    by (simp_all add: d4)
  show thesis
    by (rule that[OF i n _ _ items _ ev(2-4) _ t(2-7) amount])
       (use j rows in \<open>simp_all add: d5 f4 f3 f2 ev(1) t(1,8,9) a\<close>)
qed

text \<open>An order that is refused, for whatever reason, has changed no table.\<close>

lemma refused:
  assumes "inflight w = None" "createOrder P env command w = (Inl e, w')"
  shows "inflight w' = None \<and> (committed w' = committed w \<or> committed w' = started w)"
proof -
  obtain r w1 where p: "prepareOrder P env command w = (r, w1)" by (cases "prepareOrder P env command w")
  show ?thesis
  proof (cases r)
    case (Inl x)
    then show ?thesis using prepare_Inl[of env command w x w1] p assms by (auto simp: createOrder_def)
  next
    case (Inr q)
    have p': "prepareOrder P env command w = (Inr q, w1)" using p Inr by simp
    have w1: "w1 = at_now w" and rec: "\<exists>resolved. orderRecord command resolved (pp_sameCity q) (pp_priced q) = Inr (pp_record q)"
      using prepare_Inr[OF p'] by metis+
    obtain s w2 where t: "transact (writeOrder P command (pc_total (pp_priced q)) (pp_record q)) w1 = (s, w2)"
      by (cases "transact (writeOrder P command (pc_total (pp_priced q)) (pp_record q)) w1")
    have "s = Inl e"
    proof (cases s)
      case (Inr i)
      then show ?thesis
        using assms(2) p' t rec orderResult_total[of command _ "pp_sameCity q" q "pp_record q" i]
        by (auto simp: createOrder_def)
    qed (use assms(2) p' t in \<open>simp add: createOrder_def\<close>)
    moreover from this have "w' = w2" using assms(2) p' t by (simp add: createOrder_def)
    moreover have idle: "inflight w1 = None" using w1 assms(1) by simp
    ultimately show ?thesis
      using pg.failed[OF idle] pg.stays_idle[OF idle] t w1 by fastforce
  qed
qed

lemma placed:
  assumes "inflight w = None" "createOrder P env command w = (Inr x, w')"
  obtains p where "prepareOrder P env command w = (Inr p, at_now w)"
    "writeOrder P command (pc_total (pp_priced p)) (pp_record p) (started w) = Inr (cr_orderId x, committed w')"
    "orderResult command p (cr_orderId x) = Inr x"
proof -
  obtain p w1 i w2 where p: "prepareOrder P env command w = (Inr p, w1)"
    and t: "transact (writeOrder P command (pc_total (pp_priced p)) (pp_record p)) w1 = (Inr i, w2)"
    and o: "orderResult command p i = Inr x" "w' = w2"
    using assms(2) by (auto simp: createOrder_def act_bind_Inr_iff act_lift_iff)
  have w1: "w1 = at_now w" using prepare_Inr[OF p] by metis
  have "inflight w1 = None" using w1 assms(1) by simp
  then have "writeOrder P command (pc_total (pp_priced p)) (pp_record p) (started w) = Inr (i, committed w')"
    using pg.succeeded[OF _ t] w1 o(2) by simp
  moreover have "cr_orderId x = i" using o(1) by (auto simp: orderResult_def sum_bind_Inr_iff)
  ultimately show thesis using that p w1 o(1) by blast
qed

text \<open>
  The item rows are a snapshot of the resolved lines, and the amounts of the order row are
  exact functions of them.
\<close>

end

definition snapshot :: "resolved_cart_line \<Rightarrow> order_item_row \<Rightarrow> bool" where
  "snapshot line row \<longleftrightarrow> oi_listing_id row = rs_listingId line \<and> rs_quantity line = of_int (oi_quantity row) \<and>
     rs_unitPrice line = of_int (oi_unit_price_bdt row) \<and> oi_ready_to_ship_at_order row = rs_readyToShip line"

lemma snapshot_items:
  assumes "list_all2 (\<lambda>line item. item_record line = Inr item) resolved items" "list_all2 (item_written i) items rows"
  shows "list_all2 snapshot resolved rows"
proof (rule list_all2_trans[OF _ assms])
  fix line item row
  assume "item_record line = Inr item" "item_written i item row"
  then show "snapshot line row"
    by (auto simp: item_record_Inr item_written_def snapshot_def poishaToTaka_numeric)
qed

definition items_total :: "order_item_row list \<Rightarrow> int" where
  "items_total rows = (\<Sum>row\<leftarrow>rows. oi_unit_price_bdt row * oi_quantity row)"

lemma snapshot_subtotal:
  assumes "list_all2 snapshot resolved rows"
  shows "subtotal_of (map cart_line_of resolved) = items_total rows"
  using assms
  by (induction rule: list_all2_induct)
     (auto simp: subtotal_of_def items_total_def cart_line_of_def snapshot_def)

lemma snapshot_ready:
  assumes "list_all2 snapshot resolved rows"
  shows "(\<forall>l\<in>set (map cart_line_of resolved). ln_readyToShip l) \<longleftrightarrow> (\<forall>row\<in>set rows. oi_ready_to_ship_at_order row)"
  using assms by (induction rule: list_all2_induct) (auto simp: cart_line_of_def snapshot_def)

lemma snapshot_whole:
  assumes "list_all2 snapshot resolved rows" "\<forall>line\<in>set resolved. 0 \<le> rs_unitPrice line \<and> 1 \<le> rs_quantity line"
  shows "\<forall>l\<in>set (map cart_line_of resolved). whole_line l"
  using assms
  by (induction rule: list_all2_induct) (auto simp: cart_line_of_def snapshot_def whole_line_def)

text \<open>The amounts of a priced cart whose conversions to \<open>NUMERIC(12,2)\<close> succeeded.\<close>

lemma priced_exact:
  assumes pc: "priceCart env command resolved = Inr pc" and rec: "orderRecord command resolved sc pc = Inr r"
    and snap: "list_all2 snapshot resolved rows"
    and pos: "\<forall>line\<in>set resolved. 0 \<le> rs_unitPrice line \<and> 1 \<le> rs_quantity line"
    and n: "numeric_in (nr_subtotalBdt r) = Inr subtotal" "numeric_in (nr_deliveryFeeBdt r) = Inr fee"
      "numeric_in (nr_totalBdt r) = Inr total_bdt" "numeric_in (nr_advanceAmountBdt r) = Inr advance"
      "numeric_in (nr_advanceCapBdt r) = Inr cap" and total_pos: "0 \<le> total_bdt"
  shows "subtotal = items_total rows" "total_bdt = subtotal + fee" "of_int fee = co_deliveryFee command"
    "of_int advance = co_requestedAdvance command"
    "cap = cap_rule (nr_isEscrow r \<or> (\<forall>row\<in>set rows. oi_ready_to_ship_at_order row)) total_bdt"
    "nr_isEscrow r \<longleftrightarrow> co_paymentMethod command = Escrow_Payment \<and> escrowEnabled env"
    "nr_allItemsReadyToShip r \<longleftrightarrow> (\<forall>row\<in>set rows. oi_ready_to_ship_at_order row)"
    "pc_total pc = of_int total_bdt"
proof -
  note p = priceCart_Inr[OF pc] and o1 = orderRecord_Inr[OF rec]
  have s: "pc_subtotal pc = of_int subtotal" "\<bar>subtotal\<bar> \<le> 999999999999"
    and f: "co_deliveryFee command = of_int fee" "\<bar>fee\<bar> \<le> 999999999999"
    and t: "pc_total pc = of_int total_bdt" "\<bar>total_bdt\<bar> \<le> 999999999999"
    and a: "co_requestedAdvance command = of_int advance"
    and c: "cap_amount (pc_cap pc) = of_int cap"
    using o1(1-5) n by (auto simp: poishaToTaka_Inr_iff numeric_in_money_text)
  show "of_int fee = co_deliveryFee command" "of_int advance = co_requestedAdvance command"
    "pc_total pc = of_int total_bdt" using f a t by simp_all
  have "(of_int subtotal :: rat) < of_int (2 ^ 53)"
    using s(2) by (simp only: of_int_less_iff) simp
  then have "pc_subtotal pc = of_int (subtotal_of (map cart_line_of resolved))"
    using s(1) p(1) snapshot_whole[OF snap pos] by (intro cartSubtotal_small) simp_all
  then show "subtotal = items_total rows" using s(1) snapshot_subtotal[OF snap] by simp
  show total_eq: "total_bdt = subtotal + fee"
    using p(2) sum_two_exact[OF s(2) f(2)] s(1) f(1) t(1) by simp
  have ne: "map cart_line_of resolved \<noteq> []" using computeAdvanceCap_flags(1)[OF p(3)] .
  let ?esc = "co_paymentMethod command = Escrow_Payment \<and> escrowEnabled env"
  have "10 * total_bdt \<le> 2 ^ 53" using t(2) by simp
  then obtain q where q: "computeAdvanceCap (map cart_line_of resolved) (of_int total_bdt) ?esc = Inr q"
    "cap_amount q = of_int (cap_rule (full_advance_allowed (map cart_line_of resolved) ?esc) total_bdt)"
    "cap_reason q = Escrow \<longleftrightarrow> ?esc"
    "cap_allItemsReadyToShip q \<longleftrightarrow> (\<forall>l\<in>set (map cart_line_of resolved). ln_readyToShip l)"
    using computeAdvanceCap_of_int[OF ne total_pos, of ?esc] by blast
  have qc: "pc_cap pc = q" using q(1) p(3) t(1) by simp
  show esc: "nr_isEscrow r \<longleftrightarrow> ?esc" using o1(11) q(3) qc by simp
  show "nr_allItemsReadyToShip r \<longleftrightarrow> (\<forall>row\<in>set rows. oi_ready_to_ship_at_order row)"
    using o1(12) q(4) qc snapshot_ready[OF snap] by simp
  show "cap = cap_rule (nr_isEscrow r \<or> (\<forall>row\<in>set rows. oi_ready_to_ship_at_order row)) total_bdt"
    using c q(2) qc esc snapshot_ready[OF snap] by (simp only: full_advance_allowed_def of_int_eq_iff)
qed

interpretation wired: checkout checkout_wiring
  by (simp add: checkout_def checkout_wiring_def catalog.catalog_port_axioms location.location_port_axioms
      merchant.merchant_port_axioms outbox.notification_port_axioms)


section \<open>An order on the small database\<close>

definition sample_order_command :: "payment_method \<Rightarrow> poisha \<Rightarrow> create_order_command" where
  "sample_order_command method advance =
     \<lparr>co_customerUserId = ''buyer'', co_merchantRoleId = ''shop'', co_deliveryLocationId = ''away'',
      co_paymentMethod = method, co_lines = sample_lines, co_requestedAdvance = advance, co_deliveryFee = 0\<rparr>"

lemma sample_order_command_simps [simp]:
  "co_customerUserId (sample_order_command m a) = ''buyer''" "co_merchantRoleId (sample_order_command m a) = ''shop''"
  "co_deliveryLocationId (sample_order_command m a) = ''away''" "co_paymentMethod (sample_order_command m a) = m"
  "co_lines (sample_order_command m a) = sample_lines" "co_requestedAdvance (sample_order_command m a) = a"
  "co_deliveryFee (sample_order_command m a) = 0"
  by (simp_all add: sample_order_command_def)

lemma checkout_wiring_simps [simp]:
  "cp_resolveCartLines checkout_wiring = resolveCartLines" "cp_findLocation checkout_wiring = findById"
  "cp_findMerchant checkout_wiring = findMerchant" "cp_enqueue checkout_wiring = enqueue"
  by (simp_all add: checkout_wiring_def)

definition sample_cap :: advance_cap_result where
  "sample_cap = \<lparr>cap_amount = 4400, cap_reason = Standard_Cap, cap_allItemsReadyToShip = False,
     cap_explanationKey = ''checkout.advance.capped_at_ten_percent''\<rparr>"

definition sample_priced :: priced_cart where
  "sample_priced = \<lparr>pc_subtotal = 44005, pc_total = 44005, pc_cap = sample_cap\<rparr>"

lemma sample_sums:
  "cartSubtotal (map cart_line_of sample_resolved) = Inr 44005" "sum_poisha [44005, 0] = Inr 44005"
  "computeAdvanceCap (map cart_line_of sample_resolved) 44005 False = Inr sample_cap"
proof -
  show "cartSubtotal (map cart_line_of sample_resolved) = Inr 44005"
    using cartSubtotal_exact[of "map cart_line_of sample_resolved"]
    by (simp add: sample_resolved_def cart_line_of_def whole_line_def subtotal_of_def)
  show "sum_poisha [44005, 0] = Inr 44005" using sum_two_exact[of 44005 0] by simp
  show "computeAdvanceCap (map cart_line_of sample_resolved) 44005 False = Inr sample_cap"
    using percentageOf_exact[of 44005 10]
    by (simp add: computeAdvanceCap_def sample_resolved_def cart_line_of_def STANDARD_ADVANCE_PERCENT_def sample_cap_def)
qed

lemma sample_pricing:
  assumes "m \<noteq> Escrow_Payment" "isInteger a" "0 \<le> a" "m = Cod \<longrightarrow> a = 0"
  shows "priceCart env (sample_order_command m a) sample_resolved =
    (if a \<le> 4400 then Inr sample_priced else Inl (BadRequestException ''error.checkout.advance_exceeds_cap''))"
  using assms sample_sums
  by (simp add: priceCart_def sample_priced_def advance_check_def assertAdvanceWithinCap_def sample_cap_def)

definition sample_record :: "payment_method \<Rightarrow> int \<Rightarrow> bool \<Rightarrow> new_order_record" where
  "sample_record m a sc =
     \<lparr>nr_customerUserId = ''buyer'', nr_merchantRoleId = ''shop'', nr_deliveryLocationId = ''away'',
      nr_paymentMethod = m, nr_subtotalBdt = money_text 44005, nr_deliveryFeeBdt = money_text 0,
      nr_totalBdt = money_text 44005, nr_advanceAmountBdt = money_text a, nr_advanceCapBdt = money_text 4400,
      nr_isEscrow = False, nr_allItemsReadyToShip = False, nr_isSameCity = sc,
      nr_items = [\<lparr>no_listingId = ''tea'', no_quantity = 2, no_unitPriceBdt = money_text 1000, no_readyToShipAtOrder = True\<rparr>,
        \<lparr>no_listingId = ''rice'', no_quantity = 1, no_unitPriceBdt = money_text 42005, no_readyToShipAtOrder = False\<rparr>]\<rparr>"

lemma sample_texts:
  "poishaToTaka 44005 = Inr (money_text 44005)" "poishaToTaka 0 = Inr (money_text 0)"
  "poishaToTaka 4400 = Inr (money_text 4400)" "poishaToTaka 1000 = Inr (money_text 1000)"
  "poishaToTaka 42005 = Inr (money_text 42005)"
  using poishaToTaka_of_int[of 44005] poishaToTaka_of_int[of 0] poishaToTaka_of_int[of 4400]
    poishaToTaka_of_int[of 1000] poishaToTaka_of_int[of 42005] by simp_all

lemma sample_recorded:
  assumes "\<bar>a\<bar> \<le> 999999999999"
  shows "orderRecord (sample_order_command m (of_int a)) sample_resolved sc sample_priced = Inr (sample_record m a sc)"
  using poishaToTaka_of_int[OF assms]
  by (simp add: orderRecord_def sample_priced_def sample_cap_def sample_record_def sample_resolved_def
      item_record_def sample_texts)

lemma sample_reads:
  "\<exists>(pickup :: resolved_location) (delivery :: resolved_location). prepareOrder checkout_wiring env (sample_order_command m a) sample_world =
     act_bind (act_lift (priceCart env (sample_order_command m a) sample_resolved)) (\<lambda>pc.
     act_bind (act_lift (orderRecord (sample_order_command m a) sample_resolved (isSameCity pickup delivery) pc)) (\<lambda>record.
       act_return \<lparr>pp_priced = pc, pp_sameCity = isSameCity pickup delivery, pp_record = record\<rparr>)) sample_world"
proof -
  have rs: "on_pool (resolveCartLines sample_lines) sample_world = (Inr sample_resolved, sample_world)"
    by (simp add: pool_reads(4) sample_resolution)
  have m: "on_pool (findMerchant ''shop'') sample_world =
      (Inr \<lparr>ms_roleId = ''shop'', ms_kycVerified = True, ms_isActive = True, ms_pickupLocationId = Some ''pickup''\<rparr>,
       sample_world)"
    by (simp add: pool_reads(1) findMerchant_eq) (simp add: sample_db_def summary_of_def)
  have l: "on_pool (findById ''pickup'') sample_world = (Inr (resolved_of (sample_location ''pickup'' ''Dhaka'' ''Dhaka'')), sample_world)"
    "on_pool (findById ''away'') sample_world = (Inr (resolved_of (sample_location ''away'' ''Khulna'' ''Jashore'')), sample_world)"
    by (simp_all add: pool_reads(3) findById_eq) (simp_all add: sample_db_def sample_location_def)
  have c: "assertCartIsOrderable sample_resolved ''shop'' = Inr ()"
    by (simp only: assertCartIsOrderable_iff) (simp add: sample_resolved_def orderable_def)
  have ne: "sample_lines \<noteq> []" by (simp add: sample_lines_def)
  show ?thesis
    by (intro exI[of _ "resolved_of (sample_location ''pickup'' ''Dhaka'' ''Dhaka'')"]
        exI[of _ "resolved_of (sample_location ''away'' ''Khulna'' ''Jashore'')"])
       (use rs m l c ne in \<open>simp add: prepareOrder_def priceOrder_def\<close>)
qed

lemma sample_prepared:
  assumes "m \<noteq> Escrow_Payment" "0 \<le> a" "a \<le> 4400" "m = Cod \<longrightarrow> a = 0"
  shows "\<exists>sc. prepareOrder checkout_wiring env (sample_order_command m (of_int a)) sample_world =
    (Inr \<lparr>pp_priced = sample_priced, pp_sameCity = sc, pp_record = sample_record m a sc\<rparr>, sample_world)"
proof -
  have "(of_int 0 :: rat) \<le> of_int a" "(of_int a :: rat) \<le> of_int 4400"
    using assms(2,3) by (simp_all only: of_int_le_iff)
  then have "priceCart env (sample_order_command m (of_int a)) sample_resolved = Inr sample_priced"
    using assms by (subst sample_pricing) simp_all
  then show ?thesis using sample_reads[of env m "of_int a"] sample_recorded[of a m] assms(2,3) by auto
qed

lemma sample_written:
  assumes "0 \<le> a" "a \<le> 4400"
  shows "\<exists>d'. writeOrder checkout_wiring (sample_order_command m (of_int a)) 44005 (sample_record m a sc) sample_db =
    Inr (''u'', d')"
proof -
  have n: "numeric_in (money_text 44005) = Inr 44005" "numeric_in (money_text 0) = Inr 0"
    "numeric_in (money_text 4400) = Inr 4400" "numeric_in (money_text 1000) = Inr 1000"
    "numeric_in (money_text 42005) = Inr 42005" "numeric_in (money_text a) = Inr a"
    using assms by (simp_all add: numeric_in_money_text)
  have q: "int4_in 2 = Inr 2" "int4_in 1 = Inr 1"
    using int4_in_of_int[of 2] int4_in_of_int[of 1] by simp_all
  have t: "poishaToTaka (of_int a) = Inr (money_text a)" using assms by (intro poishaToTaka_of_int) simp
  show ?thesis
    using assms
    by (simp add: writeOrder_def insertOrder_def insertItems_def insertItem_def recordStatusEvent_def
        insertPendingTransaction_def stmt_bind_def sample_record_def n q t sample_texts order_of_def item_of_def
        event_of_def transaction_of_def set_status_def sample_db_def sample_listing_def sample_location_def
        enqueue_def templateKeyFor_def channelsFor_def POLICIES_def enqueue_entry_def entry_for_def
        new_outbox_row_def language_ok_def channel_name_def)
qed

lemma sample_placed:
  assumes "m \<noteq> Escrow_Payment" "0 \<le> a" "a \<le> 4400" "m = Cod \<longrightarrow> a = 0"
  shows "\<exists>x w'. createOrder checkout_wiring env (sample_order_command m (of_int a)) sample_world = (Inr x, w') \<and>
    cr_orderId x = ''u''"
proof -
  obtain sc where p: "prepareOrder checkout_wiring env (sample_order_command m (of_int a)) sample_world =
    (Inr \<lparr>pp_priced = sample_priced, pp_sameCity = sc, pp_record = sample_record m a sc\<rparr>, sample_world)"
    using sample_prepared[OF assms] by blast
  obtain d' where w: "writeOrder checkout_wiring (sample_order_command m (of_int a)) 44005 (sample_record m a sc) sample_db =
      Inr (''u'', d')"
    using sample_written assms by blast
  have t: "poishaToTaka (of_int a) = Inr (money_text a)" using assms by (intro poishaToTaka_of_int) simp
  have "pc_total sample_priced = 44005" "cap_amount (pc_cap sample_priced) = 4400"
    by (simp_all add: sample_priced_def sample_cap_def)
  then show ?thesis
    using p w t by (simp add: createOrder_def transact_no_fault orderResult_def sample_texts)
qed

section \<open>Properties\<close>

text \<open>The schema's range of listing prices.\<close>

definition prices_ok :: "db \<Rightarrow> bool" where
  "prices_ok d \<longleftrightarrow> (\<forall>l\<in>set (listings d). 0 \<le> l_price_bdt l \<and> l_price_bdt l < 10 ^ 12)"

lemma resolved_price:
  assumes "prices_ok d" "resolved_from d r l"
  shows "rs_unitPrice r = of_int (l_price_bdt l)"
proof -
  have "\<bar>l_price_bdt l\<bar> < 2 ^ 53" using assms by (auto simp: prices_ok_def resolved_from_def)
  then show ?thesis
    using assms(2) takaToPoisha_money_text[of "l_price_bdt l"] by (simp add: resolved_from_def numeric_out_def)
qed

lemma prices_ok_started [simp]: "prices_ok (started w) = prices_ok (committed w)"
  by (simp add: prices_ok_def started_def)

lemma resolved_from_started [simp]: "resolved_from (started w) r l = resolved_from (committed w) r l"
  by (simp add: resolved_from_def started_def)

text \<open>
  C6. Order creation is all or nothing: when it fails, at any check, at any statement, or when
  the connection or the commit fails, no table has changed (at most the stored time is that of
  the reads) and no transaction is left open.
\<close>

theorem createOrder_all_or_nothing:
  assumes "inflight w = None" "createOrder checkout_wiring env command w = (Inl e, w')"
  shows "inflight w' = None \<and> (committed w' = committed w \<or> committed w' = (committed w)\<lparr>now_ts := clock w\<rparr>)"
  using wired.refused[OF assms] by (simp add: started_def)

theorem createOrder_all_or_nothing_witness:
  "\<exists>w'. createOrder checkout_wiring None ((sample_order_command Bkash 4000)\<lparr>co_lines := []\<rparr>) sample_world =
       (Inl (BadRequestException ''error.checkout.empty_cart''), w') \<and>
     (committed w' = sample_db \<or> committed w' = sample_db\<lparr>now_ts := 1000\<rparr>)"
proof -
  have e: "createOrder checkout_wiring None ((sample_order_command Bkash 4000)\<lparr>co_lines := []\<rparr>) sample_world =
      (Inl (BadRequestException ''error.checkout.empty_cart''), sample_world)"
    by (simp add: createOrder_def prepareOrder_def)
  show ?thesis using createOrder_all_or_nothing[OF _ e] e by simp
qed

text \<open>
  C21. A created order is complete: on success exactly one order in status \<open>created\<close> with a
  fresh id, one item row per requested line in the order of the cart, one timeline event, and
  one pending transaction are appended in the same commit; notifications are only appended and wait for their first attempt,
  and every other table is unchanged.
\<close>

theorem createOrder_rows:
  assumes "inflight w = None" "createOrder checkout_wiring env command w = (Inr x, w')"
  shows "\<exists>o1 items ev t. orders (committed w') = orders (committed w) @ [o1] \<and>
     o_id o1 = cr_orderId x \<and> cr_orderId x \<notin> o_id ` set (orders (committed w)) \<and> o_status o1 = Created \<and>
     o_customer_user_id o1 = co_customerUserId command \<and> o_merchant_role_id o1 = co_merchantRoleId command \<and>
     order_items (committed w') = order_items (committed w) @ items \<and>
     list_all2 (\<lambda>line row. oi_order_id row = cr_orderId x \<and> oi_listing_id row = rl_listingId line \<and>
        of_int (oi_quantity row) = rl_quantity line) (co_lines command) items \<and>
     status_events (committed w') = status_events (committed w) @ [ev] \<and>
     se_order_id ev = cr_orderId x \<and> se_from_status ev = None \<and> se_to_status ev = Created \<and>
     transactions (committed w') = transactions (committed w) @ [t] \<and>
     t_order_id t = cr_orderId x \<and> t_status t = Pending \<and>
     (\<exists>rows. outbox (committed w') = outbox (committed w) @ rows \<and> (\<forall>r\<in>set rows. queued r)) \<and>
     listings (committed w') = listings (committed w) \<and> users (committed w') = users (committed w) \<and>
     roles (committed w') = roles (committed w) \<and> locations (committed w') = locations (committed w) \<and>
     categories (committed w') = categories (committed w) \<and> kyc_submissions (committed w') = kyc_submissions (committed w)"
proof -
  obtain p where p: "prepareOrder checkout_wiring env command w = (Inr p, at_now w)"
    and wr: "writeOrder checkout_wiring command (pc_total (pp_priced p)) (pp_record p) (started w) =
      Inr (cr_orderId x, committed w')"
    using wired.placed[OF assms] by metis
  obtain resolved where rs: "cp_resolveCartLines checkout_wiring (co_lines command) (started w) = Inr (resolved, started w)"
    and rec: "orderRecord command resolved (pp_sameCity p) (pp_priced p) = Inr (pp_record p)"
    using wired.prepare_Inr[OF p] by metis
  have lines: "list_all2 (\<lambda>line row. oi_order_id row = i \<and> oi_listing_id row = rl_listingId line \<and>
      of_int (oi_quantity row) = rl_quantity line) (co_lines command) items"
    if "list_all2 (item_written i) (nr_items (pp_record p)) items" for i items
  proof (rule list_all2_trans[OF _ wired.catalog.aligned[OF rs] list_all2_trans[OF _ orderRecord_Inr(6)[OF rec] that]])
    show "item_written i item row \<Longrightarrow> item_record r1 = Inr item \<Longrightarrow> oi_order_id row = i \<and> oi_listing_id row = rs_listingId r1 \<and>
        of_int (oi_quantity row) = rs_quantity r1" for r1 item row
      by (auto simp: item_written_def item_record_Inr)
  qed (auto simp: same_line_def)
  show ?thesis
    using wr by (rule wired.write_Inr)
      (use lines orderRecord_Inr(7,8)[OF rec] in \<open>simp add: started_def order_of_def\<close>)
qed


theorem createOrder_rows_witness:
  "\<exists>(w' :: world) o1. orders (committed w') = [o1] \<and> o_id o1 = ''u'' \<and> o_status o1 = Created \<and>
     length (transactions (committed w')) = 1"
proof -
  obtain x w' where c: "createOrder checkout_wiring None (sample_order_command Bkash (of_int 4000)) sample_world = (Inr x, w')"
    "cr_orderId x = ''u''"
    using sample_placed[where m = Bkash and a = 4000 and env = None] by auto
  have "orders sample_db = []" "transactions sample_db = []" by (simp_all add: sample_db_def)
  then show ?thesis using createOrder_rows[OF _ c(1)] c(2) by (intro exI[of _ w']) auto
qed

lemma placed_order_rows:
  assumes "inflight w = None" "createOrder checkout_wiring env command w = (Inr x, w')"
  obtains resolved and p :: prepared_order and m pk pickup delivery subtotal fee total_bdt advance cap items t where
    "resolveCartLines (co_lines command) (started w) = Inr (resolved, started w)"
    "\<forall>line\<in>set resolved. orderable (co_merchantRoleId command) line"
    "findMerchant (co_merchantRoleId command) (started w) = Inr (m, started w)"
    "ms_isActive m" "ms_kycVerified m" "ms_pickupLocationId m = Some pk"
    "findById pk (started w) = Inr (pickup, started w)"
    "findById (co_deliveryLocationId command) (started w) = Inr (delivery, started w)"
    "pp_sameCity p = isSameCity pickup delivery" "priceCart env command resolved = Inr (pp_priced p)"
    "orderRecord command resolved (pp_sameCity p) (pp_priced p) = Inr (pp_record p)"
    "numeric_in (nr_subtotalBdt (pp_record p)) = Inr subtotal" "numeric_in (nr_deliveryFeeBdt (pp_record p)) = Inr fee"
    "numeric_in (nr_totalBdt (pp_record p)) = Inr total_bdt" "numeric_in (nr_advanceAmountBdt (pp_record p)) = Inr advance"
    "numeric_in (nr_advanceCapBdt (pp_record p)) = Inr cap" "0 \<le> total_bdt" "0 \<le> advance" "advance \<le> cap"
    "orders (committed w') = orders (committed w) @
       [order_of (cr_orderId x) (pp_record p) subtotal fee total_bdt advance cap]"
    "order_items (committed w') = order_items (committed w) @ items" "list_all2 snapshot resolved items"
    "transactions (committed w') = transactions (committed w) @ [t]" "t_status t = Pending"
    "t_is_advance t \<longleftrightarrow> co_paymentMethod command \<noteq> Cod"
    "of_int (t_amount_bdt t) = (if co_paymentMethod command = Cod then pc_total (pp_priced p) else co_requestedAdvance command)"
proof -
  obtain p where p: "prepareOrder checkout_wiring env command w = (Inr p, at_now w)"
    and wr: "writeOrder checkout_wiring command (pc_total (pp_priced p)) (pp_record p) (started w) =
      Inr (cr_orderId x, committed w')"
    using wired.placed[OF assms] by metis
  obtain resolved m pk pickup delivery where pr: 
    "resolveCartLines (co_lines command) (started w) = Inr (resolved, started w)"
    "\<forall>line\<in>set resolved. orderable (co_merchantRoleId command) line"
    "findMerchant (co_merchantRoleId command) (started w) = Inr (m, started w)"
    "ms_isActive m" "ms_kycVerified m" "ms_pickupLocationId m = Some pk"
    "findById pk (started w) = Inr (pickup, started w)"
    "findById (co_deliveryLocationId command) (started w) = Inr (delivery, started w)"
    "pp_sameCity p = isSameCity pickup delivery" "priceCart env command resolved = Inr (pp_priced p)"
    "orderRecord command resolved (pp_sameCity p) (pp_priced p) = Inr (pp_record p)"
    using wired.prepare_Inr[OF p] unfolding checkout_wiring_simps by metis
  show thesis
    using wr
  proof (rule wired.write_Inr, goal_cases)
    case (1 subtotal fee total_bdt advance cap items ev t amount)
    show ?case
      by (rule that[OF pr 1(3-7,9-11) _ _ snapshot_items[OF orderRecord_Inr(6)[OF pr(11)] 1(14)] _ 1(22,23)])
         (use 1(12,13,19,26,27) in \<open>simp_all add: started_def poishaToTaka_numeric\<close>)
  qed
qed


text \<open>
  C2. The amounts of a created order are right to the poisha: each item row keeps the catalog
  price and readiness of its listing, the subtotal is the sum of price times quantity of those
  rows, the total adds the delivery fee, the stored cap is the whole total for an escrow order
  or an order whose items are all ready to ship and a tenth rounded down otherwise, and the
  stored advance is the requested one, between zero and the cap.
\<close>

theorem createOrder_amounts:
  assumes "inflight w = None" "prices_ok (committed w)"
    and "createOrder checkout_wiring env command w = (Inr x, w')"
  shows "\<exists>o1 items. orders (committed w') = orders (committed w) @ [o1] \<and>
     order_items (committed w') = order_items (committed w) @ items \<and>
     (\<forall>row\<in>set items. \<exists>l\<in>set (listings (committed w)). l_id l = oi_listing_id row \<and>
        oi_unit_price_bdt row = l_price_bdt l \<and> oi_ready_to_ship_at_order row = l_ready_to_ship l) \<and>
     o_subtotal_bdt o1 = (\<Sum>row\<leftarrow>items. oi_unit_price_bdt row * oi_quantity row) \<and>
     o_total_bdt o1 = o_subtotal_bdt o1 + o_delivery_fee_bdt o1 \<and>
     of_int (o_delivery_fee_bdt o1) = co_deliveryFee command \<and>
     of_int (o_advance_amount_bdt o1) = co_requestedAdvance command \<and>
     o_advance_cap_bdt o1 = (if o_is_escrow o1 \<or> (\<forall>row\<in>set items. oi_ready_to_ship_at_order row)
        then o_total_bdt o1 else o_total_bdt o1 div 10) \<and>
     0 \<le> o_advance_amount_bdt o1 \<and> o_advance_amount_bdt o1 \<le> o_advance_cap_bdt o1"
  using assms(1,3)
proof (rule placed_order_rows, goal_cases)
  case (1 resolved p m pk pickup delivery subtotal fee total_bdt advance cap items t)
  have src: "\<exists>l. resolved_from (committed w) line l" if "line \<in> set resolved" for line
    using catalog.faithful[OF 1(1) that] by simp
  then have pos: "\<forall>line\<in>set resolved. 0 \<le> rs_unitPrice line \<and> 1 \<le> rs_quantity line"
    using 1(2) resolved_price[OF assms(2)] assms(2) by (fastforce simp: orderable_def prices_ok_def resolved_from_def)
  note amounts = priced_exact[OF 1(10,11,22) pos 1(12-17)]
  have rows: "\<exists>l\<in>set (listings (committed w)). l_id l = oi_listing_id row \<and>
        oi_unit_price_bdt row = l_price_bdt l \<and> oi_ready_to_ship_at_order row = l_ready_to_ship l"
    if row: "row \<in> set items" for row
  proof -
    obtain line where line: "line \<in> set resolved" "snapshot line row" using list_all2_in2[OF 1(22) row] by blast
    obtain l where l: "resolved_from (committed w) line l" using src[OF line(1)] by blast
    have "rs_unitPrice line = of_int (l_price_bdt l)" by (rule resolved_price[OF assms(2) l])
    then have "oi_unit_price_bdt row = l_price_bdt l" using line(2) by (simp add: snapshot_def)
    then show ?thesis
      using line(2) l by (intro bexI[of _ l]) (simp_all add: snapshot_def resolved_from_def)
  qed
  show ?case
    using 1(18,19,20,21) rows amounts(1-5)
    by (intro exI[of _ "order_of (cr_orderId x) (pp_record p) subtotal fee total_bdt advance cap"] exI[of _ items])
       (simp add: order_of_def items_total_def cap_rule_def)
qed

theorem createOrder_amounts_witness:
  "\<exists>(w' :: world) o1. orders (committed w') = [o1] \<and> o_advance_amount_bdt o1 = 4000 \<and>
     0 \<le> o_advance_amount_bdt o1 \<and> o_advance_amount_bdt o1 \<le> o_advance_cap_bdt o1"
proof -
  obtain x w' where c: "createOrder checkout_wiring None (sample_order_command Bkash (of_int 4000)) sample_world = (Inr x, w')"
    using sample_placed[where m = Bkash and a = 4000 and env = None] by auto
  have "orders sample_db = []" "prices_ok sample_db" by (simp_all add: sample_db_def prices_ok_def sample_listing_def)
  then show ?thesis using createOrder_amounts[OF _ _ c] by (intro exI[of _ w']) auto
qed

text \<open>
  C18. Who may sell what: an order is created only when its merchant is an active merchant role
  with verified KYC and a pickup address, and every line is an active listing of that merchant,
  outside the prohibited and licence-bound categories, with a quantity of at least one and at
  most the listed stock.
\<close>

theorem createOrder_eligibility:
  assumes "inflight w = None" "createOrder checkout_wiring env command w = (Inr x, w')"
  shows "\<exists>pk. may_transact (committed w) (co_merchantRoleId command) pk \<and>
     (\<forall>line\<in>set (co_lines command). 1 \<le> rl_quantity line \<and>
        (\<exists>l\<in>set (listings (committed w)). l_id l = rl_listingId line \<and> l_is_active l \<and>
           l_owner_role_id l = co_merchantRoleId command \<and>
           (\<forall>n. l_stock_qty l = Some n \<longrightarrow> rl_quantity line \<le> of_int n) \<and>
           (\<exists>c\<in>set (categories (committed w)). c_id c = l_category_id l \<and>
              \<not> c_is_restricted c \<and> \<not> c_requires_dgda_licence c)))"
  using assms
proof (rule placed_order_rows, goal_cases)
  case (1 resolved p m pk pickup delivery subtotal fee total_bdt advance cap items t)
  have "may_transact (committed w) (co_merchantRoleId command) pk"
    using merchant.eligible[OF 1(3-6)] by (simp add: may_transact_def started_def)
  moreover have "1 \<le> rl_quantity line \<and>
        (\<exists>l\<in>set (listings (committed w)). l_id l = rl_listingId line \<and> l_is_active l \<and>
           l_owner_role_id l = co_merchantRoleId command \<and>
           (\<forall>n. l_stock_qty l = Some n \<longrightarrow> rl_quantity line \<le> of_int n) \<and>
           (\<exists>c\<in>set (categories (committed w)). c_id c = l_category_id l \<and>
              \<not> c_is_restricted c \<and> \<not> c_requires_dgda_licence c))"
    if line: "line \<in> set (co_lines command)" for line
  proof -
    obtain r where r: "r \<in> set resolved" "same_line line r"
      using list_all2_in1[OF catalog.aligned[OF 1(1)] line] by blast
    obtain l where "resolved_from (committed w) r l" using catalog.faithful[OF 1(1) r(1)] by auto
    then show ?thesis
      using 1(2) r unfolding orderable_def same_line_def resolved_from_def by (metis (full_types))
  qed
  ultimately show ?case by blast
qed

theorem createOrder_eligibility_witness: "\<exists>pk. may_transact sample_db ''shop'' pk"
proof -
  obtain x w' where c: "createOrder checkout_wiring None (sample_order_command Bkash (of_int 4000)) sample_world = (Inr x, w')"
    using sample_placed[where m = Bkash and a = 4000 and env = None] by auto
  show ?thesis using createOrder_eligibility[OF _ c] by auto
qed


text \<open>
  The pending payment matches the method: a cash-on-delivery order carries no advance and
  its payment is the whole total, not an advance; any other order's payment is an advance of
  exactly the requested amount. Nothing is settled and the delivery clock has not started.
\<close>

theorem createOrder_pending_payment:
  assumes "inflight w = None" "createOrder checkout_wiring env command w = (Inr x, w')"
  shows "\<exists>o1 t. orders (committed w') = orders (committed w) @ [o1] \<and>
     transactions (committed w') = transactions (committed w) @ [t] \<and> t_status t = Pending \<and>
     (if co_paymentMethod command = Cod
      then o_advance_amount_bdt o1 = 0 \<and> t_amount_bdt t = o_total_bdt o1 \<and> \<not> t_is_advance t
      else t_amount_bdt t = o_advance_amount_bdt o1 \<and> t_is_advance t) \<and>
     o_advance_paid_at o1 = None \<and> o_delivery_deadline_at o1 = None"
  using assms
proof (rule placed_order_rows, goal_cases)
  case (1 resolved p m pk pickup delivery subtotal fee total_bdt advance cap items t)
  have "co_requestedAdvance command = of_int advance" "pc_total (pp_priced p) = of_int total_bdt"
    using orderRecord_Inr(3,4)[OF 1(11)] 1(14,15) by (simp_all add: poishaToTaka_numeric)
  then show ?case
    using 1(20,23-26) priceCart_Inr(7)[OF 1(10)]
    by (intro exI[of _ "order_of (cr_orderId x) (pp_record p) subtotal fee total_bdt advance cap"] exI[of _ t])
       (simp add: order_of_def split: if_splits)
qed

theorem createOrder_pending_payment_witness:
  "\<exists>(w' :: world) o1 t. orders (committed w') = [o1] \<and> transactions (committed w') = [t] \<and>
     t_amount_bdt t = o_total_bdt o1 \<and> \<not> t_is_advance t"
proof -
  obtain x w' where c: "createOrder checkout_wiring None (sample_order_command Cod (of_int 0)) sample_world = (Inr x, w')"
    using sample_placed[where m = Cod and a = 0 and env = None] by auto
  have "orders sample_db = []" "transactions sample_db = []" by (simp_all add: sample_db_def)
  then show ?thesis using createOrder_pending_payment[OF _ c] by (intro exI[of _ w']) auto
qed

text \<open>
  The compliance flags of an order come from stored data, not from the client: same-city is
  the comparison of the merchant's pickup address with the delivery address as stored, escrow
  is set exactly for the escrow method with the provider enabled in the environment, and the
  ready-to-ship flag says that every item row of the order is ready to ship.
\<close>

theorem createOrder_flags:
  assumes "inflight w = None" "prices_ok (committed w)"
    and "createOrder checkout_wiring env command w = (Inr x, w')"
  shows "\<exists>o1 items pk a b. orders (committed w') = orders (committed w) @ [o1] \<and>
     order_items (committed w') = order_items (committed w) @ items \<and>
     may_transact (committed w) (co_merchantRoleId command) pk \<and>
     a \<in> set (locations (committed w)) \<and> loc_id a = pk \<and>
     b \<in> set (locations (committed w)) \<and> loc_id b = co_deliveryLocationId command \<and>
     (o_is_same_city o1 \<longleftrightarrow> normalise (loc_division a) = normalise (loc_division b) \<and>
        normalise (loc_district a) = normalise (loc_district b)) \<and>
     (o_is_escrow o1 \<longleftrightarrow> co_paymentMethod command = Escrow_Payment \<and> env = Some ''true'') \<and>
     (o_all_items_ready_to_ship o1 \<longleftrightarrow> (\<forall>row\<in>set items. oi_ready_to_ship_at_order row))"
  using assms(1,3)
proof (rule placed_order_rows, goal_cases)
  case (1 resolved p m pk pickup delivery subtotal fee total_bdt advance cap items t)
  have pos: "\<forall>line\<in>set resolved. 0 \<le> rs_unitPrice line \<and> 1 \<le> rs_quantity line"
  proof
    fix line assume line: "line \<in> set resolved"
    obtain l where l: "resolved_from (committed w) line l" using catalog.faithful[OF 1(1) line] by auto
    then show "0 \<le> rs_unitPrice line \<and> 1 \<le> rs_quantity line"
      using 1(2) line resolved_price[OF assms(2) l] assms(2) by (auto simp: orderable_def prices_ok_def resolved_from_def)
  qed
  note amounts = priced_exact[OF 1(10,11,22) pos 1(12-17)]
  have may: "may_transact (committed w) (co_merchantRoleId command) pk"
    using merchant.eligible[OF 1(3-6)] by (simp add: may_transact_def started_def)
  obtain a b where ab: "a \<in> set (locations (committed w))" "loc_id a = pk" "pickup = resolved_of a"
    "b \<in> set (locations (committed w))" "loc_id b = co_deliveryLocationId command" "delivery = resolved_of b"
    using 1(7,8) by (auto simp: findById_eq started_def split: option.splits dest!: find_Some_in)
  have "nr_isSameCity (pp_record p) \<longleftrightarrow> isSameCity (resolved_of a) (resolved_of b)"
    using orderRecord_Inr(13)[OF 1(11)] 1(9) ab by simp
  then show ?case
    using 1(20,21) may ab amounts(6,7)
    by (intro exI[of _ "order_of (cr_orderId x) (pp_record p) subtotal fee total_bdt advance cap"] exI[of _ items]
          exI[of _ pk] exI[of _ a] exI[of _ b])
       (simp add: order_of_def isSameCity_def resolved_of_def escrowEnabled_def)
qed

theorem createOrder_flags_witness:
  "\<exists>(w' :: world) o1. orders (committed w') = [o1] \<and> \<not> o_is_escrow o1"
proof -
  obtain x w' where c: "createOrder checkout_wiring None (sample_order_command Bkash (of_int 4000)) sample_world = (Inr x, w')"
    using sample_placed[where m = Bkash and a = 4000 and env = None] by auto
  have "orders sample_db = []" "prices_ok sample_db" by (simp_all add: sample_db_def prices_ok_def sample_listing_def)
  then show ?thesis using createOrder_flags[OF _ _ c] by (intro exI[of _ w']) auto
qed

text \<open>
  The stock check looks at one line at a time: a cart that repeats an acceptable line any
  number of times is as acceptable as the single line, although together the lines may ask for
  more than the listed stock.
\<close>

theorem stock_check_is_per_line:
  "assertCartIsOrderable (replicate (Suc k) line) merchantRoleId = assertCartIsOrderable [line] merchantRoleId"
proof (induction k)
  case (Suc k)
  have "assertCartIsOrderable (replicate (Suc (Suc k)) line) merchantRoleId =
      sum_bind (check_line merchantRoleId line) (\<lambda>_. assertCartIsOrderable [line] merchantRoleId)"
    using Suc by simp
  then show ?case by (cases "check_line merchantRoleId line") simp_all
qed simp

end
