(* ===== verification/Payment.thy ===== *)
theory Payment
  imports OrderRepo Notification
begin

text \<open>
  The payment module: \<open>payment.repository.ts\<close> and \<open>payment.service.ts\<close>. A settlement
  notice of an aggregator is applied in one transaction that reads and marks the pending
  payment, moves the order forward through the order port, queues the notification and starts
  the delivery clock.
\<close>

section \<open>Repository\<close>

definition carries_ref :: "string \<Rightarrow> string \<Rightarrow> transaction_row \<Rightarrow> bool" where
  "carries_ref aggregator ref t \<longleftrightarrow> t_aggregator t = Some aggregator \<and> t_aggregator_ref t = Some ref"

definition findByAggregatorRef :: "string \<Rightarrow> string \<Rightarrow> transaction_row option sql" where
  "findByAggregatorRef aggregator ref =
     read_db (\<lambda>d. first_row (filter (carries_ref aggregator ref) (transactions d)))"

definition pending_for :: "string \<Rightarrow> transaction_row \<Rightarrow> bool" where
  "pending_for orderId t \<longleftrightarrow> t_order_id t = orderId \<and> t_status t = Pending"

definition findPendingForOrder :: "string \<Rightarrow> transaction_row option sql" where
  "findPendingForOrder orderId =
     read_db (\<lambda>d. first_row (take 1 (sort_key t_occurred_at (filter (pending_for orderId) (transactions d)))))"

text \<open>
  \<open>UPDATE ... WHERE id = $1\<close> setting the reference: \<open>UNIQUE (aggregator, aggregator_ref)\<close>
  refuses it when another row carries the reference already.
\<close>

definition ref_free :: "string \<Rightarrow> string \<Rightarrow> string \<Rightarrow> db \<Rightarrow> bool" where
  "ref_free i aggregator ref d \<longleftrightarrow>
     i \<notin> t_id ` set (transactions d) \<or> (\<forall>t\<in>set (transactions d). carries_ref aggregator ref t \<longrightarrow> t_id t = i)"

definition settled_row :: "string \<Rightarrow> string \<Rightarrow> int \<Rightarrow> transaction_row \<Rightarrow> transaction_row" where
  "settled_row aggregator ref paid t =
     t\<lparr>t_status := Settled, t_aggregator := Some aggregator, t_aggregator_ref := Some ref, t_settled_at := Some paid\<rparr>"

definition markSettled :: "string \<Rightarrow> string \<Rightarrow> string \<Rightarrow> date \<Rightarrow> unit sql" where
  "markSettled i aggregator ref settledAt =
     stmt_bind (stmt_lift (timestamptz_in settledAt)) (\<lambda>paid.
     stmt_bind (\<lambda>d. unique (ref_free i aggregator ref d) d) (\<lambda>_.
       write_db (\<lambda>d. d\<lparr>transactions := update_rows (\<lambda>t. t_id t = i) (settled_row aggregator ref paid) (transactions d)\<rparr>)))"

definition refused_row :: "string \<Rightarrow> string \<Rightarrow> transaction_row \<Rightarrow> transaction_row" where
  "refused_row aggregator ref t =
     t\<lparr>t_status := Failed, t_aggregator := Some aggregator, t_aggregator_ref := Some ref\<rparr>"

definition markPaymentFailed :: "string \<Rightarrow> string \<Rightarrow> string \<Rightarrow> unit sql" where
  "markPaymentFailed i aggregator ref =
     stmt_bind (\<lambda>d. unique (ref_free i aggregator ref d) d) (\<lambda>_.
       write_db (\<lambda>d. d\<lparr>transactions := update_rows (\<lambda>t. t_id t = i) (refused_row aggregator ref) (transactions d)\<rparr>))"

section \<open>Service\<close>

datatype outcome = Outcome_Settled | Outcome_Failed

record settlement_notice =
  sn_orderId :: string
  sn_aggregator :: string
  sn_aggregatorRef :: string
  sn_amount :: number
  sn_outcome :: outcome
  sn_occurredAt :: date

datatype settlement_result =
    Applied string "date option"
  | Duplicate string
  | Rejected string

record settlement_ports =
  sp_findForSettlement :: "string \<Rightarrow> order_for_settlement option sql"
  sp_findCustomer :: "string \<Rightarrow> string option sql"
  sp_transitionStatus :: "string \<Rightarrow> order_status \<Rightarrow> string \<Rightarrow> unit sql"
  sp_startDeliveryClock :: "string \<Rightarrow> date \<Rightarrow> date \<Rightarrow> unit sql"
  sp_enqueue :: "notification_request \<Rightarrow> unit sql"

definition settlement_wiring :: settlement_ports where
  "settlement_wiring =
     \<lparr>sp_findForSettlement = findForSettlement, sp_findCustomer = findCustomer,
      sp_transitionStatus = transitionStatus, sp_startDeliveryClock = startDeliveryClock, sp_enqueue = enqueue\<rparr>"

definition notifyCustomer :: "settlement_ports \<Rightarrow> settlement_notice \<Rightarrow> string \<Rightarrow> unit sql" where
  "notifyCustomer P notice event =
     stmt_bind (sp_findCustomer P (sn_orderId notice)) (\<lambda>customer.
     case customer of
       None \<Rightarrow> stmt_return ()
     | Some user \<Rightarrow>
         stmt_bind (stmt_lift (poishaToTaka (sn_amount notice))) (\<lambda>amount.
           sp_enqueue P
             \<lparr>rq_userId = user, rq_event = event,
              rq_params = [(''orderRef'', take 8 (sn_orderId notice)), (''amount'', amount)],
              rq_orderId = Some (sn_orderId notice),
              rq_dedupeKey = ''settle:'' @ sn_aggregator notice @ '':'' @ sn_aggregatorRef notice @ '':'' @ event\<rparr>))"

text \<open>The delivery clock: only an advance starts it, and only once.\<close>

definition runClock :: "settlement_ports \<Rightarrow> settlement_notice \<Rightarrow> transaction_row \<Rightarrow> settlement_result sql" where
  "runClock P notice pending =
     (if \<not> t_is_advance pending then stmt_return (Applied (sn_orderId notice) None)
      else
        stmt_bind (sp_findForSettlement P (sn_orderId notice)) (\<lambda>row.
        case row of
          None \<Rightarrow> stmt_return (Rejected ''order_not_found'')
        | Some order \<Rightarrow>
            if os_advancePaidAt order \<noteq> None then stmt_return (Applied (sn_orderId notice) None)
            else
              stmt_bind (stmt_lift (computeDeliveryDeadline (sn_occurredAt notice) (os_isSameCity order))) (\<lambda>deadline.
              stmt_bind (sp_startDeliveryClock P (sn_orderId notice) (sn_occurredAt notice) (deadlineAt deadline)) (\<lambda>_.
                stmt_return (Applied (sn_orderId notice) (Some (deadlineAt deadline)))))))"

definition settle :: "settlement_ports \<Rightarrow> settlement_notice \<Rightarrow> transaction_row \<Rightarrow> settlement_result sql" where
  "settle P notice pending =
     stmt_bind (markSettled (t_id pending) (sn_aggregator notice) (sn_aggregatorRef notice) (sn_occurredAt notice)) (\<lambda>_.
     stmt_bind (sp_transitionStatus P (sn_orderId notice) Confirmed ''order.event.payment_received'') (\<lambda>_.
     stmt_bind (notifyCustomer P notice ''payment_received'') (\<lambda>_.
       runClock P notice pending)))"

definition recordFailure :: "settlement_ports \<Rightarrow> settlement_notice \<Rightarrow> transaction_row \<Rightarrow> settlement_result sql" where
  "recordFailure P notice pending =
     stmt_bind (markPaymentFailed (t_id pending) (sn_aggregator notice) (sn_aggregatorRef notice)) (\<lambda>_.
     stmt_bind (sp_transitionStatus P (sn_orderId notice) Awaiting_Payment ''order.event.payment_failed'') (\<lambda>_.
     stmt_bind (notifyCustomer P notice ''payment_failed'') (\<lambda>_.
       stmt_return (Applied (sn_orderId notice) None))))"

definition applyToPending :: "settlement_ports \<Rightarrow> settlement_notice \<Rightarrow> transaction_row \<Rightarrow> settlement_result sql" where
  "applyToPending P notice pending =
     stmt_bind (stmt_lift (takaToPoisha (numeric_out (t_amount_bdt pending)))) (\<lambda>expected.
       if sn_amount notice \<noteq> expected then stmt_return (Rejected ''amount_mismatch'')
       else if sn_outcome notice = Outcome_Failed then recordFailure P notice pending
       else settle P notice pending)"

definition settlementWork :: "settlement_ports \<Rightarrow> settlement_notice \<Rightarrow> settlement_result sql" where
  "settlementWork P notice =
     stmt_bind (findByAggregatorRef (sn_aggregator notice) (sn_aggregatorRef notice)) (\<lambda>existing.
     case existing of
       Some t \<Rightarrow> stmt_return (Duplicate (t_order_id t))
     | None \<Rightarrow>
         stmt_bind (findPendingForOrder (sn_orderId notice)) (\<lambda>row.
         case row of
           None \<Rightarrow> stmt_return (Rejected ''no_pending_transaction'')
         | Some pending \<Rightarrow> applyToPending P notice pending))"

definition applySettlement :: "settlement_ports \<Rightarrow> settlement_notice \<Rightarrow> ('z world_scheme, settlement_result) act" where
  "applySettlement P notice = transact (settlementWork P notice)"

section \<open>Repository facts\<close>

lemma findByAggregatorRef_eq:
  "findByAggregatorRef a r d = Inr (find (carries_ref a r) (transactions d), d)"
  by (simp add: findByAggregatorRef_def first_row_filter)

lemma first_row_take: "first_row (take (Suc n) xs) = first_row xs"
  by (cases xs) auto

lemma findPendingForOrder_eq:
  "findPendingForOrder i d = Inr (first_row (sort_key t_occurred_at (filter (pending_for i) (transactions d))), d)"
  by (simp add: findPendingForOrder_def first_row_take numeral_eq_Suc)

lemma first_pending:
  "first_row (sort_key t_occurred_at (filter (pending_for i) ts)) = Some p \<Longrightarrow> p \<in> set ts \<and> pending_for i p"
  by (drule first_row_Some) simp

lemma no_first_pending:
  "first_row (sort_key t_occurred_at (filter (pending_for i) ts)) = None \<longleftrightarrow> (\<forall>t\<in>set ts. \<not> pending_for i t)"
proof -
  have "first_row (sort_key t_occurred_at (filter (pending_for i) ts)) = None \<longleftrightarrow>
      set (sort_key t_occurred_at (filter (pending_for i) ts)) = {}"
    by (cases "sort_key t_occurred_at (filter (pending_for i) ts)") auto
  then show ?thesis by (auto simp: filter_empty_conv)
qed

lemma markSettled_Inr:
  "markSettled i a r time d = Inr (x, d') \<longleftrightarrow>
     (\<exists>s. time = Some s \<and> ref_free i a r d \<and>
        d' = d\<lparr>transactions := update_rows (\<lambda>t. t_id t = i) (settled_row a r s) (transactions d)\<rparr>)"
  by (auto simp: markSettled_def stmt_bind_Inr_iff stmt_lift_Inr_iff timestamptz_in_def split: option.splits if_splits)

lemma markPaymentFailed_Inr:
  "markPaymentFailed i a r d = Inr (x, d') \<longleftrightarrow> ref_free i a r d \<and>
     d' = d\<lparr>transactions := update_rows (\<lambda>t. t_id t = i) (refused_row a r) (transactions d)\<rparr>"
  by (auto simp: markPaymentFailed_def stmt_bind_Inr_iff split: if_splits)


lemma not_pending_refused [simp]: "\<not> pending_for i (refused_row a r t)"
  by (simp add: pending_for_def refused_row_def)

lemma not_pending_settled [simp]: "\<not> pending_for i (settled_row a r s t)"
  by (simp add: pending_for_def settled_row_def)

lemma settled_row_id [simp]: "t_id (settled_row a r s t) = t_id t" "t_id (refused_row a r t) = t_id t"
  by (simp_all add: settled_row_def refused_row_def)

text \<open>Marking a row leaves the reference free for that same row.\<close>

lemma ref_free_settled:
  assumes "ref_free i a r d" "transactions d1 = update_rows (\<lambda>t. t_id t = i) (settled_row a r s) (transactions d)"
  shows "ref_free i a r d1"
proof -
  have ids: "t_id ` set (transactions d1) = t_id ` set (transactions d)"
    unfolding assms(2) set_map[symmetric] by (subst update_rows_map) simp_all
  have "t_id t = i" if prem: "t \<in> set (transactions d1)" "carries_ref a r t" "i \<in> t_id ` set (transactions d)" for t
  proof -
    obtain t0 where t0: "t0 \<in> set (transactions d)" "t = (if t_id t0 = i then settled_row a r s t0 else t0)"
      using prem(1) unfolding assms(2) in_update_rows by blast
    show ?thesis
    proof (cases "t_id t0 = i")
      case False
      then show ?thesis using t0 prem(2,3) assms(1) by (simp add: ref_free_def)
    qed (simp add: t0(2))
  qed
  then show ?thesis using ids by (auto simp: ref_free_def)
qed

section \<open>What a settlement does\<close>

text \<open>
  The specification of a settlement: the due times the clock is stamped with, when it is
  stamped at all, and the row an order becomes.
\<close>

definition clock_due :: "settlement_notice \<Rightarrow> transaction_row \<Rightarrow> order_row \<Rightarrow> (int \<times> int) option" where
  "clock_due notice pending o1 =
     (if t_is_advance pending \<and> o_advance_paid_at o1 = None
      then map_option (\<lambda>t. (t, t + deliveryWindowDays (o_is_same_city o1) * MS_PER_DAY)) (sn_occurredAt notice)
      else None)"

definition confirmed_row :: "(int \<times> int) option \<Rightarrow> order_row \<Rightarrow> order_row" where
  "confirmed_row due o1 =
     (case due of None \<Rightarrow> o1\<lparr>o_status := Confirmed\<rparr>
      | Some (paid, deadline) \<Rightarrow> stamp_row paid deadline (o1\<lparr>o_status := Confirmed\<rparr>))"

lemma update_rows_compose:
  assumes "\<And>r. key (f r) = key r"
  shows "update_rows (\<lambda>r. key r = i) g (update_rows (\<lambda>r. key r = i) f rows) =
    update_rows (\<lambda>r. key r = i) (\<lambda>r. g (f r)) rows"
  using assms by (induction rows) auto

locale settlement =
  orders: order_port "sp_findForSettlement P" "sp_findCustomer P" "sp_transitionStatus P" "sp_startDeliveryClock P" +
  notifications: notification_port "sp_enqueue P"
  for P :: settlement_ports
begin

lemma notify_grows: "notifyCustomer P notice event d = Inr (x, d') \<Longrightarrow> outbox_grows d d'"
  by (auto simp: notifyCustomer_def stmt_bind_Inr_iff stmt_lift_Inr_iff orders.customer
      split: option.splits dest: notifications.appends)

lemma notify_again:
  assumes "notifyCustomer P notice event d = Inr (x, d1)" "users d2 = users d1" "outbox d2 = outbox d1"
    and "map_option o_customer_user_id (find_order (sn_orderId notice) d2) =
      map_option o_customer_user_id (find_order (sn_orderId notice) d)"
  shows "notifyCustomer P notice event d2 = Inr ((), d2)"
proof (cases "find_order (sn_orderId notice) d")
  case None
  then show ?thesis using assms(4) by (simp add: notifyCustomer_def orders.customer stmt_bind_def)
next
  case (Some o1)
  then obtain amount where a: "poishaToTaka (sn_amount notice) = Inr amount"
    and q: "sp_enqueue P \<lparr>rq_userId = o_customer_user_id o1, rq_event = event,
              rq_params = [(''orderRef'', take 8 (sn_orderId notice)), (''amount'', amount)],
              rq_orderId = Some (sn_orderId notice),
              rq_dedupeKey = ''settle:'' @ sn_aggregator notice @ '':'' @ sn_aggregatorRef notice @ '':'' @ event\<rparr> d = Inr (x, d1)"
    using assms(1) by (auto simp: notifyCustomer_def orders.customer stmt_bind_Inr_iff stmt_lift_Inr_iff)
  obtain o2 where "find_order (sn_orderId notice) d2 = Some o2" "o_customer_user_id o2 = o_customer_user_id o1"
    using assms(4) Some by auto
  then show ?thesis
    using a notifications.repeated[OF q refl refl refl assms(2)] assms(3)
    by (simp add: notifyCustomer_def orders.customer stmt_bind_def)
qed

lemma runClock_Inr:
  assumes "runClock P notice pending d = Inr (res, d')" "find_order (sn_orderId notice) d = Some o1"
  shows "order_frame d d' \<and> status_events d' = status_events d \<and>
    (t_is_advance pending \<and> o_advance_paid_at o1 = None \<longrightarrow> sn_occurredAt notice \<noteq> None) \<and>
    res = Applied (sn_orderId notice) (map_option (Some \<circ> snd) (clock_due notice pending o1)) \<and>
    orders d' = (case clock_due notice pending o1 of None \<Rightarrow> orders d
      | Some (paid, deadline) \<Rightarrow> update_rows (\<lambda>o1. o_id o1 = sn_orderId notice) (stamp_row paid deadline) (orders d))"
proof (cases "t_is_advance pending \<and> o_advance_paid_at o1 = None")
  case False
  then have "d' = d \<and> res = Applied (sn_orderId notice) None"
    using assms by (auto simp: runClock_def stmt_bind_Inr_iff orders.settlement_facts split: if_splits)
  then show ?thesis using False order_frame_orders[of d "orders d"] by (auto simp: clock_due_def)
next
  case True
  then obtain deadline x where c: "computeDeliveryDeadline (sn_occurredAt notice) (o_is_same_city o1) = Inr deadline"
    "sp_startDeliveryClock P (sn_orderId notice) (sn_occurredAt notice) (deadlineAt deadline) d = Inr (x, d')"
    "res = Applied (sn_orderId notice) (Some (deadlineAt deadline))"
    using assms by (auto simp: runClock_def stmt_bind_Inr_iff stmt_lift_Inr_iff orders.settlement_facts split: if_splits)
  obtain t where t: "sn_occurredAt notice = Some t"
    "deadlineAt deadline = mk_date (t + deliveryWindowDays (o_is_same_city o1) * MS_PER_DAY)"
    using c(1) by (auto simp: computeDeliveryDeadline_def Let_def split: option.splits)
  from orders.clock_effect[OF c(2)] obtain due where e: "order_frame d d'" "status_events d' = status_events d"
    "deadlineAt deadline = Some due" "orders d' = update_rows (\<lambda>o1. o_id o1 = sn_orderId notice) (stamp_row t due) (orders d)"
    using t(1) by auto
  then have "due = t + deliveryWindowDays (o_is_same_city o1) * MS_PER_DAY" using t(2) by (simp add: mk_date_def split: if_splits)
  then show ?thesis using True t(1) e c(3) by (simp add: clock_due_def)
qed

lemma settle_Inr:
  assumes "settle P notice pending d = Inr (res, d')"
  obtains t o1 e where "sn_occurredAt notice = Some t"
    "ref_free (t_id pending) (sn_aggregator notice) (sn_aggregatorRef notice) d"
    "find_order (sn_orderId notice) d = Some o1"
    "transactions d' = update_rows (\<lambda>t1. t_id t1 = t_id pending)
       (settled_row (sn_aggregator notice) (sn_aggregatorRef notice) t) (transactions d)"
    "orders d' = update_rows (\<lambda>o1. o_id o1 = sn_orderId notice) (confirmed_row (clock_due notice pending o1)) (orders d)"
    "status_events d' = status_events d @ [e]" "se_order_id e = sn_orderId notice" "se_to_status e = Confirmed"
    "se_from_status e = Some (o_status o1)"
    "res = Applied (sn_orderId notice) (map_option (Some \<circ> snd) (clock_due notice pending o1))"
    "order_items d' = order_items d" "users d' = users d" "roles d' = roles d" "listings d' = listings d"
    "\<exists>rows. outbox d' = outbox d @ rows \<and> (\<forall>r\<in>set rows. queued r)"
    "locations d' = locations d" "categories d' = categories d" "kyc_submissions d' = kyc_submissions d"
    "\<And>d2. users d2 = users d' \<Longrightarrow> outbox d2 = outbox d' \<Longrightarrow>
      map_option o_customer_user_id (find_order (sn_orderId notice) d2) = Some (o_customer_user_id o1) \<Longrightarrow>
      notifyCustomer P notice ''payment_received'' d2 = Inr ((), d2)"
proof -
  obtain d1 d2 d3 x1 x2 x3 where
    1: "markSettled (t_id pending) (sn_aggregator notice) (sn_aggregatorRef notice) (sn_occurredAt notice) d = Inr (x1, d1)"
    and 2: "sp_transitionStatus P (sn_orderId notice) Confirmed ''order.event.payment_received'' d1 = Inr (x2, d2)"
    and 3: "notifyCustomer P notice ''payment_received'' d2 = Inr (x3, d3)"
    and 4: "runClock P notice pending d3 = Inr (res, d')"
    using assms by (auto simp: settle_def stmt_bind_Inr_iff)
  obtain t where t: "sn_occurredAt notice = Some t"
    "ref_free (t_id pending) (sn_aggregator notice) (sn_aggregatorRef notice) d"
    "d1 = d\<lparr>transactions := update_rows (\<lambda>t1. t_id t1 = t_id pending)
       (settled_row (sn_aggregator notice) (sn_aggregatorRef notice) t) (transactions d)\<rparr>"
    using 1 by (auto simp: markSettled_Inr)
  obtain e where e: "order_frame d1 d2" "orders d2 = set_status (sn_orderId notice) Confirmed (orders d1)"
    "status_events d2 = status_events d1 @ [e]" "se_order_id e = sn_orderId notice" "se_to_status e = Confirmed"
    "se_from_status e = map_option o_status (find_order (sn_orderId notice) d1)"
    using orders.transition_effect[OF 2] by blast
  have fo: "find_order (sn_orderId notice) d1 = find_order (sn_orderId notice) d" using t(3) by (simp add: find_order_def)
  then obtain o1 where o1: "find_order (sn_orderId notice) d = Some o1" using orders.transition_known[OF 2] by auto
  note n = outbox_grows_same[OF notify_grows[OF 3]]
  have "find_order (sn_orderId notice) d3 = Some (o1\<lparr>o_status := Confirmed\<rparr>)"
    using o1 fo e(2) n(1) unfolding find_order_eq set_status_def by (simp add: find_update_rows)
  from runClock_Inr[OF 4 this]
  have r: "order_frame d3 d'" "status_events d' = status_events d3"
    "res = Applied (sn_orderId notice) (map_option (Some \<circ> snd) (clock_due notice pending o1))"
    "orders d' = (case clock_due notice pending o1 of None \<Rightarrow> orders d3
      | Some (paid, deadline) \<Rightarrow> update_rows (\<lambda>o1. o_id o1 = sn_orderId notice) (stamp_row paid deadline) (orders d3))"
    by (simp_all add: clock_due_def)
  have o3: "orders d3 = update_rows (\<lambda>o1. o_id o1 = sn_orderId notice) (\<lambda>o1. o1\<lparr>o_status := Confirmed\<rparr>) (orders d)"
    using n(1) e(2) t(3) by (simp add: set_status_def)
  have os: "orders d' = update_rows (\<lambda>o1. o_id o1 = sn_orderId notice) (confirmed_row (clock_due notice pending o1)) (orders d)"
    unfolding r(4) o3
    by (auto simp: update_rows_compose confirmed_row_def[abs_def] split: option.splits)
  have sf: "se_from_status e = Some (o_status o1)" using e(6) fo o1 by simp
  have fo2: "map_option o_customer_user_id (find_order (sn_orderId notice) d2) = Some (o_customer_user_id o1)"
    using o1 fo e(2) unfolding find_order_eq set_status_def by (simp add: find_update_rows)
  have again: "notifyCustomer P notice ''payment_received'' d4 = Inr ((), d4)"
    if "users d4 = users d'" "outbox d4 = outbox d'"
      "map_option o_customer_user_id (find_order (sn_orderId notice) d4) = Some (o_customer_user_id o1)" for d4
    using notify_again[OF 3, of d4] that fo2 order_frame_same[OF r(1)] by simp
  obtain rows where rows: "outbox d3 = outbox d2 @ rows" "\<forall>r\<in>set rows. queued r" using notify_grows[OF 3] by (auto simp: outbox_grows_def)
  show thesis
    by (rule that[OF t(1,2) o1 _ os _ e(4,5) sf r(3)])
       (simp_all add: order_frame_same[OF r(1)] n order_frame_same[OF e(1)] t(3) r(2) e(3) rows again)
qed

lemma recordFailure_Inr:
  assumes "recordFailure P notice pending d = Inr (res, d')"
  obtains o1 e where "ref_free (t_id pending) (sn_aggregator notice) (sn_aggregatorRef notice) d"
    "find_order (sn_orderId notice) d = Some o1"
    "transactions d' = update_rows (\<lambda>t1. t_id t1 = t_id pending)
       (refused_row (sn_aggregator notice) (sn_aggregatorRef notice)) (transactions d)"
    "orders d' = set_status (sn_orderId notice) Awaiting_Payment (orders d)"
    "status_events d' = status_events d @ [e]" "se_order_id e = sn_orderId notice"
    "se_to_status e = Awaiting_Payment" "se_from_status e = Some (o_status o1)"
    "res = Applied (sn_orderId notice) None"
    "order_items d' = order_items d" "users d' = users d" "roles d' = roles d" "listings d' = listings d"
    "\<exists>rows. outbox d' = outbox d @ rows \<and> (\<forall>r\<in>set rows. queued r)"
    "locations d' = locations d" "categories d' = categories d" "kyc_submissions d' = kyc_submissions d"
proof -
  obtain d1 d2 x1 x2 x3 where
    1: "markPaymentFailed (t_id pending) (sn_aggregator notice) (sn_aggregatorRef notice) d = Inr (x1, d1)"
    and 2: "sp_transitionStatus P (sn_orderId notice) Awaiting_Payment ''order.event.payment_failed'' d1 = Inr (x2, d2)"
    and 3: "notifyCustomer P notice ''payment_failed'' d2 = Inr (x3, d')"
    and res: "res = Applied (sn_orderId notice) None"
    using assms by (auto simp: recordFailure_def stmt_bind_Inr_iff)
  have d1: "ref_free (t_id pending) (sn_aggregator notice) (sn_aggregatorRef notice) d"
    "d1 = d\<lparr>transactions := update_rows (\<lambda>t1. t_id t1 = t_id pending)
       (refused_row (sn_aggregator notice) (sn_aggregatorRef notice)) (transactions d)\<rparr>"
    using 1 by (simp_all add: markPaymentFailed_Inr)
  have fo: "find_order (sn_orderId notice) d1 = find_order (sn_orderId notice) d" using d1(2) by (simp add: find_order_def)
  obtain o1 where o1: "find_order (sn_orderId notice) d = Some o1" using orders.transition_known[OF 2] fo by auto
  obtain e where e: "order_frame d1 d2" "orders d2 = set_status (sn_orderId notice) Awaiting_Payment (orders d1)"
    "status_events d2 = status_events d1 @ [e]" "se_order_id e = sn_orderId notice" "se_to_status e = Awaiting_Payment"
    "se_from_status e = map_option o_status (find_order (sn_orderId notice) d1)"
    using orders.transition_effect[OF 2] by blast
  note n = outbox_grows_same[OF notify_grows[OF 3]]
  obtain rows where rows: "outbox d' = outbox d2 @ rows" "\<forall>r\<in>set rows. queued r" using notify_grows[OF 3] by (auto simp: outbox_grows_def)
  have sf: "se_from_status e = Some (o_status o1)" using e(6) fo o1 by simp
  show thesis
    by (rule that[OF d1(1) o1 _ _ _ e(4,5) sf res])
       (simp_all add: n order_frame_same[OF e(1)] e(2,3) d1(2) rows)
qed

text \<open>The five ways the transaction body can end.\<close>

lemma work_Inr:
  assumes "settlementWork P notice d = Inr (res, d')"
  obtains
    (duplicate) t where "t \<in> set (transactions d)" "carries_ref (sn_aggregator notice) (sn_aggregatorRef notice) t"
      "res = Duplicate (t_order_id t)" "d' = d"
  | (none_pending) "\<forall>t\<in>set (transactions d). \<not> pending_for (sn_orderId notice) t"
      "res = Rejected ''no_pending_transaction''" "d' = d"
  | (mismatch) p expected where "p \<in> set (transactions d)" "pending_for (sn_orderId notice) p"
      "takaToPoisha (numeric_out (t_amount_bdt p)) = Inr expected" "sn_amount notice \<noteq> expected"
      "res = Rejected ''amount_mismatch''" "d' = d"
  | (failed) p where "p \<in> set (transactions d)" "pending_for (sn_orderId notice) p"
      "takaToPoisha (numeric_out (t_amount_bdt p)) = Inr (sn_amount notice)" "sn_outcome notice = Outcome_Failed"
      "recordFailure P notice p d = Inr (res, d')"
      "\<forall>t\<in>set (transactions d). \<not> carries_ref (sn_aggregator notice) (sn_aggregatorRef notice) t"
  | (settled) p where "p \<in> set (transactions d)" "pending_for (sn_orderId notice) p"
      "takaToPoisha (numeric_out (t_amount_bdt p)) = Inr (sn_amount notice)" "sn_outcome notice = Outcome_Settled"
      "settle P notice p d = Inr (res, d')"
      "\<forall>t\<in>set (transactions d). \<not> carries_ref (sn_aggregator notice) (sn_aggregatorRef notice) t"
proof -
  let ?existing = "find (carries_ref (sn_aggregator notice) (sn_aggregatorRef notice)) (transactions d)"
  let ?pending = "first_row (sort_key t_occurred_at (filter (pending_for (sn_orderId notice)) (transactions d)))"
  show thesis
  proof (cases ?existing)
    case (Some t)
    then have "res = Duplicate (t_order_id t)" "d' = d"
      using assms by (simp_all add: settlementWork_def stmt_bind_Inr_iff findByAggregatorRef_eq)
    then show thesis using find_Some_in[OF Some] by (intro duplicate) simp_all
  next
    case None
    then have free: "\<forall>t\<in>set (transactions d). \<not> carries_ref (sn_aggregator notice) (sn_aggregatorRef notice) t"
      by (simp add: find_None_all)
    show thesis
    proof (cases ?pending)
      case no: None
      then have "res = Rejected ''no_pending_transaction''" "d' = d"
        using assms None
        by (simp_all add: settlementWork_def stmt_bind_Inr_iff findByAggregatorRef_eq findPendingForOrder_eq)
      then show thesis using no unfolding no_first_pending by (intro none_pending)
    next
      case (Some p)
      then have "applyToPending P notice p d = Inr (res, d')"
        using assms None
        by (simp add: settlementWork_def stmt_bind_Inr_iff findByAggregatorRef_eq findPendingForOrder_eq)
      then obtain expected where x: "takaToPoisha (numeric_out (t_amount_bdt p)) = Inr expected"
        and r: "(if sn_amount notice \<noteq> expected then stmt_return (Rejected ''amount_mismatch'')
          else if sn_outcome notice = Outcome_Failed then recordFailure P notice p else settle P notice p) d = Inr (res, d')"
        by (auto simp: applyToPending_def stmt_bind_Inr_iff stmt_lift_Inr_iff)
      have p: "p \<in> set (transactions d)" "pending_for (sn_orderId notice) p" using first_pending[OF Some] by simp_all
      show thesis
      proof (cases "sn_amount notice = expected")
        case False
        then show thesis using r by (intro mismatch[OF p x]) simp_all
      next
        case True
        then show thesis
          using r x by (cases "sn_outcome notice") (auto intro: failed[OF p _ _ _ free] settled[OF p _ _ _ free])
      qed
    qed
  qed
qed

text \<open>An applied notice leaves a row that carries its reference, which is what a replay finds.\<close>

lemma applied_ref:
  assumes "settlementWork P notice d = Inr (Applied i due, d')"
  shows "\<exists>t\<in>set (transactions d'). carries_ref (sn_aggregator notice) (sn_aggregatorRef notice) t \<and>
    t_order_id t = sn_orderId notice"
  using assms
proof (cases rule: work_Inr)
  case (failed p)
  have "transactions d' = update_rows (\<lambda>t1. t_id t1 = t_id p)
       (refused_row (sn_aggregator notice) (sn_aggregatorRef notice)) (transactions d)"
    using failed(5) by (rule recordFailure_Inr)
  moreover have "refused_row (sn_aggregator notice) (sn_aggregatorRef notice) p \<in>
      set (update_rows (\<lambda>t1. t_id t1 = t_id p) (refused_row (sn_aggregator notice) (sn_aggregatorRef notice)) (transactions d))"
    using failed(1) by (auto simp: in_update_rows intro: bexI[of _ p])
  ultimately show ?thesis
    using failed(2) by (auto simp: refused_row_def carries_ref_def pending_for_def
        intro!: bexI[of _ "refused_row (sn_aggregator notice) (sn_aggregatorRef notice) p"])
next
  case (settled p)
  obtain t where "transactions d' = update_rows (\<lambda>t1. t_id t1 = t_id p)
       (settled_row (sn_aggregator notice) (sn_aggregatorRef notice) t) (transactions d)"
    using settled(5) by (rule settle_Inr)
  moreover have "settled_row (sn_aggregator notice) (sn_aggregatorRef notice) t p \<in>
      set (update_rows (\<lambda>t1. t_id t1 = t_id p) (settled_row (sn_aggregator notice) (sn_aggregatorRef notice) t) (transactions d))"
    using settled(1) by (auto simp: in_update_rows intro: bexI[of _ p])
  ultimately show ?thesis
    using settled(2) by (auto simp: settled_row_def carries_ref_def pending_for_def
        intro!: bexI[of _ "settled_row (sn_aggregator notice) (sn_aggregatorRef notice) t p"])
qed auto

lemma replay:
  assumes "\<exists>t\<in>set (transactions d). carries_ref (sn_aggregator notice) (sn_aggregatorRef notice) t"
  shows "\<exists>i. settlementWork P notice d = Inr (Duplicate i, d)"
proof -
  obtain t where "find (carries_ref (sn_aggregator notice) (sn_aggregatorRef notice)) (transactions d) = Some t"
    using assms find_None_all[of "carries_ref (sn_aggregator notice) (sn_aggregatorRef notice)" "transactions d"] by fastforce
  then show ?thesis by (simp add: settlementWork_def stmt_bind_def findByAggregatorRef_eq)
qed

end

interpretation paid: settlement settlement_wiring
  by (simp add: settlement_def settlement_wiring_def orders.order_port_axioms outbox.notification_port_axioms)


section \<open>A settlement on the small database\<close>

definition sample_order :: order_row where
  "sample_order =
     \<lparr>o_id = ''order1'', o_customer_user_id = ''buyer'', o_merchant_role_id = ''shop'',
      o_delivery_location_id = ''away'', o_status = Created, o_payment_method = Bkash, o_subtotal_bdt = 44005,
      o_delivery_fee_bdt = 0, o_total_bdt = 44005, o_advance_amount_bdt = 4000, o_advance_cap_bdt = 4400,
      o_is_escrow = False, o_all_items_ready_to_ship = False, o_is_same_city = False,
      o_advance_paid_at = None, o_delivery_deadline_at = None\<rparr>"

definition sample_payment :: transaction_row where
  "sample_payment =
     \<lparr>t_id = ''pay1'', t_order_id = ''order1'', t_method = Bkash, t_amount_bdt = 4000, t_status = Pending,
      t_aggregator = None, t_aggregator_ref = None, t_is_advance = True, t_occurred_at = 900, t_settled_at = None\<rparr>"

definition sample_paid_world :: world where
  "sample_paid_world =
     \<lparr>committed = sample_db\<lparr>orders := [sample_order], transactions := [sample_payment]\<rparr>, inflight = None,
      tx_faults = [], clock = 1000\<rparr>"

definition sample_notice :: "outcome \<Rightarrow> settlement_notice" where
  "sample_notice out =
     \<lparr>sn_orderId = ''order1'', sn_aggregator = ''bkash'', sn_aggregatorRef = ''ref1'', sn_amount = 4000,
      sn_outcome = out, sn_occurredAt = Some 5000\<rparr>"

lemma settlement_wiring_simps [simp]:
  "sp_findForSettlement settlement_wiring = findForSettlement" "sp_findCustomer settlement_wiring = findCustomer"
  "sp_transitionStatus settlement_wiring = transitionStatus"
  "sp_startDeliveryClock settlement_wiring = startDeliveryClock" "sp_enqueue settlement_wiring = enqueue"
  by (simp_all add: settlement_wiring_def)

lemma sample_settled:
  "\<exists>w'. applySettlement settlement_wiring (sample_notice out) sample_paid_world =
     (Inr (Applied ''order1'' (if out = Outcome_Settled then Some (Some 864005000) else None)), w') \<and>
     inflight w' = None \<and> tx_faults w' = []"
proof -
  have "takaToPoisha (numeric_out 4000) = Inr 4000" "poishaToTaka 4000 = Inr (money_text 4000)"
    using takaToPoisha_money_text[of 4000] poishaToTaka_of_int[of 4000] by (simp_all add: numeric_out_def)
  then show ?thesis
    by (cases out)
       (simp_all add: applySettlement_def transact_no_fault sample_paid_world_def started_def settlementWork_def
        stmt_bind_def findByAggregatorRef_eq findPendingForOrder_eq carries_ref_def pending_for_def applyToPending_def
        sample_notice_def sample_payment_def sample_order_def settle_def recordFailure_def markSettled_def
        markPaymentFailed_def timestamptz_in_def ref_free_def transitionStatus_def recordStatusEvent_def find_order_eq
        set_status_def notifyCustomer_def findCustomer_def runClock_def findForSettlement_def settled_row_def refused_row_def
        computeDeliveryDeadline_def deliveryWindowDays_def DIFFERENT_CITY_DELIVERY_DAYS_def MS_PER_DAY_def mk_date_def
        MAX_TIME_def startDeliveryClock_def stampDeliveryClock_def stamp_row_def event_of_def
        enqueue_def templateKeyFor_def channelsFor_def POLICIES_def enqueue_entry_def entry_for_def
        new_outbox_row_def language_ok_def channel_name_def sample_db_def)
qed


section \<open>Properties\<close>

lemma settlement_ran:
  assumes "inflight w = None" "applySettlement P notice w = (Inr res, w')"
  shows "settlementWork P notice (started w) = Inr (res, committed w')" "inflight w' = None"
  using pg.succeeded[OF assms(1)] pg.stays_idle[OF assms(1)] assms(2) by (simp_all add: applySettlement_def)

lemma started_tables [simp]:
  "transactions (started w) = transactions (committed w)" "orders (started w) = orders (committed w)"
  "status_events (started w) = status_events (committed w)" "outbox (started w) = outbox (committed w)"
  "order_items (started w) = order_items (committed w)"
  by (simp_all add: started_def)

text \<open>
  A settlement that fails changes nothing: when the call throws (a statement, the
  connection or the commit failed) the payment, the order, the timeline and the outbox are as
  before, so the aggregator's retry finds unchanged state.
\<close>

theorem settlement_all_or_nothing:
  assumes "inflight w = None" "applySettlement settlement_wiring notice w = (Inl e, w')"
  shows "committed w' = committed w \<and> inflight w' = None"
  using pg.failed[OF assms(1) assms(2)[unfolded applySettlement_def]]
    pg.stays_idle[OF assms(1) assms(2)[unfolded applySettlement_def]] ..

theorem settlement_all_or_nothing_witness:
  "committed (snd (applySettlement settlement_wiring (sample_notice Outcome_Settled)
     (sample_paid_world\<lparr>tx_faults := [Begin_Fails]\<rparr>))) = committed sample_paid_world"
proof -
  have e: "applySettlement settlement_wiring (sample_notice Outcome_Settled) (sample_paid_world\<lparr>tx_faults := [Begin_Fails]\<rparr>) =
      (Inl ConnectionError, sample_paid_world)"
    by (simp add: applySettlement_def transact_def withTransaction_def next_fault_def drop_fault_def rollback_def
        sample_paid_world_def)
  show ?thesis using settlement_all_or_nothing[OF _ e] e by (simp add: sample_paid_world_def)
qed

text \<open>
  C23. A rejected notice changes no table, and there are two reasons only: no pending payment for
  the order, or an amount that differs from the recorded one. The third reason of the code,
  \<open>order_not_found\<close>, cannot occur, because the status transition before it already requires
  the order.
\<close>

theorem settlement_rejections:
  assumes "inflight w = None" "applySettlement settlement_wiring notice w = (Inr (Rejected reason), w')"
  shows "committed w' = (committed w)\<lparr>now_ts := clock w\<rparr> \<and>
     (reason = ''no_pending_transaction'' \<and> (\<forall>t\<in>set (transactions (committed w)). \<not> pending_for (sn_orderId notice) t) \<or>
      reason = ''amount_mismatch'' \<and> (\<exists>p\<in>set (transactions (committed w)). pending_for (sn_orderId notice) p \<and>
        takaToPoisha (numeric_out (t_amount_bdt p)) \<noteq> Inr (sn_amount notice)))"
  using settlement_ran(1)[OF assms]
proof (cases rule: paid.work_Inr)
  case (failed p)
  have "Rejected reason = Applied (sn_orderId notice) None" using failed(5) by (rule paid.recordFailure_Inr)
  then show ?thesis by simp
next
  case (settled p)
  have "\<exists>x. Rejected reason = Applied (sn_orderId notice) x" using settled(5) by (rule paid.settle_Inr) blast
  then show ?thesis by simp
qed (auto simp: started_def)

theorem settlement_rejections_witness:
  "\<exists>w'. applySettlement settlement_wiring ((sample_notice Outcome_Settled)\<lparr>sn_orderId := ''other''\<rparr>) sample_paid_world =
       (Inr (Rejected ''no_pending_transaction''), w') \<and>
     committed w' = (committed sample_paid_world)\<lparr>now_ts := 1000\<rparr>"
proof -
  have "\<exists>w'. applySettlement settlement_wiring ((sample_notice Outcome_Settled)\<lparr>sn_orderId := ''other''\<rparr>) sample_paid_world =
      (Inr (Rejected ''no_pending_transaction''), w')"
    by (simp add: applySettlement_def transact_no_fault sample_paid_world_def started_def settlementWork_def
        stmt_bind_def findByAggregatorRef_eq findPendingForOrder_eq carries_ref_def pending_for_def
        sample_notice_def sample_payment_def)
  then obtain w' where r: "applySettlement settlement_wiring ((sample_notice Outcome_Settled)\<lparr>sn_orderId := ''other''\<rparr>) sample_paid_world =
      (Inr (Rejected ''no_pending_transaction''), w')" by blast
  show ?thesis using settlement_rejections[OF _ r] r by (simp add: sample_paid_world_def)
qed


lemma find_order_update:
  assumes "\<And>o1. o_id (f o1) = o_id o1" "orders d' = update_rows (\<lambda>o1. o_id o1 = i) f (orders d)"
  shows "find_order j d' = map_option (\<lambda>o1. if j = i then f o1 else o1) (find_order j d)"
  using assms find_update_rows[of o_id f j i "orders d"] by (simp add: find_order_eq)

lemma confirmed_row_id [simp]: "o_id (confirmed_row due o1) = o_id o1"
  by (simp add: confirmed_row_def stamp_row_def split: option.splits prod.splits)

text \<open>
  C15. An applied settlement moves payment and order together: the amount equals the recorded
  one, the pending row becomes settled under the notice's reference, the order becomes
  confirmed with exactly one event appended that records the previous status, every other order
  is untouched, and the item rows are.
\<close>

theorem settlement_confirms:
  assumes "inflight w = None" "applySettlement settlement_wiring notice w = (Inr (Applied i due), w')"
    and "sn_outcome notice = Outcome_Settled"
  shows "\<exists>p o1 o2 e. p \<in> set (transactions (committed w)) \<and> pending_for (sn_orderId notice) p \<and>
     takaToPoisha (numeric_out (t_amount_bdt p)) = Inr (sn_amount notice) \<and>
     (\<forall>t\<in>set (transactions (committed w')). t_id t = t_id p \<longrightarrow> t_status t = Settled \<and>
        carries_ref (sn_aggregator notice) (sn_aggregatorRef notice) t) \<and>
     find_order (sn_orderId notice) (committed w) = Some o1 \<and>
     find_order (sn_orderId notice) (committed w') = Some o2 \<and> o_status o2 = Confirmed \<and>
     status_events (committed w') = status_events (committed w) @ [e] \<and> se_order_id e = sn_orderId notice \<and>
     se_from_status e = Some (o_status o1) \<and> se_to_status e = Confirmed \<and>
     (\<forall>j. j \<noteq> sn_orderId notice \<longrightarrow> find_order j (committed w') = find_order j (committed w)) \<and>
     order_items (committed w') = order_items (committed w)"
  using settlement_ran(1)[OF assms(1,2)]
proof (cases rule: paid.work_Inr)
  case (settled p)
  show ?thesis
    using settled(5)
  proof (rule paid.settle_Inr, goal_cases)
    case (1 t o1 e)
    note o2 = find_order_update[OF confirmed_row_id 1(5)]
    have fo: "find_order j (started w) = find_order j (committed w)" for j by (simp add: find_order_def)
    show ?case
      using 1 settled(1-3) o2 fo
      by (intro exI[of _ p] exI[of _ o1] exI[of _ "confirmed_row (clock_due notice p o1) o1"] exI[of _ e])
         (auto simp: in_update_rows settled_row_def carries_ref_def confirmed_row_def stamp_row_def option.map_ident
           split: option.splits)
  qed
qed (use assms(3) in auto)

theorem settlement_confirms_witness:
  "\<exists>(w' :: world) o2. find_order ''order1'' (committed w') = Some o2 \<and> o_status o2 = Confirmed"
proof -
  obtain w' where 1: "applySettlement settlement_wiring (sample_notice Outcome_Settled) sample_paid_world =
      (Inr (Applied ''order1'' (Some (Some 864005000))), w')" using sample_settled[of Outcome_Settled] by auto
  show ?thesis using settlement_confirms[OF _ 1] by (intro exI[of _ w']) (auto simp: sample_paid_world_def sample_notice_def)
qed

text \<open>
  C14. The delivery clock starts with the first settled advance and never restarts: if the order
  had no payment time and the settled payment is an advance, the payment time is the notice's
  and the deadline is exactly 5 days (same city) or 10 days later, also in the answer;
  in every other case, a cash-on-delivery payment or a further advance, both times of the
  order stay as they were and the answer carries no deadline.
\<close>

theorem delivery_clock_starts_once:
  assumes "inflight w = None" "applySettlement settlement_wiring notice w = (Inr (Applied i due), w')"
    and "sn_outcome notice = Outcome_Settled"
  shows "\<exists>p o1 o2. p \<in> set (transactions (committed w)) \<and> pending_for (sn_orderId notice) p \<and>
     find_order (sn_orderId notice) (committed w) = Some o1 \<and> find_order (sn_orderId notice) (committed w') = Some o2 \<and>
     (if t_is_advance p \<and> o_advance_paid_at o1 = None
      then \<exists>t. sn_occurredAt notice = Some t \<and> o_advance_paid_at o2 = Some t \<and>
         o_delivery_deadline_at o2 = Some (t + (if o_is_same_city o1 then 5 else 10) * 86400000) \<and>
         due = Some (o_delivery_deadline_at o2)
      else o_advance_paid_at o2 = o_advance_paid_at o1 \<and> o_delivery_deadline_at o2 = o_delivery_deadline_at o1 \<and>
         due = None)"
  using settlement_ran(1)[OF assms(1,2)]
proof (cases rule: paid.work_Inr)
  case (settled p)
  show ?thesis
    using settled(5)
  proof (rule paid.settle_Inr, goal_cases)
    case (1 t o1 e)
    note o2 = find_order_update[OF confirmed_row_id 1(5), of "sn_orderId notice"]
    have fo: "find_order j (started w) = find_order j (committed w)" for j by (simp add: find_order_def)
    show ?case
      using 1(1,3,10) settled(1,2) o2 fo
      by (intro exI[of _ p] exI[of _ o1] exI[of _ "confirmed_row (clock_due notice p o1) o1"])
         (auto simp: confirmed_row_def stamp_row_def clock_due_def deliveryWindowDays_def MS_PER_DAY_def
           SAME_CITY_DELIVERY_DAYS_def DIFFERENT_CITY_DELIVERY_DAYS_def)
  qed
qed (use assms(3) in auto)

theorem delivery_clock_starts_once_witness:
  "\<exists>(w' :: world) o2. find_order ''order1'' (committed w') = Some o2 \<and> o_delivery_deadline_at o2 = Some 864005000"
proof -
  obtain w' where 1: "applySettlement settlement_wiring (sample_notice Outcome_Settled) sample_paid_world =
      (Inr (Applied ''order1'' (Some (Some 864005000))), w')" using sample_settled[of Outcome_Settled] by auto
  show ?thesis using delivery_clock_starts_once[OF _ 1]
    by (intro exI[of _ w']) (auto simp: sample_paid_world_def sample_notice_def split: if_splits)
qed

text \<open>A failure applied to the only pending payment of an order leaves it without one.\<close>

lemma failed_payment_effect:
  assumes "inflight w = None" "applySettlement settlement_wiring notice w = (Inr (Applied i due), w')"
    and "sn_outcome notice = Outcome_Failed"
    and "\<forall>p\<in>set (transactions (committed w)). \<forall>q\<in>set (transactions (committed w)).
      pending_for (sn_orderId notice) p \<longrightarrow> pending_for (sn_orderId notice) q \<longrightarrow> p = q"
  obtains o2 where "\<forall>t\<in>set (transactions (committed w')). \<not> pending_for (sn_orderId notice) t"
    "find_order (sn_orderId notice) (committed w') = Some o2" "o_status o2 = Awaiting_Payment"
  using settlement_ran(1)[OF assms(1,2)]
proof (cases rule: paid.work_Inr)
  case (failed p)
  show ?thesis
    using failed(5)
  proof (rule paid.recordFailure_Inr, goal_cases)
    case (1 o1 e)
    have none: "\<forall>t\<in>set (transactions (committed w')). \<not> pending_for (sn_orderId notice) t"
    proof (rule ballI, rule notI)
      fix t assume t: "t \<in> set (transactions (committed w'))" "pending_for (sn_orderId notice) t"
      then obtain t0 where t0: "t0 \<in> set (transactions (committed w))"
        "t = (if t_id t0 = t_id p then refused_row (sn_aggregator notice) (sn_aggregatorRef notice) t0 else t0)"
        using 1(3) by (auto simp only: in_update_rows started_tables)
      show False
      proof (cases "t_id t0 = t_id p")
        case True
        then show False using t(2) t0(2) by simp
      next
        case False
        then show False using t0 t(2) assms(4) failed(1,2) by auto
      qed
    qed
    have "find_order (sn_orderId notice) (committed w') = Some (o1\<lparr>o_status := Awaiting_Payment\<rparr>)"
      using find_order_update[of "\<lambda>o1. o1\<lparr>o_status := Awaiting_Payment\<rparr>" "committed w'" "sn_orderId notice" "started w"]
        1(2,4) by (simp add: set_status_def)
    then show ?case using that[OF none] by simp
  qed
qed (use assms(3) in auto)

text \<open>
  The unique constraint does not reject a concurrent duplicate. Two deliveries of one
  notice that both passed the checks before either wrote (both saw the payment pending) both
  succeed: the second marks the same row again with the same reference, answers \<open>applied\<close>, and
  appends a second confirmation to the timeline.
\<close>

theorem concurrent_duplicate_not_rejected:
  assumes "settle settlement_wiring notice p d = Inr (r1, d1)"
    and "uuids d1 (uuid_n d1) \<notin> se_id ` set (status_events d1)"
  shows "\<exists>d2. settle settlement_wiring notice p d1 = Inr (Applied (sn_orderId notice) None, d2) \<and>
     length (status_events d2) = length (status_events d) + 2"
  using assms(1)
proof (rule paid.settle_Inr, goal_cases)
  case (1 t o1 e)
  let ?a = "sn_aggregator notice" and ?r = "sn_aggregatorRef notice" and ?i = "sn_orderId notice"
  have free: "ref_free (t_id p) ?a ?r d1"
    by (rule ref_free_settled[OF 1(2,4)])
  obtain o2 where o2: "find_order ?i d1 = Some o2" "t_is_advance p \<longrightarrow> o_advance_paid_at o2 \<noteq> None"
    using find_order_update[OF confirmed_row_id 1(5), of ?i] 1(1,3)
    by (cases "t_is_advance p"; cases "o_advance_paid_at o1") (auto simp: confirmed_row_def clock_due_def stamp_row_def)
  let ?d2 = "d1\<lparr>transactions := update_rows (\<lambda>t1. t_id t1 = t_id p) (settled_row ?a ?r t) (transactions d1)\<rparr>"
  have m: "markSettled (t_id p) ?a ?r (sn_occurredAt notice) d1 = Inr ((), ?d2)"
    using free 1(1) by (simp add: markSettled_Inr)
  have "find_order ?i ?d2 = Some o2" using o2 by (simp add: find_order_def)
  moreover have "?i \<in> o_id ` set (orders d1)" using o2(1) find_order_None[of ?i d1] by auto
  ultimately obtain d3 where tr: "transitionStatus ?i Confirmed ''order.event.payment_received'' ?d2 = Inr ((), d3)"
    using assms(2) by (simp add: transitionStatus_def recordStatusEvent_def stmt_bind_def)
  obtain e' where e': "order_frame ?d2 d3" "orders d3 = set_status ?i Confirmed (orders ?d2)"
    "status_events d3 = status_events ?d2 @ [e']"
    using orders.transition_effect[OF tr] by blast
  have o3: "find_order ?i d3 = Some (o2\<lparr>o_status := Confirmed\<rparr>)"
    using find_order_update[of "\<lambda>o1. o1\<lparr>o_status := Confirmed\<rparr>" d3 ?i ?d2 ?i] e'(2) o2(1)
    by (simp add: set_status_def find_order_def)
  have cust: "o_customer_user_id o2 = o_customer_user_id o1"
    using find_order_update[OF confirmed_row_id 1(5), of ?i] 1(3) o2(1)
    by (auto simp: confirmed_row_def stamp_row_def split: option.splits)
  have n: "notifyCustomer settlement_wiring notice ''payment_received'' d3 = Inr ((), d3)"
    by (rule 1(19)) (use order_frame_same[OF e'(1)] o3 cust in simp_all)
  have c: "runClock settlement_wiring notice p d3 = Inr (Applied ?i None, d3)"
    using o2(2) o3 by (auto simp: runClock_def stmt_bind_def orders.settlement_facts)
  have "settle settlement_wiring notice p d1 = Inr (Applied ?i None, d3)"
    using m tr n c by (simp add: settle_def stmt_bind_def)
  moreover have "length (status_events d3) = length (status_events d) + 2" using e'(3) 1(6) by simp
  ultimately show ?case by blast
qed


lemma sample_settle_direct:
  "\<exists>r d1. settle settlement_wiring (sample_notice Outcome_Settled) sample_payment (committed sample_paid_world) = Inr (r, d1) \<and>
     uuids d1 (uuid_n d1) \<notin> se_id ` set (status_events d1)"
proof -
  have "takaToPoisha (numeric_out 4000) = Inr 4000" "poishaToTaka 4000 = Inr (money_text 4000)"
    using takaToPoisha_money_text[of 4000] poishaToTaka_of_int[of 4000] by (simp_all add: numeric_out_def)
  then show ?thesis
    by (simp add: sample_paid_world_def stmt_bind_def
        sample_notice_def sample_payment_def sample_order_def settle_def markSettled_def
        timestamptz_in_def ref_free_def carries_ref_def transitionStatus_def recordStatusEvent_def find_order_eq
        set_status_def notifyCustomer_def findCustomer_def runClock_def findForSettlement_def settled_row_def
        computeDeliveryDeadline_def deliveryWindowDays_def DIFFERENT_CITY_DELIVERY_DAYS_def MS_PER_DAY_def mk_date_def
        MAX_TIME_def startDeliveryClock_def stampDeliveryClock_def stamp_row_def event_of_def
        enqueue_def templateKeyFor_def channelsFor_def POLICIES_def enqueue_entry_def entry_for_def
        new_outbox_row_def language_ok_def channel_name_def sample_db_def)
qed

theorem concurrent_duplicate_not_rejected_witness:
  "\<exists>d1 d2. settle settlement_wiring (sample_notice Outcome_Settled) sample_payment d1 = Inr (Applied ''order1'' None, d2) \<and>
     length (status_events d2) = 2"
proof -
  obtain r d1 where 1: "settle settlement_wiring (sample_notice Outcome_Settled) sample_payment (committed sample_paid_world) = Inr (r, d1)"
    "uuids d1 (uuid_n d1) \<notin> se_id ` set (status_events d1)"
    using sample_settle_direct by blast
  have "status_events (committed sample_paid_world) = []" "sn_orderId (sample_notice Outcome_Settled) = ''order1''"
    by (simp_all add: sample_paid_world_def sample_db_def sample_notice_def)
  then show ?thesis
    using concurrent_duplicate_not_rejected[OF 1] by (metis add_0 list.size(3))
qed

end
