(* ===== verification/Bytes.thy ===== *)
theory Bytes
  imports JsString
begin

text \<open>
  Node's \<open>Buffer\<close> encodings, as the signature, password and token code uses them. A buffer is
  a \<open>string\<close> whose characters are its bytes. \<open>hex_decode\<close> and \<open>base64_decode\<close> are
  \<open>Buffer.from(s, 'hex')\<close> and \<open>Buffer.from(s, 'base64')\<close>: neither fails, the first stops at
  the first pair that is not hexadecimal, the second skips foreign characters and stops at the
  padding. The lemmas are the round trips.
\<close>

named_theorems codec \<open>round trips of the encodings\<close>

abbreviation octet :: "char \<Rightarrow> nat" where
  "octet \<equiv> of_char"

abbreviation chr :: "nat \<Rightarrow> char" where
  "chr \<equiv> char_of"

lemma octet_less [simp]: "octet c < 256"
  using of_char_mod_256[of c, where ?'a = nat] by (metis mod_less_divisor zero_less_numeral)

lemma octet_parts [simp]:
  "octet c div 16 < 16" "octet c div 4 < 64" "octet c div 64 < 4"
  using octet_less[of c] by linarith+

section \<open>Hexadecimal\<close>

definition hex_digit :: "nat \<Rightarrow> char" where
  "hex_digit n = (if n < 10 then char_of (48 + n) else char_of (87 + n))"

definition hex_val :: "char \<Rightarrow> nat option" where
  "hex_val c =
     (let n = octet c in
      if n \<in> {48..57} then Some (n - 48)
      else if n \<in> {97..102} then Some (n - 87)
      else if n \<in> {65..70} then Some (n - 55)
      else None)"

definition hex_encode :: "string \<Rightarrow> string" where
  "hex_encode s = concat (map (\<lambda>c. [hex_digit (octet c div 16), hex_digit (octet c mod 16)]) s)"

fun hex_decode :: "string \<Rightarrow> string" where
  "hex_decode (a # b # s) =
     (case (hex_val a, hex_val b) of
        (Some x, Some y) \<Rightarrow> char_of (16 * x + y) # hex_decode s
      | _ \<Rightarrow> [])"
| "hex_decode s = []"

lemma hex_val_digit [simp]: "n < 16 \<Longrightarrow> hex_val (hex_digit n) = Some n"
  by (auto simp: hex_val_def hex_digit_def Let_def)

lemma hex_decode_encode_append [codec]: "hex_decode (hex_encode s @ t) = s @ hex_decode t"
  by (induction s) (auto simp: hex_encode_def)

lemma hex_decode_encode [simp, codec]: "hex_decode (hex_encode s) = s"
  using hex_decode_encode_append[of s "[]"] by simp

lemma hex_encode_Nil [simp]: "hex_encode s = [] \<longleftrightarrow> s = []"
  by (auto simp: hex_encode_def)

lemma hex_decode_short: "length s < 2 \<Longrightarrow> hex_decode s = []"
  by (cases s rule: hex_decode.cases) auto

lemma hex_decode_stops: "hex_val a = None \<Longrightarrow> hex_decode (a # s) = []"
  by (cases s) auto

section \<open>Base64\<close>

definition b64_char :: "nat \<Rightarrow> char" where
  "b64_char n =
     (if n < 26 then char_of (65 + n) else if n < 52 then char_of (71 + n)
      else if n < 62 then char_of (n - 4) else if n = 62 then CHR ''+'' else CHR ''/'')"

text \<open>The decoder takes the URL-safe characters for the standard ones.\<close>

definition b64_val :: "char \<Rightarrow> nat option" where
  "b64_val c =
     (let n = octet c in
      if n \<in> {65..90} then Some (n - 65)
      else if n \<in> {97..122} then Some (n - 71)
      else if n \<in> {48..57} then Some (n + 4)
      else if c = CHR ''+'' \<or> c = CHR ''-'' then Some 62
      else if c = CHR ''/'' \<or> c = CHR ''_'' then Some 63
      else None)"

fun base64 :: "string \<Rightarrow> string" where
  "base64 [] = []"
| "base64 [a] = [b64_char (octet a div 4), b64_char (octet a mod 4 * 16), CHR ''='', CHR ''='']"
| "base64 [a, b] =
     [b64_char (octet a div 4), b64_char (octet a mod 4 * 16 + octet b div 16), b64_char (octet b mod 16 * 4), CHR ''='']"
| "base64 (a # b # c # s) =
     b64_char (octet a div 4) # b64_char (octet a mod 4 * 16 + octet b div 16) #
     b64_char (octet b mod 16 * 4 + octet c div 64) # b64_char (octet c mod 64) # base64 s"

fun unbase64 :: "nat list \<Rightarrow> string" where
  "unbase64 (w # x # y # z # r) =
     char_of (w * 4 + x div 16) # char_of (x mod 16 * 16 + y div 4) # char_of (y mod 4 * 64 + z) # unbase64 r"
| "unbase64 [w, x, y] = [char_of (w * 4 + x div 16), char_of (x mod 16 * 16 + y div 4)]"
| "unbase64 [w, x] = [char_of (w * 4 + x div 16)]"
| "unbase64 _ = []"

definition base64_decode :: "string \<Rightarrow> string" where
  "base64_decode s = unbase64 (List.map_filter b64_val (takeWhile (\<lambda>c. c \<noteq> CHR ''='') s))"

lemma b64_val_char [simp]: "n < 64 \<Longrightarrow> b64_val (b64_char n) = Some n"
proof -
  assume "n < 64"
  then consider "n < 26" | "26 \<le> n" "n < 52" | "52 \<le> n" "n < 62" | "n = 62" | "n = 63" by linarith
  then show ?thesis by cases (auto simp: b64_val_def b64_char_def Let_def)
qed

text \<open>The sextets of a byte string, which the characters of its encoding stand for.\<close>

fun sextets :: "string \<Rightarrow> nat list" where
  "sextets [] = []"
| "sextets [a] = [octet a div 4, octet a mod 4 * 16]"
| "sextets [a, b] = [octet a div 4, octet a mod 4 * 16 + octet b div 16, octet b mod 16 * 4]"
| "sextets (a # b # c # s) =
     octet a div 4 # (octet a mod 4 * 16 + octet b div 16) #
     (octet b mod 16 * 4 + octet c div 64) # octet c mod 64 # sextets s"

lemma sextet_bounds [simp]:
  "octet a mod 4 * 16 < 64" "octet a mod 4 * 16 + octet b div 16 < 64"
  "octet b mod 16 * 4 < 64" "octet b mod 16 * 4 + octet c div 64 < 64"
  using octet_parts(1)[of b] octet_parts(3)[of c] mod_less_divisor[of 4 "octet a"] mod_less_divisor[of 16 "octet b"]
  by linarith+

lemma sextets_less: "\<forall>n\<in>set (sextets s). n < 64"
  by (induction s rule: sextets.induct) (auto simp del: of_char_of)

lemma b64_char_not_pad [simp]: "n < 64 \<Longrightarrow> b64_char n \<noteq> CHR ''=''"
proof
  assume "n < 64" "b64_char n = CHR ''=''"
  then show False using b64_val_char[of n] by (simp add: b64_val_def Let_def)
qed

lemma base64_pads: "\<exists>k. base64 s = map b64_char (sextets s) @ replicate k CHR ''=''"
proof (induction s rule: base64.induct)
  case (2 a)
  show ?case by (rule exI[of _ 2]) (simp add: numeral_2_eq_2)
next
  case (3 a b)
  show ?case by (rule exI[of _ 1]) simp
qed auto

lemma octets [simp]:
  "octet a div 4 * 4 + (octet a mod 4 * 16 + octet b div 16) div 16 = octet a"
  "octet a div 4 * 4 + octet a mod 4 * 16 div 16 = octet a"
  "(octet a mod 4 * 16 + octet b div 16) mod 16 * 16 + (octet b mod 16 * 4 + octet c div 64) div 4 = octet b"
  "(octet a mod 4 * 16 + octet b div 16) mod 16 * 16 + octet b mod 16 * 4 div 4 = octet b"
  "(octet b mod 16 * 4 + octet c div 64) mod 4 * 64 + octet c mod 64 = octet c"
  using octet_parts(1)[of b] octet_parts(3)[of c] by simp_all

lemma unbase64_sextets [simp, codec]: "unbase64 (sextets s) = s"
  by (induction s rule: sextets.induct) simp_all

lemma map_filter_b64 [simp]: "\<forall>n\<in>set ns. n < 64 \<Longrightarrow> List.map_filter b64_val (map b64_char ns) = ns"
  by (induction ns) (simp_all add: map_filter_simps)

lemma base64_decode_sextets [codec]: "base64_decode (map b64_char (sextets s) @ replicate k CHR ''='') = s"
proof -
  let ?p = "\<lambda>c. c \<noteq> CHR ''=''"
  have "takeWhile ?p (map b64_char (sextets s) @ replicate k CHR ''='') = map b64_char (sextets s)"
    using sextets_less[of s] by (subst takeWhile_append2) (auto simp: takeWhile_replicate)
  then show ?thesis using sextets_less[of s] by (simp add: base64_decode_def)
qed

lemma base64_decode_base64 [simp, codec]: "base64_decode (base64 s) = s"
  using base64_pads[of s] base64_decode_sextets by metis

section \<open>UTF-8\<close>

text \<open>
  The UTF-8 bytes of a text (code units below 256), and the text of a byte sequence when it
  is one: \<open>None\<close> is a sequence that holds another code point or is not well formed.
\<close>

definition utf8_char :: "char \<Rightarrow> string" where
  "utf8_char c = (let n = octet c in if n < 128 then [c] else [char_of (192 + n div 64), char_of (128 + n mod 64)])"

definition utf8 :: "string \<Rightarrow> string" where
  "utf8 s = concat (map utf8_char s)"

fun utf8_text :: "string \<Rightarrow> string option" where
  "utf8_text [] = Some []"
| "utf8_text [a] = (if octet a < 128 then Some [a] else None)"
| "utf8_text (a # b # s) =
     (if octet a < 128 then map_option ((#) a) (utf8_text (b # s))
      else if octet a \<in> {194, 195} \<and> octet b \<in> {128..191}
      then map_option ((#) (char_of ((octet a - 192) * 64 + (octet b - 128)))) (utf8_text s)
      else None)"

lemma utf8_text_ascii: "octet a < 128 \<Longrightarrow> utf8_text (a # s) = map_option ((#) a) (utf8_text s)"
  by (cases s) simp_all

lemma utf8_text_two:
  assumes "\<not> octet c < 128"
  shows "utf8_text (char_of (192 + octet c div 64) # char_of (128 + octet c mod 64) # s) = map_option ((#) c) (utf8_text s)"
proof -
  let ?n = "octet c"
  have "?n div 64 < 4" "2 \<le> ?n div 64" using assms octet_less[of c] by linarith+
  then have q: "?n div 64 = 2 \<or> ?n div 64 = 3" by linarith
  have r: "?n mod 64 < 64" by simp
  have a: "octet (char_of (192 + ?n div 64)) = 192 + ?n div 64" using q by auto
  have b: "octet (char_of (128 + ?n mod 64)) = 128 + ?n mod 64" using r by (simp add: mod_if)
  have "(192 + ?n div 64 - 192) * 64 + (128 + ?n mod 64 - 128) = ?n" by simp
  then show ?thesis
    using q r by (simp only: utf8_text.simps a b) auto
qed

lemma utf8_text_utf8 [simp, codec]: "utf8_text (utf8 s) = Some s"
proof (induction s)
  case (Cons c s)
  then show ?case
    by (cases "octet c < 128")
       (simp_all only: utf8_def utf8_char_def Let_def list.map concat.simps append.simps utf8_text_ascii
          utf8_text_two option.map if_True if_False simp_thms)
qed (simp add: utf8_def)

lemma utf8_inj: "utf8 s = utf8 t \<longleftrightarrow> s = t"
  by (metis option.inject utf8_text_utf8)

lemma utf8_ascii: "\<forall>c\<in>set s. octet c < 128 \<Longrightarrow> utf8 s = s"
  by (induction s) (simp_all add: utf8_def utf8_char_def)

section \<open>An instance of the hash parameter\<close>

text \<open>
  HMAC-SHA256 is a parameter of the definitions that use it, on key bytes and message bytes.
  The witnesses use a function with its only property they need, the length of 32 bytes.
\<close>

definition pad_hmac :: "string \<Rightarrow> string \<Rightarrow> string" where
  "pad_hmac key message = take 32 (key @ message @ replicate 32 CHR ''.'')"

lemma pad_hmac_length [simp]: "length (pad_hmac k m) = 32"
  by (simp add: pad_hmac_def)

end
