(* ===== verification/Json.thy ===== *)
theory Json
  imports Bytes
begin

text \<open>
  JSON values, \<open>JSON.parse\<close>, and the part of \<open>JSON.stringify\<close> the sources use (strings and
  integers inside a flat object). A JavaScript object is an association list in key order; keys
  of the prototype chain are not looked up. The parser is recursive descent with fuel;
  \<open>parse_enough\<close> shows that the fuel \<open>parse_json\<close> gives it never runs out.
\<close>

section \<open>Values\<close>

datatype json =
    JNull
  | JBool bool
  | JNum number
  | JStr string
  | JArr "json list"
  | JObj "(string \<times> json) list"

text \<open>\<open>o[k] = v\<close>: an existing key keeps its place.\<close>

fun obj_set :: "string \<Rightarrow> 'a \<Rightarrow> (string \<times> 'a) list \<Rightarrow> (string \<times> 'a) list" where
  "obj_set k v [] = [(k, v)]"
| "obj_set k v ((k', v') # kvs) = (if k = k' then (k, v) # kvs else (k', v') # obj_set k v kvs)"

lemma map_of_obj_set [simp]: "map_of (obj_set k v kvs) = (map_of kvs)(k \<mapsto> v)"
  by (induction kvs) (auto simp: fun_eq_iff)

section \<open>Printing\<close>

definition quote_char :: "char \<Rightarrow> string" where
  "quote_char c =
     (let n = octet c in
      if n = 34 then [chr 92, chr 34]
      else if n = 92 then [chr 92, chr 92]
      else if n = 8 then [chr 92, CHR ''b'']
      else if n = 9 then [chr 92, CHR ''t'']
      else if n = 10 then [chr 92, CHR ''n'']
      else if n = 12 then [chr 92, CHR ''f'']
      else if n = 13 then [chr 92, CHR ''r'']
      else if n < 32 then [chr 92, CHR ''u'', CHR ''0'', CHR ''0'', hex_digit (n div 16), hex_digit (n mod 16)]
      else [c])"

definition quote :: "string \<Rightarrow> string" where
  "quote s = chr 34 # concat (map quote_char s) @ [chr 34]"

section \<open>Parsing\<close>

definition is_json_space :: "char \<Rightarrow> bool" where
  "is_json_space c \<longleftrightarrow> octet c \<in> {9, 10, 13, 32}"

definition skip_ws :: "string \<Rightarrow> string" where
  "skip_ws s = dropWhile is_json_space s"

text \<open>The character an escape letter stands for.\<close>

definition escape_of :: "char \<Rightarrow> char option" where
  "escape_of c =
     map_of [(34, chr 34), (92, chr 92), (47, CHR ''/''), (98, chr 8), (102, chr 12),
             (110, chr 10), (114, chr 13), (116, chr 9)] (octet c)"

text \<open>
  The rest of a string literal after its opening quote. An escape \<open>\uXXXX\<close> above the code
  units of the model is taken modulo 256; \<open>wide_escape\<close> tells the texts that have one.
\<close>

definition hex4 :: "char \<Rightarrow> char \<Rightarrow> char \<Rightarrow> char \<Rightarrow> nat option" where
  "hex4 a b c d =
     (case (hex_val a, hex_val b, hex_val c, hex_val d) of
        (Some w, Some x, Some y, Some z) \<Rightarrow> Some (4096 * w + 256 * x + 16 * y + z)
      | _ \<Rightarrow> None)"

fun parse_string :: "string \<Rightarrow> (string \<times> string) option" where
  "parse_string [] = None"
| "parse_string (c # s) =
     (if octet c = 34 then Some ([], s)
      else if octet c = 92 then
        (case s of
           [] \<Rightarrow> None
         | e # s1 \<Rightarrow>
             if e = CHR ''u'' then
               (case s1 of
                  x1 # x2 # x3 # x4 # s2 \<Rightarrow>
                    (case hex4 x1 x2 x3 x4 of
                       None \<Rightarrow> None
                     | Some n \<Rightarrow> map_option (apfst ((#) (chr n))) (parse_string s2))
                | _ \<Rightarrow> None)
             else
               (case escape_of e of
                  None \<Rightarrow> None
                | Some x \<Rightarrow> map_option (apfst ((#) x)) (parse_string s1)))
      else if octet c < 32 then None
      else map_option (apfst ((#) c)) (parse_string s))"

fun wide_escape :: "string \<Rightarrow> bool" where
  "wide_escape (a # b # s) \<longleftrightarrow>
     (if octet a = 92 then
        (case s of
           x1 # x2 # x3 # x4 # _ \<Rightarrow>
             b = CHR ''u'' \<and> (case hex4 x1 x2 x3 x4 of None \<Rightarrow> False | Some n \<Rightarrow> 256 \<le> n)
         | _ \<Rightarrow> False) \<or> wide_escape s
      else wide_escape (b # s))"
| "wide_escape s \<longleftrightarrow> False"

text \<open>\<open>-?(0|[1-9]\d*)(\.\d+)?([eE][+-]?\d+)?\<close>, as the nearest double.\<close>

definition parse_fraction :: "string \<Rightarrow> (string \<times> string) option" where
  "parse_fraction s =
     (if startsWith ''.'' s
      then (let f = takeWhile is_digit (tl s) in
            if f = [] then None else Some (f, drop (length f) (tl s)))
      else Some ([], s))"

definition parse_exponent :: "string \<Rightarrow> (int \<times> string) option" where
  "parse_exponent s =
     (if startsWith ''e'' s \<or> startsWith ''E'' s then
        (let neg = startsWith ''-'' (tl s);
             r = (if neg \<or> startsWith ''+'' (tl s) then tl (tl s) else tl s);
             x = takeWhile is_digit r
         in if x = [] then None
            else Some (if neg then - int (digits_val x) else int (digits_val x), drop (length x) r))
      else Some (0, s))"

definition scaled :: "rat \<Rightarrow> int \<Rightarrow> rat" where
  "scaled q e = (if 0 \<le> e then q * 10 ^ nat e else q / 10 ^ nat (- e))"

definition parse_number :: "string \<Rightarrow> (number \<times> string) option" where
  "parse_number s =
     (let neg = startsWith ''-'' s;
          r = (if neg then tl s else s);
          w = takeWhile is_digit r
      in if w = [] \<or> startsWith ''0'' w \<and> length w \<noteq> 1 then None
         else Option.bind (parse_fraction (drop (length w) r)) (\<lambda>(f, r1).
              Option.bind (parse_exponent r1) (\<lambda>(e, r2).
                let q = scaled (of_nat (digits_val (w @ f))) (e - int (length f))
                in Some (fl (if neg then - q else q), r2))))"

fun parse_value :: "nat \<Rightarrow> string \<Rightarrow> (json \<times> string) option"
  and parse_elements :: "nat \<Rightarrow> string \<Rightarrow> (json list \<times> string) option"
  and parse_members :: "nat \<Rightarrow> (string \<times> json) list \<Rightarrow> string \<Rightarrow> ((string \<times> json) list \<times> string) option" where
  "parse_value 0 s = None"
| "parse_value (Suc n) s =
     (case skip_ws s of
        [] \<Rightarrow> None
      | c # r \<Rightarrow>
          if octet c = 34 then map_option (apfst JStr) (parse_string r)
          else if c = CHR ''['' then
            (if startsWith '']'' (skip_ws r) then Some (JArr [], tl (skip_ws r))
             else map_option (apfst JArr) (parse_elements n r))
          else if c = CHR ''{'' then
            (if startsWith ''}'' (skip_ws r) then Some (JObj [], tl (skip_ws r))
             else map_option (apfst JObj) (parse_members n [] r))
          else if startsWith ''true'' (c # r) then Some (JBool True, drop 4 (c # r))
          else if startsWith ''false'' (c # r) then Some (JBool False, drop 5 (c # r))
          else if startsWith ''null'' (c # r) then Some (JNull, drop 4 (c # r))
          else map_option (apfst JNum) (parse_number (c # r)))"
| "parse_elements 0 s = None"
| "parse_elements (Suc n) s =
     Option.bind (parse_value n s) (\<lambda>(v, r).
       if startsWith '','' (skip_ws r) then map_option (apfst ((#) v)) (parse_elements n (tl (skip_ws r)))
       else if startsWith '']'' (skip_ws r) then Some ([v], tl (skip_ws r))
       else None)"
| "parse_members 0 acc s = None"
| "parse_members (Suc n) acc s =
     (case skip_ws s of
        [] \<Rightarrow> None
      | c # s1 \<Rightarrow>
          if octet c \<noteq> 34 then None
          else Option.bind (parse_string s1) (\<lambda>(k, s2).
            if \<not> startsWith '':'' (skip_ws s2) then None
            else Option.bind (parse_value n (tl (skip_ws s2))) (\<lambda>(v, r).
              if startsWith '','' (skip_ws r) then parse_members n (obj_set k v acc) (tl (skip_ws r))
              else if startsWith ''}'' (skip_ws r) then Some (obj_set k v acc, tl (skip_ws r))
              else None)))"

text \<open>\<open>JSON.parse\<close>: \<open>None\<close> is the \<open>SyntaxError\<close>.\<close>

definition parse_json :: "string \<Rightarrow> json option" where
  "parse_json s =
     (case parse_value (2 * length s + 2) s of
        Some (v, r) \<Rightarrow> if skip_ws r = [] then Some v else None
      | None \<Rightarrow> None)"

section \<open>The fuel is enough\<close>

lemma skip_ws_shorter: "length (skip_ws s) \<le> length s"
  by (simp add: skip_ws_def length_dropWhile_le)

lemma parse_string_shorter: "parse_string s = Some (t, r) \<Longrightarrow> length r < length s"
proof (induction s arbitrary: t r rule: parse_string.induct)
  case (2 c s)
  then show ?case
    by (auto split: if_splits list.splits option.splits) fastforce+
qed simp

lemma parse_fraction_shorter: "parse_fraction s = Some (f, r) \<Longrightarrow> length r \<le> length s"
  by (auto simp: parse_fraction_def Let_def split: if_splits)

lemma parse_exponent_shorter: "parse_exponent s = Some (e, r) \<Longrightarrow> length r \<le> length s"
  by (auto simp: parse_exponent_def Let_def split: if_splits)

lemma parse_number_shorter: "parse_number s = Some (q, r) \<Longrightarrow> length r < length s"
proof -
  assume a: "parse_number s = Some (q, r)"
  let ?r = "if startsWith ''-'' s then tl s else s"
  let ?w = "takeWhile is_digit ?r"
  obtain f r1 e where p: "?w \<noteq> []" "parse_fraction (drop (length ?w) ?r) = Some (f, r1)" "parse_exponent r1 = Some (e, r)"
    using a by (auto simp: parse_number_def Let_def bind_eq_Some_conv split: if_splits)
  have "length r \<le> length (drop (length ?w) ?r)"
    using parse_fraction_shorter[OF p(2)] parse_exponent_shorter[OF p(3)] by simp
  also have "\<dots> < length ?r"
    using p(1) takeWhile_eq_Nil_iff[of is_digit ?r] by (cases ?r) auto
  also have "\<dots> \<le> length s" by simp
  finally show ?thesis .
qed

lemma startsWith_nonempty: "startsWith (c # p) s \<Longrightarrow> s \<noteq> []"
  by (auto simp: startsWith_def)

lemma tl_skip_shorter: "startsWith (c # p) (skip_ws r) \<Longrightarrow> length (tl (skip_ws r)) < length r"
  using skip_ws_shorter[of r] startsWith_nonempty[of c p "skip_ws r"] by (cases "skip_ws r") auto

lemma startsWith_length: "startsWith p s \<Longrightarrow> length p \<le> length s"
  by (metis length_take min.cobounded1 min_def startsWith_def)

lemma parse_shorter:
  "parse_value n s = Some (v, r) \<Longrightarrow> length r < length s"
  "parse_elements n s = Some (vs, r) \<Longrightarrow> length r < length s"
  "parse_members n acc s = Some (kvs, r) \<Longrightarrow> length r < length s"
proof (induction n s and n s and n acc s arbitrary: v r and vs r and kvs r
    rule: parse_value_parse_elements_parse_members.induct)
  case (2 n s)
  show ?case
  proof (cases "skip_ws s")
    case Nil
    then show ?thesis using 2(3) by simp
  next
    case (Cons c t)
    then have l: "Suc (length t) \<le> length s" using skip_ws_shorter[of s] by simp
    show ?thesis
      using 2 Cons l skip_ws_shorter[of t] startsWith_length
      by (auto split: if_splits dest!: parse_string_shorter parse_number_shorter)
         fastforce+
  qed
next
  case (4 n s)
  from 4(3) obtain v1 r1 where v: "parse_value n s = Some (v1, r1)" by (auto simp: bind_eq_Some_conv)
  then have l: "length r1 < length s" by (rule 4(1))
  show ?case
  proof (cases "startsWith '','' (skip_ws r1)")
    case True
    then obtain us where "parse_elements n (tl (skip_ws r1)) = Some (us, r)" using 4(3) v by auto
    then show ?thesis using 4(2)[OF v refl True] tl_skip_shorter[OF True] l by simp
  next
    case False
    then show ?thesis using 4(3) v l by (auto split: if_splits dest!: tl_skip_shorter)
  qed
next
  case (6 n acc s)
  obtain c s1 where c: "skip_ws s = c # s1" "octet c = 34" using 6(3) by (auto split: list.splits if_splits)
  obtain k s2 where k: "parse_string s1 = Some (k, s2)" using 6(3) c by (auto simp: bind_eq_Some_conv split: if_splits)
  have colon: "startsWith '':'' (skip_ws s2)" using 6(3) c k by (auto split: if_splits)
  obtain v1 r1 where v: "parse_value n (tl (skip_ws s2)) = Some (v1, r1)"
    using 6(3) c k colon by (auto simp: bind_eq_Some_conv split: if_splits)
  have "Suc (length s1) \<le> length s" using skip_ws_shorter[of s] c by simp
  moreover have "length s2 < length s1" using parse_string_shorter[OF k] .
  moreover have "length r1 < length (tl (skip_ws s2))" using 6(1)[OF c(1) _ k refl _ v] c(2) colon by simp
  ultimately have l: "length r1 < length s" using tl_skip_shorter[OF colon] by simp
  show ?case
  proof (cases "startsWith '','' (skip_ws r1)")
    case True
    then have "parse_members n (obj_set k v1 acc) (tl (skip_ws r1)) = Some (kvs, r)" using 6(3) c k colon v by simp
    then show ?thesis using 6(2)[OF c(1) _ k refl _ v refl True] c(2) colon tl_skip_shorter[OF True] l by simp
  next
    case False
    then show ?thesis using 6(3) c k colon v l by (auto split: if_splits dest!: tl_skip_shorter)
  qed
qed simp_all

text \<open>With fuel above twice the length, the result no longer depends on the fuel.\<close>

lemma parse_fuel:
  "2 * length s + 1 \<le> n \<Longrightarrow> 2 * length s + 1 \<le> m \<Longrightarrow> parse_value n s = parse_value m s"
  "2 * length s + 2 \<le> n \<Longrightarrow> 2 * length s + 2 \<le> m \<Longrightarrow> parse_elements n s = parse_elements m s"
  "2 * length s + 2 \<le> n \<Longrightarrow> 2 * length s + 2 \<le> m \<Longrightarrow> parse_members n acc s = parse_members m acc s"
proof (induction n arbitrary: s m acc)
  case (Suc n)
  {
    case 1
    obtain m' where m: "m = Suc m'" using 1 by (cases m) auto
    show ?case
    proof (cases "skip_ws s")
      case (Cons c r)
      then have l: "2 * length r + 2 \<le> n" "2 * length r + 2 \<le> m'"
        using skip_ws_shorter[of s] 1 m by simp_all
      have e: "parse_elements n r = parse_elements m' r" by (rule Suc.IH(2)[OF l])
      have k: "parse_members n [] r = parse_members m' [] r" by (rule Suc.IH(3)[OF l])
      show ?thesis by (simp add: m Cons e k)
    qed (simp add: m)
  next
    case 2
    obtain m' where m: "m = Suc m'" using 2 by (cases m) auto
    have v: "parse_value n s = parse_value m' s" by (rule Suc.IH(1)) (use 2 m in simp_all)
    show ?case
    proof (cases "parse_value m' s")
      case (Some p)
      obtain x r where p: "p = (x, r)" by (cases p)
      have r: "length r < length s" using parse_shorter(1)[of m' s x r] Some p by simp
      show ?thesis
      proof (cases "startsWith '','' (skip_ws r)")
        case True
        have "parse_elements n (tl (skip_ws r)) = parse_elements m' (tl (skip_ws r))"
          by (rule Suc.IH(2)) (use 2 m r tl_skip_shorter[OF True] in simp_all)
        then show ?thesis by (simp add: m v Some p)
      qed (simp add: m v Some p)
    qed (simp add: m v)
  next
    case 3
    obtain m' where m: "m = Suc m'" using 3 by (cases m) auto
    show ?case
    proof (cases "skip_ws s")
      case (Cons c s1)
      then have l: "Suc (length s1) \<le> length s" using skip_ws_shorter[of s] by simp
      show ?thesis
      proof (cases "parse_string s1")
        case (Some p)
        obtain k s2 where p: "p = (k, s2)" by (cases p)
        have s2: "length s2 < length s1" using parse_string_shorter[of s1 k s2] Some p by simp
        show ?thesis
        proof (cases "startsWith '':'' (skip_ws s2)")
          case colon: True
          have t: "length (tl (skip_ws s2)) < length s2" by (rule tl_skip_shorter[OF colon])
          have v: "parse_value n (tl (skip_ws s2)) = parse_value m' (tl (skip_ws s2))"
            by (rule Suc.IH(1)) (use 3 m l s2 t in simp_all)
          show ?thesis
          proof (cases "parse_value m' (tl (skip_ws s2))")
            case value_read: (Some q)
            obtain x r where q: "q = (x, r)" by (cases q)
            have r: "length r < length (tl (skip_ws s2))" by (rule parse_shorter(1)[OF value_read[unfolded q]])
            show ?thesis
            proof (cases "startsWith '','' (skip_ws r)")
              case True
              have "parse_members n (obj_set k x acc) (tl (skip_ws r)) = parse_members m' (obj_set k x acc) (tl (skip_ws r))"
                by (rule Suc.IH(3)) (use 3 m l s2 t r tl_skip_shorter[OF True] in simp_all)
              then show ?thesis by (simp add: m Cons Some p colon v value_read q)
            qed (simp add: m Cons Some p colon v value_read q)
          qed (simp add: m Cons Some p colon v)
        qed (simp add: m Cons Some p)
      qed (simp add: m Cons)
    qed (simp add: m)
  }
qed simp_all

lemma parse_enough: "2 * length s + 2 \<le> n \<Longrightarrow> parse_value n s = parse_value (2 * length s + 2) s"
  by (rule parse_fuel(1)) simp_all

section \<open>What is printed parses\<close>

lemma octet_backslash: "octet (chr 92) = 92" "octet (chr 34) = 34"
  by simp_all

lemma hex4_low [simp]: "octet c < 32 \<Longrightarrow> hex4 CHR ''0'' CHR ''0'' (hex_digit (octet c div 16)) (hex_digit (octet c mod 16)) = Some (octet c)"
  by (simp add: hex4_def) (simp add: hex_val_def)

lemma chr_octet_eq: "octet c = n \<Longrightarrow> chr n = c"
  by (metis char_of_char)

lemma parse_string_char: "parse_string (quote_char c @ s) = map_option (apfst ((#) c)) (parse_string s)"
proof -
  consider "octet c = 34" | "octet c = 92" | "octet c = 8" | "octet c = 9" | "octet c = 10" | "octet c = 12" | "octet c = 13"
    | "octet c \<notin> {34, 92, 8, 9, 10, 12, 13}" "octet c < 32" | "octet c \<notin> {34, 92}" "\<not> octet c < 32" by fastforce
  then show ?thesis
    by cases (auto simp: quote_char_def Let_def escape_of_def chr_octet_eq)
qed

lemma parse_string_quote: "parse_string (concat (map quote_char s) @ chr 34 # r) = Some (s, r)"
  by (induction s) (simp_all add: parse_string_char)

lemma wide_escape_plain: "octet c \<noteq> 92 \<Longrightarrow> wide_escape (c # s) = wide_escape s"
  by (cases s) auto

lemma wide_escape_digits: "list_all is_digit w \<Longrightarrow> wide_escape (w @ s) = wide_escape s"
  by (induction w) (auto simp: wide_escape_plain is_digit_def)

lemma wide_escape_pair: "b \<noteq> CHR ''u'' \<Longrightarrow> wide_escape (chr 92 # b # s) = wide_escape s"
  by (auto split: list.splits)

lemma wide_escape_low:
  assumes "n < 32"
  shows "wide_escape (chr 92 # CHR ''u'' # CHR ''0'' # CHR ''0'' # hex_digit (n div 16) # hex_digit (n mod 16) # s) = wide_escape s"
proof -
  have h: "octet (hex_digit (n div 16)) \<noteq> 92" "octet (hex_digit (n mod 16)) \<noteq> 92"
    using assms by (auto simp: hex_digit_def)
  have "octet (chr n) = n" using assms by simp
  then have "hex4 CHR ''0'' CHR ''0'' (hex_digit (n div 16)) (hex_digit (n mod 16)) = Some n"
    using hex4_low[of "chr n"] assms by simp
  then have "wide_escape (chr 92 # CHR ''u'' # CHR ''0'' # CHR ''0'' # hex_digit (n div 16) # hex_digit (n mod 16) # s)
      = wide_escape (CHR ''0'' # CHR ''0'' # hex_digit (n div 16) # hex_digit (n mod 16) # s)"
    using assms by (subst wide_escape.simps) (simp del: wide_escape.simps)
  then show ?thesis using h by (simp add: wide_escape_plain del: wide_escape.simps)
qed

lemma chr_not_u: "chr 34 \<noteq> CHR ''u''" "chr 92 \<noteq> CHR ''u''"
  by (auto dest!: arg_cong[where f = octet])

lemma wide_escape_quote_char: "wide_escape (quote_char c @ s) = wide_escape s"
proof -
  consider "octet c = 34" | "octet c = 92" | "octet c = 8" | "octet c = 9" | "octet c = 10" | "octet c = 12" | "octet c = 13"
    | "octet c \<notin> {34, 92, 8, 9, 10, 12, 13}" "octet c < 32" | "octet c \<notin> {34, 92}" "\<not> octet c < 32" by fastforce
  then show ?thesis
    by cases
       (simp_all add: quote_char_def Let_def wide_escape_pair chr_not_u wide_escape_low wide_escape_plain del: wide_escape.simps)
qed

lemma wide_escape_quote: "wide_escape (quote s @ t) = wide_escape t"
proof -
  have "wide_escape (concat (map quote_char s) @ u) = wide_escape u" for u
    by (induction s) (simp_all add: wide_escape_quote_char)
  then show ?thesis by (simp add: quote_def wide_escape_plain)
qed

text \<open>Printed integers.\<close>

lemma startsWith_Cons [simp]:
  "startsWith [] s" "startsWith (c # p) (d # s) \<longleftrightarrow> c = d \<and> startsWith p s" "\<not> startsWith (c # p) []"
  by (auto simp: startsWith_def)

lemma dec_no_leading_zero: "startsWith ''0'' (dec n) \<Longrightarrow> length (dec n) = 1"
proof (induction n rule: dec.induct)
  case (1 n)
  show ?case
  proof (cases "n < 10")
    case False
    then have "dec n = dec (n div 10) @ [digit_char (n mod 10)]" by (subst dec.simps) simp
    moreover have "startsWith ''0'' (dec (n div 10)) \<Longrightarrow> n div 10 = 0"
    proof -
      assume "startsWith ''0'' (dec (n div 10))"
      moreover from this have "length (dec (n div 10)) = 1" using 1(1) False by simp
      ultimately have "dec (n div 10) = ''0''" by (cases "dec (n div 10)") auto
      then show "n div 10 = 0" using digits_val_dec[of "n div 10"] by (simp add: digits_val_def digit_val_def)
    qed
    ultimately show ?thesis using 1(2) False by (cases "dec (n div 10)") (auto simp: div_eq_0_iff)
  qed (simp add: dec_small)
qed

lemma takeWhile_digits:
  assumes "list_all is_digit w" "r = [] \<or> \<not> is_digit (hd r)"
  shows "takeWhile is_digit (w @ r) = w"
  using assms by (cases r) (auto simp: list_all_iff takeWhile_append)

lemma parse_number_int:
  assumes "\<bar>i\<bar> \<le> 2 ^ 53" "r \<noteq> []" "\<not> is_digit (hd r)" "hd r \<notin> set ''.eE''"
  shows "parse_number (show_int i @ r) = Some (of_int i, r)"
proof -
  let ?w = "dec (nat \<bar>i\<bar>)"
  have w: "list_all is_digit ?w" "?w \<noteq> []" using dec_digits by (auto simp: list_all_iff)
  then have d: "is_digit (hd ?w)" by (cases ?w) auto
  then have hd: "\<not> startsWith ''-'' (?w @ r)" using w(2) by (cases ?w) (auto simp: is_digit_def)
  have tw: "takeWhile is_digit (?w @ r) = ?w" by (rule takeWhile_digits[OF w(1)]) (use assms in simp)
  obtain c r' where c: "r = c # r'" "c \<noteq> CHR ''.''" "c \<noteq> CHR ''e''" "c \<noteq> CHR ''E''"
    using assms(2,4) by (cases r) auto
  have "\<not> startsWith ''.'' r" "\<not> startsWith ''e'' r" "\<not> startsWith ''E'' r" using c by simp_all
  then have rest: "parse_fraction r = Some ([], r)" "parse_exponent r = Some (0, r)"
    by (simp_all only: parse_fraction_def parse_exponent_def if_False simp_thms)
  have fl: "fl (of_int i) = (of_int i :: rat)" using assms(1) by (simp add: fl_of_int)
  have s: "show_int i = (if i < 0 then CHR ''-'' # ?w else ?w)" by (simp add: show_int_def)
  have v: "scaled (of_nat (digits_val (?w @ []))) (0 - int (length ([] :: string))) = (of_int \<bar>i\<bar> :: rat)"
    by (simp add: scaled_def)
  have z: "\<not> (startsWith ''0'' ?w \<and> length ?w \<noteq> 1)" using dec_no_leading_zero by blast
  have n: "parse_number s = Option.bind (parse_fraction (drop (length ?w) (?w @ r))) (\<lambda>(f, r1).
        Option.bind (parse_exponent r1) (\<lambda>(e, r2).
          let q = scaled (of_nat (digits_val (?w @ f))) (e - int (length f)) in Some (fl (if i < 0 then - q else q), r2)))"
    if "startsWith ''-'' s = (i < 0)" "(if i < 0 then tl s else s) = ?w @ r" for s
    unfolding parse_number_def Let_def that tw using w(2) z by (simp only: if_False if_True simp_thms)
  have "parse_number (show_int i @ r) = Some (fl (if i < 0 then - of_int \<bar>i\<bar> else of_int \<bar>i\<bar>), r)"
  proof (subst n)
    show "startsWith ''-'' (show_int i @ r) = (i < 0)" using hd unfolding s by (cases "i < 0") simp_all
    show "(if i < 0 then tl (show_int i @ r) else show_int i @ r) = ?w @ r" unfolding s by simp
  qed (use rest v in simp)
  then show ?thesis using fl by (cases "i < 0") simp_all
qed

declare parse_value.simps [simp del] parse_elements.simps [simp del] parse_members.simps [simp del]

end
