(* ===== verification/Render.thy ===== *)
theory Render
  imports Database Json
begin

text \<open>
  \<open>api/src/notification/domain/render.ts\<close>: the message templates loaded from the locale
  bundles, and the rendering of one message. Reading and parsing a bundle file is a parameter
  (\<open>bundles\<close>, \<open>None\<close> when the read or the parse throws); what is done with the parsed
  object is modelled.
\<close>

section \<open>Loading\<close>

record template =
  tp_title :: string
  tp_body :: string

type_synonym templates = "(string \<times> (string \<times> template) list) list"

definition SOURCE_LOCALE :: string where
  "SOURCE_LOCALE = ''bn''"

definition LOCALES :: "string list" where
  "LOCALES = [SOURCE_LOCALE, ''en'']"

fun flatten :: "(string \<times> json) list \<Rightarrow> string \<Rightarrow> (string \<times> json) list \<Rightarrow> (string \<times> json) list" where
  "flatten [] prefix out = out"
| "flatten ((key, JObj inner) # rest) prefix out =
     flatten rest prefix (flatten inner (if prefix = [] then key else prefix @ ''.'' @ key) out)"
| "flatten ((key, nested) # rest) prefix out =
     flatten rest prefix (obj_set (if prefix = [] then key else prefix @ ''.'' @ key) nested out)"

text \<open>The regular expression \<open>/^(.*)\.(title|body)$/\<close>: the stem, and whether it is the title.\<close>

definition match_field :: "string \<Rightarrow> (string \<times> bool) option" where
  "match_field dotted =
     (let n = length dotted in
      if 6 \<le> n \<and> drop (n - 6) dotted = ''.title'' \<and> (\<forall>c\<in>set (take (n - 6) dotted). of_char c \<noteq> (10::nat) \<and> of_char c \<noteq> (13::nat))
      then Some (take (n - 6) dotted, True)
      else if 5 \<le> n \<and> drop (n - 5) dotted = ''.body'' \<and> (\<forall>c\<in>set (take (n - 5) dotted). of_char c \<noteq> (10::nat) \<and> of_char c \<noteq> (13::nat))
      then Some (take (n - 5) dotted, False)
      else None)"

definition empty_template :: template where
  "empty_template = \<lparr>tp_title = '''', tp_body = ''''\<rparr>"

definition add_entry :: "string \<Rightarrow> templates \<Rightarrow> string \<times> json \<Rightarrow> templates" where
  "add_entry locale ts entry =
     (case (match_field (fst entry), snd entry) of
        (Some (stem, is_title), JStr v) \<Rightarrow>
          let key = ''notification.'' @ stem;
              by_locale = (case map_of ts key of None \<Rightarrow> [] | Some b \<Rightarrow> b);
              existing = (case map_of by_locale locale of None \<Rightarrow> empty_template | Some t \<Rightarrow> t)
          in obj_set key
               (obj_set locale (if is_title then existing\<lparr>tp_title := v\<rparr> else existing\<lparr>tp_body := v\<rparr>) by_locale) ts
      | _ \<Rightarrow> ts)"

fun load_locales :: "(string \<Rightarrow> (string \<times> json) list option) \<Rightarrow> string list \<Rightarrow> templates \<Rightarrow> err + templates" where
  "load_locales bundles [] ts = Inr ts"
| "load_locales bundles (locale # rest) ts =
     (case bundles locale of
        None \<Rightarrow>
          if locale = SOURCE_LOCALE
          then Inl (PlainError (''Cannot load required '' @ SOURCE_LOCALE @ '' notification templates''))
          else load_locales bundles rest ts
      | Some parsed \<Rightarrow> load_locales bundles rest (foldl (add_entry locale) ts (flatten parsed '''' [])))"

definition loadTemplates :: "(string \<Rightarrow> (string \<times> json) list option) \<Rightarrow> err + templates" where
  "loadTemplates bundles = load_locales bundles LOCALES []"

section \<open>Rendering\<close>

text \<open>\<open>text.replace(/\{(\w+)\}/g, ...)\<close>: scan for \<open>{name}\<close> from the left.\<close>

definition placeholder_at :: "string \<Rightarrow> (string \<times> string) option" where
  "placeholder_at cs =
     (let k = takeWhile is_word_char cs; r = dropWhile is_word_char cs
      in if k \<noteq> [] \<and> r \<noteq> [] \<and> hd r = CHR ''}'' then Some (k, tl r) else None)"

lemma placeholder_at_shorter: "placeholder_at cs = Some (k, r) \<Longrightarrow> length r < length cs"
proof -
  assume "placeholder_at cs = Some (k, r)"
  then have "r = tl (dropWhile is_word_char cs)" "dropWhile is_word_char cs \<noteq> []"
    by (auto simp: placeholder_at_def Let_def split: if_splits)
  then show ?thesis
    using length_dropWhile_le[of is_word_char cs] by (cases "dropWhile is_word_char cs") auto
qed

function substitute :: "string \<Rightarrow> (string \<times> string) list \<Rightarrow> err + string" where
  "substitute [] params = Inr []"
| "substitute (c # cs) params =
     (case (if c = CHR ''{'' then placeholder_at cs else None) of
        None \<Rightarrow> sum_bind (substitute cs params) (\<lambda>s. Inr (c # s))
      | Some (key, rest) \<Rightarrow>
          (case map_of params key of
             None \<Rightarrow> Inl (MissingTemplateError (''Missing parameter '' @ key))
           | Some v \<Rightarrow> sum_bind (substitute rest params) (\<lambda>s. Inr (v @ s))))"
  by pat_completeness auto
termination
  by (relation "measure (\<lambda>(t, _). length t)")
     (auto dest: placeholder_at_shorter split: if_splits)

definition renderTemplate ::
  "templates \<Rightarrow> string \<Rightarrow> string \<Rightarrow> (string \<times> string) list \<Rightarrow> err + template" where
  "renderTemplate TEMPLATES templateKey language params =
     (case map_of TEMPLATES templateKey of
        None \<Rightarrow> Inl (MissingTemplateError (''No template for key: '' @ templateKey))
      | Some byLanguage \<Rightarrow>
          (case (case map_of byLanguage language of
                   Some t \<Rightarrow> Some t | None \<Rightarrow> map_of byLanguage SOURCE_LOCALE) of
             None \<Rightarrow> Inl (MissingTemplateError (''Template '' @ templateKey @ '' has no entry to fall back to''))
           | Some t \<Rightarrow>
               sum_bind (substitute (tp_title t) params) (\<lambda>title.
               sum_bind (substitute (tp_body t) params) (\<lambda>body.
                 Inr \<lparr>tp_title = title, tp_body = body\<rparr>))))"

definition knownTemplateKeys :: "templates \<Rightarrow> string list" where
  "knownTemplateKeys TEMPLATES = map fst TEMPLATES"

section \<open>Placeholders\<close>

function placeholders :: "string \<Rightarrow> string list" where
  "placeholders [] = []"
| "placeholders (c # cs) =
     (case (if c = CHR ''{'' then placeholder_at cs else None) of
        None \<Rightarrow> placeholders cs
      | Some (key, rest) \<Rightarrow> key # placeholders rest)"
  by pat_completeness auto
termination
  by (relation "measure length") (auto dest: placeholder_at_shorter split: if_splits)

lemma substitute_total_iff:
  "(\<exists>s. substitute t params = Inr s) \<longleftrightarrow> set (placeholders t) \<subseteq> dom (map_of params)"
proof (induction t rule: placeholders.induct)
  case (2 c cs)
  show ?case
  proof (cases "if c = CHR ''{'' then placeholder_at cs else None")
    case None
    then show ?thesis using 2(1)[OF None] by (auto simp: sum_bind_Inr_iff)
  next
    case (Some kr)
    obtain k r where kr: "kr = (k, r)" by (cases kr)
    then show ?thesis
      using 2(2)[OF Some kr[symmetric]] Some by (auto simp: sum_bind_Inr_iff split: option.splits)
  qed
qed simp

lemma substitute_no_placeholder: "placeholders t = [] \<Longrightarrow> substitute t params = Inr t"
proof (induction t rule: placeholders.induct)
  case (2 c cs)
  then show ?case
    by (cases "if c = CHR ''{'' then placeholder_at cs else None") auto
qed simp

section \<open>Properties\<close>

text \<open>
  Rendering is total exactly on the complete parameter maps: a message is produced iff the
  key has a template in the recipient's language or else in Bangla, and every placeholder of
  its title and body has a parameter. An English template is never used for a recipient whose
  language has none.
\<close>

theorem renderTemplate_total_iff:
  "(\<exists>m. renderTemplate TEMPLATES key lang params = Inr m) \<longleftrightarrow>
     (\<exists>byLanguage t. map_of TEMPLATES key = Some byLanguage \<and>
        (map_of byLanguage lang = Some t \<or>
         map_of byLanguage lang = None \<and> map_of byLanguage ''bn'' = Some t) \<and>
        set (placeholders (tp_title t)) \<union> set (placeholders (tp_body t)) \<subseteq> dom (map_of params))"
proof -
  have "(\<exists>m. sum_bind (substitute (tp_title t) params) (\<lambda>title.
           sum_bind (substitute (tp_body t) params) (\<lambda>body.
             Inr \<lparr>tp_title = title, tp_body = body\<rparr>)) = Inr m) \<longleftrightarrow>
        set (placeholders (tp_title t)) \<union> set (placeholders (tp_body t)) \<subseteq> dom (map_of params)" for t
    using substitute_total_iff[of "tp_title t" params] substitute_total_iff[of "tp_body t" params]
    by (auto simp: sum_bind_Inr_iff)
  then show ?thesis
    by (auto simp: renderTemplate_def SOURCE_LOCALE_def split: option.splits)
qed

end
