(* ===== verification/Dispatcher.thy ===== *)
theory Dispatcher
  imports Notification Render
begin

text \<open>
  \<open>notification.dispatcher.ts\<close>: one pass over the outbox. The two gateways of
  \<open>gateways.ts\<close> are interfaces to services that are not part of the repository: a gateway
  is a function from the number of calls made so far and the message to the error text it
  throws, \<open>None\<close> when it accepts. The world records what each accepted, so that what
  reached a user is visible. Error texts the sources do not fix are read through the parameter
  \<open>message\<close>.
\<close>

section \<open>World and gateways\<close>

record gateway_world = world +
  gateway_calls :: nat
  sms_log :: "(string \<times> string) list"
  push_log :: "(string \<times> string \<times> string) list"

type_synonym sms_gateway = "nat \<Rightarrow> string \<Rightarrow> string \<Rightarrow> string option"
type_synonym push_gateway = "nat \<Rightarrow> string \<Rightarrow> string \<Rightarrow> string \<Rightarrow> string option"

definition sms_send :: "sms_gateway \<Rightarrow> string \<Rightarrow> string \<Rightarrow> (gateway_world, unit) act" where
  "sms_send gw phone body w =
     (let w1 = w\<lparr>gateway_calls := Suc (gateway_calls w)\<rparr> in
      case gw (gateway_calls w) phone body of
        Some msg \<Rightarrow> (Inl (PlainError msg), w1)
      | None \<Rightarrow> (Inr (), w1\<lparr>sms_log := sms_log w1 @ [(phone, body)]\<rparr>))"

definition push_send :: "push_gateway \<Rightarrow> string \<Rightarrow> string \<Rightarrow> string \<Rightarrow> (gateway_world, unit) act" where
  "push_send gw user title body w =
     (let w1 = w\<lparr>gateway_calls := Suc (gateway_calls w)\<rparr> in
      case gw (gateway_calls w) user title body of
        Some msg \<Rightarrow> (Inl (PlainError msg), w1)
      | None \<Rightarrow> (Inr (), w1\<lparr>push_log := push_log w1 @ [(user, title, body)]\<rparr>))"

text \<open>\<open>LoggingSmsGateway\<close> and \<open>LoggingPushGateway\<close> log and succeed.\<close>

definition LoggingSmsGateway :: sms_gateway where
  "LoggingSmsGateway n phone body = None"

definition LoggingPushGateway :: push_gateway where
  "LoggingPushGateway n user title body = None"

section \<open>Operations\<close>

definition MAX_ATTEMPTS :: int where
  "MAX_ATTEMPTS = 5"

definition BATCH_SIZE :: nat where
  "BATCH_SIZE = 50"

datatype delivery = Delivery_Sent | Delivery_Failed

record dispatch_summary =
  ds_claimed :: nat
  ds_sent :: nat
  ds_failed :: nat

record dispatcher =
  dp_templates :: templates
  dp_sms :: sms_gateway
  dp_push :: push_gateway
  dp_message :: "err \<Rightarrow> string"

definition deliver :: "dispatcher \<Rightarrow> outbox_row \<Rightarrow> (gateway_world, delivery) act" where
  "deliver dp row =
     act_catch
       (act_bind (act_lift (renderTemplate (dp_templates dp) (n_template_key row) (n_language row) (n_params row))) (\<lambda>m.
        act_bind (if n_channel row = Sms
                  then sms_send (dp_sms dp) (n_phone_e164 row) (tp_body m)
                  else push_send (dp_push dp) (n_user_id row) (tp_title m) (tp_body m)) (\<lambda>_.
        act_bind (transact (markSent (n_id row))) (\<lambda>_.
          act_return Delivery_Sent))))
       (\<lambda>error.
          act_bind (transact (markFailed (n_id row) (dp_message dp error) MAX_ATTEMPTS)) (\<lambda>_.
            act_return Delivery_Failed))"

fun dispatch_rows :: "dispatcher \<Rightarrow> outbox_row list \<Rightarrow> dispatch_summary \<Rightarrow> (gateway_world, dispatch_summary) act" where
  "dispatch_rows dp [] summary = act_return summary"
| "dispatch_rows dp (row # rows) summary =
     act_bind (deliver dp row) (\<lambda>outcome.
       dispatch_rows dp rows
         (if outcome = Delivery_Sent then summary\<lparr>ds_sent := ds_sent summary + 1\<rparr>
          else summary\<lparr>ds_failed := ds_failed summary + 1\<rparr>))"

definition dispatchBatch :: "dispatcher \<Rightarrow> (string \<Rightarrow> bool) \<Rightarrow> nat \<Rightarrow> (gateway_world, dispatch_summary) act" where
  "dispatchBatch dp locked limit =
     act_bind (transact (claimPending locked limit)) (\<lambda>pending.
       dispatch_rows dp pending \<lparr>ds_claimed = length pending, ds_sent = 0, ds_failed = 0\<rparr>)"

section \<open>The state of a row\<close>

text \<open>
  Attempts never go negative, a row still pending has attempts left, and a row is abandoned
  only after \<open>MAX_ATTEMPTS\<close> attempts.
\<close>

definition attempts_ok :: "outbox_row \<Rightarrow> bool" where
  "attempts_ok r \<longleftrightarrow> 0 \<le> n_attempts r \<and>
     (n_status r = N_Pending \<longrightarrow> n_attempts r < MAX_ATTEMPTS) \<and>
     (n_status r = N_Abandoned \<longrightarrow> MAX_ATTEMPTS \<le> n_attempts r)"

definition outbox_ok :: "db \<Rightarrow> bool" where
  "outbox_ok d \<longleftrightarrow> (\<forall>r\<in>set (outbox d). attempts_ok r)"

lemma outbox_ok_started: "outbox_ok (committed w) \<Longrightarrow> outbox_ok (started w)"
  by (simp add: outbox_ok_def started_def)

lemma outbox_ok_claim: "claimPending locked n d = Inr (rows, d') \<Longrightarrow> d' = d"
  by (auto simp: claimPending_def)

lemma attempts_ok_sent: "attempts_ok r \<Longrightarrow> attempts_ok (sent_row t r)"
  by (simp add: attempts_ok_def sent_row_def)

lemma attempts_ok_failed: "attempts_ok r \<Longrightarrow> attempts_ok (failed_row e MAX_ATTEMPTS r)"
  by (simp add: attempts_ok_def failed_row_def)

lemma attempts_ok_new: "attempts_ok (new_outbox_row i t e)"
  by (simp add: attempts_ok_def new_outbox_row_def MAX_ATTEMPTS_def)

lemma outbox_ok_markSent: "outbox_ok d \<Longrightarrow> markSent i d = Inr (x, d') \<Longrightarrow> outbox_ok d'"
  by (auto simp: outbox_ok_def markSent_def in_update_rows attempts_ok_sent)

lemma outbox_ok_markFailed: "outbox_ok d \<Longrightarrow> markFailed i e MAX_ATTEMPTS d = Inr (x, d') \<Longrightarrow> outbox_ok d'"
  by (auto simp: outbox_ok_def markFailed_def in_update_rows attempts_ok_failed)

lemma outbox_ok_enqueue:
  assumes "enqueue rq d = Inr (x, d')" "outbox_ok d"
  shows "outbox_ok d'"
proof -
  obtain u key cs where "stmt_for cs (\<lambda>c. enqueue_entry (entry_for rq u key c)) d = Inr (x, d')"
    using assms(1) by (auto simp: enqueue_Inr_iff)
  then have "outbox_ok d \<longrightarrow> outbox_ok d'"
  proof (rule stmt_for_preserves)
    fix c s v t assume "enqueue_entry (entry_for rq u key c) s = Inr (v, t)"
    then show "outbox_ok s \<longrightarrow> outbox_ok t"
      by (auto dest!: enqueue_entry_Inr simp: outbox_ok_def attempts_ok_new)
  qed auto
  then show ?thesis using assms(2) by simp
qed

section \<open>One delivery\<close>

text \<open>
  The gateways do not touch the database, so the committed state after a delivery is the one
  before with at most the two marking statements applied.
\<close>

lemma send_world:
  assumes "(if n_channel row = Sms then sms_send gw p b else push_send gw' us ti b) w = (r, w')"
  shows "committed w' = committed w" "inflight w' = inflight w" "tx_faults w' = tx_faults w" "clock w' = clock w"
  using assms by (auto simp: sms_send_def push_send_def Let_def split: option.splits if_splits)

lemma transact_idle_committed:
  assumes "inflight w = None" "transact m w = (r, w')"
  shows "inflight w' = None" and "committed w' = committed w \<or> (\<exists>a. m (started w) = Inr (a, committed w'))"
  using pg.stays_idle[OF assms] pg.all_or_nothing[OF assms] by auto

lemma deliver_keeps:
  assumes idle: "inflight w = None" and dl: "deliver dp row w = (r, w')" and P: "P (committed w)"
    and "\<And>d t. P d \<Longrightarrow> P (d\<lparr>now_ts := t\<rparr>)"
    and "\<And>d x d'. P d \<Longrightarrow> markSent (n_id row) d = Inr (x, d') \<Longrightarrow> P d'"
    and "\<And>d e x d'. P d \<Longrightarrow> markFailed (n_id row) e MAX_ATTEMPTS d = Inr (x, d') \<Longrightarrow> P d'"
  shows "inflight w' = None \<and> P (committed w')"
proof -
  have tx: "inflight v' = None \<and> P (committed v')"
    if "transact m v = (s, v')" "inflight v = None" "P (committed v)"
      "\<And>d x d'. P d \<Longrightarrow> m d = Inr (x, d') \<Longrightarrow> P d'"
    for m :: "unit sql" and v v' :: gateway_world and s
    using transact_idle_committed[OF that(2,1)] that(3,4) assms(4)[OF that(3)]
    by (auto simp: started_def)
  let ?send = "\<lambda>m. if n_channel row = Sms then sms_send (dp_sms dp) (n_phone_e164 row) (tp_body m)
      else push_send (dp_push dp) (n_user_id row) (tp_title m) (tp_body m)"
  let ?handler = "\<lambda>error. act_bind (transact (markFailed (n_id row) (dp_message dp error) MAX_ATTEMPTS))
      (\<lambda>_. act_return Delivery_Failed)"
  have h: "inflight w' = None \<and> P (committed w')"
    if "?handler e v = (r, w')" "inflight v = None" "P (committed v)" for e v
  proof -
    obtain s v' where m: "transact (markFailed (n_id row) (dp_message dp e) MAX_ATTEMPTS) v = (s, v')"
      by (cases "transact (markFailed (n_id row) (dp_message dp e) MAX_ATTEMPTS) v")
    then have "w' = v'" using that(1) by (cases s) auto
    then show ?thesis using tx[OF m that(2,3) assms(6)] by simp
  qed
  show ?thesis
  proof (cases "renderTemplate (dp_templates dp) (n_template_key row) (n_language row) (n_params row)")
    case (Inl e)
    then show ?thesis using dl idle P by (intro h[of e w]) (auto simp: deliver_def)
  next
    case (Inr m)
    obtain s w1 where s: "?send m w = (s, w1)" by (cases "?send m w")
    note w1 = send_world[OF s]
    show ?thesis
    proof (cases s)
      case (Inl e)
      then show ?thesis using dl Inr s w1 idle P by (intro h[of e w1]) (auto simp: deliver_def)
    next
      case s_ok: (Inr u)
      obtain t w2 where t: "transact (markSent (n_id row)) w1 = (t, w2)" by (cases "transact (markSent (n_id row)) w1")
      have w2: "inflight w2 = None \<and> P (committed w2)" using tx[OF t _ _ assms(5)] w1 idle P by simp
      show ?thesis
      proof (cases t)
        case (Inl e)
        then show ?thesis using dl Inr s s_ok t w2 by (intro h[of e w2]) (auto simp: deliver_def)
      next
        case (Inr u')
        then show ?thesis using dl \<open>renderTemplate _ _ _ _ = Inr m\<close> s s_ok t w2 by (auto simp: deliver_def)
      qed
    qed
  qed
qed


lemma deliver_outcome:
  assumes "deliver dp row w = (r, w')"
  shows "r = Inr Delivery_Sent \<or> r = Inr Delivery_Failed \<or> (\<exists>e. r = Inl e)"
  using assms by (cases r) (auto intro: delivery.exhaust)

text \<open>Without connection failures the two marking transactions are plain updates.\<close>

lemma transact_mark:
  assumes "inflight w = None" "tx_faults w = []"
  shows "transact (markSent i) w =
      (Inr (), w\<lparr>committed := (started w)\<lparr>outbox := update_rows (\<lambda>r. n_id r = i) (sent_row (clock w)) (outbox (committed w))\<rparr>\<rparr>)"
    and "transact (markFailed i e n) w =
      (Inr (), w\<lparr>committed := (started w)\<lparr>outbox := update_rows (\<lambda>r. n_id r = i) (failed_row e n) (outbox (committed w))\<rparr>\<rparr>)"
  using assms by (simp_all add: transact_no_fault markSent_def markFailed_def started_def)

text \<open>A delivery that reports \<open>sent\<close> handed the rendered text over first, then marked the row.\<close>

lemma deliver_sent:
  assumes "deliver dp row w = (Inr Delivery_Sent, w')"
  obtains m w1 w2 where "renderTemplate (dp_templates dp) (n_template_key row) (n_language row) (n_params row) = Inr m"
    "(if n_channel row = Sms then sms_send (dp_sms dp) (n_phone_e164 row) (tp_body m)
      else push_send (dp_push dp) (n_user_id row) (tp_title m) (tp_body m)) w = (Inr (), w1)"
    "transact (markSent (n_id row)) w1 = (Inr (), w')"
proof -
  let ?send = "\<lambda>m. if n_channel row = Sms then sms_send (dp_sms dp) (n_phone_e164 row) (tp_body m)
      else push_send (dp_push dp) (n_user_id row) (tp_title m) (tp_body m)"
  let ?handler = "\<lambda>error. act_bind (transact (markFailed (n_id row) (dp_message dp error) MAX_ATTEMPTS))
      (\<lambda>_. act_return Delivery_Failed)"
  have h: "?handler e v \<noteq> (Inr Delivery_Sent, w')" for e v
    by (auto simp: act_bind_def split: prod.splits sum.splits)
  show thesis
  proof (cases "renderTemplate (dp_templates dp) (n_template_key row) (n_language row) (n_params row)")
    case (Inl e)
    then show thesis using assms h[of e w] by (simp add: deliver_def)
  next
    case (Inr m)
    obtain s w1 where s: "?send m w = (s, w1)" by (cases "?send m w")
    obtain t w2 where t: "transact (markSent (n_id row)) w1 = (t, w2)"
      by (cases "transact (markSent (n_id row)) w1")
    show thesis
    proof (cases s)
      case (Inl e)
      then show thesis using assms \<open>renderTemplate _ _ _ _ = Inr m\<close> s h[of e w1] by (simp add: deliver_def)
    next
      case s_ok: (Inr u)
      then show thesis
      proof (cases t)
        case (Inl e)
        then show thesis using assms \<open>renderTemplate _ _ _ _ = Inr m\<close> s s_ok t h[of e w2] by (simp add: deliver_def)
      next
        case (Inr u')
        then have "w' = w2" using assms \<open>renderTemplate _ _ _ _ = Inr m\<close> s s_ok t by (simp add: deliver_def)
        then show thesis using that[of m w1] \<open>renderTemplate _ _ _ _ = Inr m\<close> s s_ok t Inr by simp
      qed
    qed
  qed
qed

section \<open>A whole pass\<close>

lemma dispatch_rows_keeps:
  assumes "inflight w = None" "dispatch_rows dp rows s w = (r, w')" "P (committed w)"
    and "\<And>d t. P d \<Longrightarrow> P (d\<lparr>now_ts := t\<rparr>)"
    and "\<And>row d x d'. row \<in> set rows \<Longrightarrow> P d \<Longrightarrow> markSent (n_id row) d = Inr (x, d') \<Longrightarrow> P d'"
    and "\<And>row d e x d'. row \<in> set rows \<Longrightarrow> P d \<Longrightarrow> markFailed (n_id row) e MAX_ATTEMPTS d = Inr (x, d') \<Longrightarrow> P d'"
  shows "inflight w' = None \<and> P (committed w')"
  using assms
proof (induction rows arbitrary: s w)
  case (Cons row rows)
  obtain o1 w1 where d: "deliver dp row w = (o1, w1)" by (cases "deliver dp row w")
  have sent: "\<And>d x d'. P d \<Longrightarrow> markSent (n_id row) d = Inr (x, d') \<Longrightarrow> P d'"
    by (rule Cons.prems(5)[of row]) simp
  have failed: "\<And>d e x d'. P d \<Longrightarrow> markFailed (n_id row) e MAX_ATTEMPTS d = Inr (x, d') \<Longrightarrow> P d'"
    by (rule Cons.prems(6)[of row]) simp
  have 1: "inflight w1 = None \<and> P (committed w1)"
    by (rule deliver_keeps[where P = P, OF Cons.prems(1) d Cons.prems(3)]) (fact Cons.prems(4) sent failed)+
  show ?case
  proof (cases o1)
    case (Inl e)
    then show ?thesis using Cons.prems(2) d 1 by simp
  next
    case (Inr q)
    let ?s = "if q = Delivery_Sent then s\<lparr>ds_sent := ds_sent s + 1\<rparr> else s\<lparr>ds_failed := ds_failed s + 1\<rparr>"
    have r: "dispatch_rows dp rows ?s w1 = (r, w')" using Cons.prems(2) d Inr by simp
    show ?thesis
    proof (rule Cons.IH[OF conjunct1[OF 1] r conjunct2[OF 1]])
      show "P (d\<lparr>now_ts := t\<rparr>)" if "P d" for d t using Cons.prems(4) that .
      show "P d'" if "row \<in> set rows" "P d" "markSent (n_id row) d = Inr (x, d')" for row d x d'
        using Cons.prems(5)[of row, OF _ that(2,3)] that(1) by simp
      show "P d'" if "row \<in> set rows" "P d" "markFailed (n_id row) e MAX_ATTEMPTS d = Inr (x, d')" for row d e x d'
        using Cons.prems(6)[of row, OF _ that(2,3)] that(1) by simp
    qed
  qed
qed simp

lemma dispatch_rows_counts:
  assumes "dispatch_rows dp rows s w = (Inr s', w')"
  shows "ds_claimed s' = ds_claimed s \<and> ds_sent s' + ds_failed s' = ds_sent s + ds_failed s + length rows"
  using assms
proof (induction rows arbitrary: s w)
  case (Cons row rows)
  obtain o1 w1 where d: "deliver dp row w = (o1, w1)" by (cases "deliver dp row w")
  obtain q where q: "o1 = Inr q" using Cons.prems d by (cases o1) simp_all
  show ?case using Cons.IH[of _ w1] Cons.prems d q by (auto split: if_splits)
qed simp


section \<open>Properties\<close>

definition sample_entry :: outbox_row where
  "sample_entry =
     \<lparr>n_id = ''n1'', n_user_id = ''buyer'', n_phone_e164 = ''+8801712345678'', n_language = ''en'',
      n_channel = Sms, n_template_key = ''order.placed'', n_params = [(''order'', ''77'')], n_order_id = None,
      n_status = N_Pending, n_attempts = 0, n_last_error = None, n_created_at = 10, n_sent_at = None,
      n_dedupe_key = ''order.placed:77:sms''\<rparr>"

definition sample_templates :: templates where
  "sample_templates =
     [(''order.placed'', [(''bn'', \<lparr>tp_title = ''Order'', tp_body = ''Order {order} placed''\<rparr>)])]"

definition sample_dispatcher :: "sms_gateway \<Rightarrow> dispatcher" where
  "sample_dispatcher gw =
     \<lparr>dp_templates = sample_templates, dp_sms = gw, dp_push = LoggingPushGateway, dp_message = (\<lambda>e. ''rejected'')\<rparr>"

definition sample_outbox_world :: gateway_world where
  "sample_outbox_world =
     \<lparr>committed = sample_db\<lparr>outbox := [sample_entry]\<rparr>, inflight = None, tx_faults = [], clock = 20,
      gateway_calls = 0, sms_log = [], push_log = []\<rparr>"

text \<open>
  Whatever the gateways and the connection do, a dispatch pass leaves every outbox row in a
  consistent state: attempts are never negative, a pending row has fewer than five, and a row
  is abandoned only with five attempts behind it. No transaction is left open.
\<close>

theorem dispatch_keeps_attempts:
  assumes "inflight w = None" "outbox_ok (committed w)" "dispatchBatch dp locked limit w = (r, w')"
  shows "inflight w' = None \<and> outbox_ok (committed w')"
proof -
  obtain s w1 where c: "transact (claimPending locked limit) w = (s, w1)"
    by (cases "transact (claimPending locked limit) w")
  have w1: "inflight w1 = None \<and> outbox_ok (committed w1)"
    using transact_idle_committed[OF assms(1) c] outbox_ok_started[OF assms(2)] assms(2)
    by (auto dest!: outbox_ok_claim)
  show ?thesis
  proof (cases s)
    case (Inl e)
    then show ?thesis using assms(3) c w1 by (simp add: dispatchBatch_def)
  next
    case (Inr rows)
    then have "dispatch_rows dp rows \<lparr>ds_claimed = length rows, ds_sent = 0, ds_failed = 0\<rparr> w1 = (r, w')"
      using assms(3) c by (simp add: dispatchBatch_def)
    then show ?thesis
      by (rule dispatch_rows_keeps[where P = outbox_ok, rotated])
         (use w1 in \<open>auto simp: outbox_ok_def[of "_\<lparr>now_ts := _\<rparr>"] outbox_ok_def[symmetric]
            intro: outbox_ok_markSent outbox_ok_markFailed\<close>)
  qed
qed


theorem dispatch_keeps_attempts_witness:
  "outbox_ok (committed (snd (dispatchBatch (sample_dispatcher LoggingSmsGateway) (\<lambda>i. False) BATCH_SIZE sample_outbox_world)))"
proof -
  have "outbox_ok (committed sample_outbox_world)" "inflight sample_outbox_world = None"
    by (simp_all add: outbox_ok_def attempts_ok_def sample_outbox_world_def sample_entry_def MAX_ATTEMPTS_def)
  then show ?thesis
    using dispatch_keeps_attempts[OF _ _ prod.collapse[symmetric]] by blast
qed

text \<open>
  The summary of a pass accounts for every claimed row: no more than the limit are
  claimed, and each claimed row is counted once, as sent or as failed.
\<close>

theorem dispatch_accounts_for_every_claim:
  assumes "dispatchBatch dp locked limit w = (Inr s, w')"
  shows "ds_claimed s \<le> limit \<and> ds_sent s + ds_failed s = ds_claimed s"
proof -
  obtain t w1 where c: "transact (claimPending locked limit) w = (t, w1)"
    by (cases "transact (claimPending locked limit) w")
  obtain rows where rows: "t = Inr rows"
    using assms c by (cases t) (simp_all add: dispatchBatch_def)
  have "length rows \<le> limit"
    using c rows unfolding transact_def withTransaction_def
    by (auto simp: in_tx_def claimPending_def Let_def split: option.splits tx_fault.splits sum.splits if_splits)
  moreover have "dispatch_rows dp rows \<lparr>ds_claimed = length rows, ds_sent = 0, ds_failed = 0\<rparr> w1 = (Inr s, w')"
    using assms c rows by (simp add: dispatchBatch_def)
  ultimately show ?thesis using dispatch_rows_counts by fastforce
qed

lemma sample_pass:
  "dispatchBatch (sample_dispatcher LoggingSmsGateway) (\<lambda>i. False) BATCH_SIZE sample_outbox_world =
     (Inr \<lparr>ds_claimed = 1, ds_sent = 1, ds_failed = 0\<rparr>,
      sample_outbox_world\<lparr>committed := sample_db\<lparr>now_ts := 20, outbox := [sent_row 20 sample_entry]\<rparr>,
        gateway_calls := 1, sms_log := [(''+8801712345678'', ''Order 77 placed'')]\<rparr>)"
proof -
  have claim: "transact (claimPending (\<lambda>i. False) BATCH_SIZE) sample_outbox_world =
      (Inr [sample_entry], sample_outbox_world\<lparr>committed := sample_db\<lparr>now_ts := 20, outbox := [sample_entry]\<rparr>\<rparr>)"
    by (simp add: transact_no_fault sample_outbox_world_def claimPending_def BATCH_SIZE_def started_def
        sample_entry_def)
  have m: "renderTemplate sample_templates ''order.placed'' ''en'' [(''order'', ''77'')] =
      Inr \<lparr>tp_title = ''Order'', tp_body = ''Order 77 placed''\<rparr>"
    by code_simp
  show ?thesis
    unfolding dispatchBatch_def
    by (simp add: claim)
       (simp add: deliver_def sample_entry_def sample_dispatcher_def m sms_send_def LoggingSmsGateway_def
         sample_outbox_world_def transact_mark started_def Let_def)
qed

theorem dispatch_accounts_for_every_claim_witness:
  "(1::nat) \<le> BATCH_SIZE \<and> (1::nat) + 0 = 1"
  using dispatch_accounts_for_every_claim[OF sample_pass] by simp

text \<open>
  \<open>sent\<close> means sent: when a delivery reports success, the rendered text went to the
  recipient's phone exactly once during it, and the committed row is marked sent.
\<close>

theorem sent_means_handed_over:
  assumes "inflight w = None" "n_channel row = Sms" "deliver dp row w = (Inr Delivery_Sent, w')"
  shows "\<exists>m. renderTemplate (dp_templates dp) (n_template_key row) (n_language row) (n_params row) = Inr m \<and>
     sms_log w' = sms_log w @ [(n_phone_e164 row, tp_body m)] \<and> push_log w' = push_log w \<and>
     (\<forall>r\<in>set (outbox (committed w')). n_id r = n_id row \<longrightarrow> n_status r = N_Sent \<and> n_sent_at r = Some (clock w))"
proof -
  obtain m w1 where m: "renderTemplate (dp_templates dp) (n_template_key row) (n_language row) (n_params row) = Inr m"
    and s: "(if n_channel row = Sms then sms_send (dp_sms dp) (n_phone_e164 row) (tp_body m)
        else push_send (dp_push dp) (n_user_id row) (tp_title m) (tp_body m)) w = (Inr (), w1)"
    and t: "transact (markSent (n_id row)) w1 = (Inr (), w')"
    using deliver_sent[OF assms(3)] by metis
  have idle: "inflight w1 = None" and clock: "clock w1 = clock w" using send_world[OF s] assms(1) by simp_all
  have log: "sms_log w1 = sms_log w @ [(n_phone_e164 row, tp_body m)]" "push_log w1 = push_log w"
    using s assms(2) by (auto simp: sms_send_def Let_def split: option.splits)
  have "committed w' = (started w1)\<lparr>outbox := update_rows (\<lambda>r. n_id r = n_id row) (sent_row (clock w1)) (outbox (committed w1))\<rparr>"
    using pg.succeeded[OF idle t] by (simp add: markSent_def started_def)
  moreover have "sms_log w' = sms_log w1" "push_log w' = push_log w1"
    using t idle by (auto simp: transact_idle markSent_def Let_def drop_fault_def
        split: tx_fault.splits sum.splits if_splits)
  ultimately show ?thesis
    using m log clock by (auto simp: in_update_rows sent_row_def)
qed


lemma sample_delivery:
  "deliver (sample_dispatcher LoggingSmsGateway) sample_entry sample_outbox_world =
     (Inr Delivery_Sent,
      sample_outbox_world\<lparr>committed := sample_db\<lparr>now_ts := 20, outbox := [sent_row 20 sample_entry]\<rparr>,
        gateway_calls := 1, sms_log := [(''+8801712345678'', ''Order 77 placed'')]\<rparr>)"
proof -
  have m: "renderTemplate sample_templates ''order.placed'' ''en'' [(''order'', ''77'')] =
      Inr \<lparr>tp_title = ''Order'', tp_body = ''Order 77 placed''\<rparr>"
    by code_simp
  show ?thesis
    by (simp add: deliver_def sample_entry_def sample_dispatcher_def m sms_send_def LoggingSmsGateway_def
        sample_outbox_world_def transact_mark started_def Let_def)
qed

theorem sent_means_handed_over_witness:
  "\<exists>m. renderTemplate sample_templates ''order.placed'' ''en'' [(''order'', ''77'')] = Inr m \<and>
     [(''+8801712345678'', ''Order 77 placed'')] = [(''+8801712345678'', tp_body m)]"
  using sent_means_handed_over[OF _ _ sample_delivery]
  by (auto simp add: sample_entry_def sample_outbox_world_def sample_dispatcher_def)

section \<open>A row no gateway accepts\<close>

definition rejecting :: "dispatcher \<Rightarrow> bool" where
  "rejecting dp \<longleftrightarrow> (\<forall>n p b. dp_sms dp n p b \<noteq> None) \<and> (\<forall>n u t b. dp_push dp n u t b \<noteq> None)"

lemma rejectingD:
  assumes "rejecting dp"
  obtains e e' where "dp_sms dp n p b = Some e" "dp_push dp n u t b' = Some e'"
  using assms unfolding rejecting_def by blast

fun dispatch_passes :: "dispatcher \<Rightarrow> nat \<Rightarrow> gateway_world \<Rightarrow> gateway_world" where
  "dispatch_passes dp 0 w = w"
| "dispatch_passes dp (Suc n) w = snd (dispatchBatch dp (\<lambda>i. False) BATCH_SIZE (dispatch_passes dp n w))"

text \<open>One delivery to a rejecting gateway marks the row failed and hands nothing over.\<close>

lemma deliver_rejected:
  assumes "rejecting dp" "inflight w = None" "tx_faults w = []"
  shows "\<exists>e n. deliver dp row w = (Inr Delivery_Failed,
    w\<lparr>gateway_calls := n,
      committed := (started w)\<lparr>outbox := update_rows (\<lambda>r. n_id r = n_id row) (failed_row e MAX_ATTEMPTS) (outbox (committed w))\<rparr>\<rparr>)"
proof (cases "renderTemplate (dp_templates dp) (n_template_key row) (n_language row) (n_params row)")
  case (Inl e)
  then have "deliver dp row w = (Inr Delivery_Failed, w\<lparr>gateway_calls := gateway_calls w,
      committed := (started w)\<lparr>outbox := update_rows (\<lambda>r. n_id r = n_id row) (failed_row (dp_message dp e) MAX_ATTEMPTS) (outbox (committed w))\<rparr>\<rparr>)"
    using assms by (simp add: deliver_def transact_mark)
  then show ?thesis by blast
next
  case (Inr m)
  let ?send = "if n_channel row = Sms then sms_send (dp_sms dp) (n_phone_e164 row) (tp_body m)
      else push_send (dp_push dp) (n_user_id row) (tp_title m) (tp_body m)"
  have "\<exists>e. ?send w = (Inl e, w\<lparr>gateway_calls := Suc (gateway_calls w)\<rparr>)"
    by (rule rejectingD[OF assms(1), of "gateway_calls w" "n_phone_e164 row" "tp_body m" "n_user_id row" "tp_title m" "tp_body m"])
       (auto simp: sms_send_def push_send_def Let_def)
  then obtain e where e: "?send w = (Inl e, w\<lparr>gateway_calls := Suc (gateway_calls w)\<rparr>)" by blast
  then have "deliver dp row w = (Inr Delivery_Failed, w\<lparr>gateway_calls := Suc (gateway_calls w),
      committed := (started w)\<lparr>outbox := update_rows (\<lambda>r. n_id r = n_id row) (failed_row (dp_message dp e) MAX_ATTEMPTS) (outbox (committed w))\<rparr>\<rparr>)"
    using assms Inr by (simp add: deliver_def transact_mark started_def)
  then show ?thesis by blast
qed

definition row_after :: "nat \<Rightarrow> outbox_row \<Rightarrow> outbox_row \<Rightarrow> bool" where
  "row_after n row r \<longleftrightarrow> n_id r = n_id row \<and> n_attempts r = int (min n 5) \<and>
     n_status r = (if 5 \<le> n then N_Abandoned else N_Pending)"

lemma rejected_pass:
  assumes "rejecting dp" "inflight w = None" "tx_faults w = []" "outbox (committed w) = [r]" "row_after n row r"
  shows "\<exists>r' w'. snd (dispatchBatch dp (\<lambda>i. False) BATCH_SIZE w) = w' \<and> inflight w' = None \<and> tx_faults w' = [] \<and>
    outbox (committed w') = [r'] \<and> row_after (Suc n) row r' \<and> sms_log w' = sms_log w \<and> push_log w' = push_log w"
proof -
  let ?w = "w\<lparr>committed := started w\<rparr>"
  have claim: "transact (claimPending (\<lambda>i. False) BATCH_SIZE) w = (Inr (if 5 \<le> n then [] else [r]), ?w)"
    using assms by (simp add: transact_no_fault claimPending_def started_def row_after_def BATCH_SIZE_def)
  show ?thesis
  proof (cases "5 \<le> n")
    case True
    then have "snd (dispatchBatch dp (\<lambda>i. False) BATCH_SIZE w) = ?w"
      using claim by (simp add: dispatchBatch_def)
    then show ?thesis using assms True by (auto simp: row_after_def started_def)
  next
    case False
    have "inflight ?w = None" "tx_faults ?w = []" using assms(2,3) by simp_all
    from deliver_rejected[OF assms(1) this, of r] obtain e k where
      d: "deliver dp r ?w = (Inr Delivery_Failed,
        ?w\<lparr>gateway_calls := k, committed := (started ?w)\<lparr>outbox := [failed_row e MAX_ATTEMPTS r]\<rparr>\<rparr>)"
      using assms(4) by (auto simp: started_def)
    have "snd (dispatchBatch dp (\<lambda>i. False) BATCH_SIZE w) =
        ?w\<lparr>gateway_calls := k, committed := (started ?w)\<lparr>outbox := [failed_row e MAX_ATTEMPTS r]\<rparr>\<rparr>"
      using claim False d by (simp add: dispatchBatch_def)
    moreover have "row_after (Suc n) row (failed_row e MAX_ATTEMPTS r)"
      using assms(5) False by (auto simp: row_after_def failed_row_def MAX_ATTEMPTS_def min_def)
    ultimately show ?thesis using assms(2,3) by simp
  qed
qed

text \<open>
  A message no gateway accepts is retried on four more passes and then abandoned: after
  \<open>n\<close> passes its row has \<open>min n 5\<close> attempts, is pending before the fifth pass and
  abandoned from it on (later passes leave it alone), and nothing was ever handed over.
\<close>

theorem poison_row_abandoned_after_five:
  assumes "rejecting dp" "inflight w = None" "tx_faults w = []"
    and "outbox (committed w) = [row]" "n_status row = N_Pending" "n_attempts row = 0"
  shows "\<exists>r. outbox (committed (dispatch_passes dp n w)) = [r] \<and> n_attempts r = int (min n 5) \<and>
     n_status r = (if 5 \<le> n then N_Abandoned else N_Pending) \<and> sms_log (dispatch_passes dp n w) = sms_log w"
proof -
  have "\<exists>r. inflight (dispatch_passes dp n w) = None \<and> tx_faults (dispatch_passes dp n w) = [] \<and>
      outbox (committed (dispatch_passes dp n w)) = [r] \<and> row_after n row r \<and>
      sms_log (dispatch_passes dp n w) = sms_log w"
  proof (induction n)
    case 0
    then show ?case using assms(2-6) by (simp add: row_after_def)
  next
    case (Suc n)
    then obtain r where "inflight (dispatch_passes dp n w) = None" "tx_faults (dispatch_passes dp n w) = []"
      "outbox (committed (dispatch_passes dp n w)) = [r]" "row_after n row r"
      "sms_log (dispatch_passes dp n w) = sms_log w" by blast
    from rejected_pass[OF assms(1) this(1-4)] this(5) show ?case by auto
  qed
  then show ?thesis by (auto simp: row_after_def)
qed

theorem poison_row_abandoned_after_five_witness:
  "\<exists>r. outbox (committed (dispatch_passes ((sample_dispatcher (\<lambda>n p b. Some ''refused''))\<lparr>dp_push := \<lambda>n u t b. Some ''refused''\<rparr>)
       5 sample_outbox_world)) = [r] \<and> n_status r = N_Abandoned"
  by (rule exE[OF poison_row_abandoned_after_five[of
        "(sample_dispatcher (\<lambda>n p b. Some ''refused''))\<lparr>dp_push := \<lambda>n u t b. Some ''refused''\<rparr>"
        sample_outbox_world sample_entry 5]])
     (auto simp: rejecting_def sample_dispatcher_def sample_outbox_world_def sample_entry_def)

text \<open>
  Claiming does not take a row out of circulation: the claim commits before anything is
  delivered and writes nothing, so a second dispatcher whose claim runs after the first one's
  transaction, and before the first has marked its rows, is handed the same rows. The row
  locks of \<open>FOR UPDATE SKIP LOCKED\<close> are gone by then.
\<close>

theorem claim_hands_out_rows_again:
  assumes "inflight w = None" "transact (claimPending locked limit) w = (Inr rows, w')" "tx_faults w' = []"
  shows "fst (transact (claimPending locked limit) w') = Inr rows"
proof -
  have "inflight w' = None" and c: "committed w' = started w"
    using pg.stays_idle[OF assms(1,2)] pg.succeeded[OF assms(1,2)] by (auto dest: outbox_ok_claim)
  then show ?thesis
    using pg.succeeded[OF assms(1,2)] assms(3)
    by (simp add: transact_no_fault claimPending_def started_def c)
qed

theorem claim_hands_out_rows_again_witness:
  "fst (transact (claimPending (\<lambda>i. False) 50) (snd (transact (claimPending (\<lambda>i. False) 50) sample_outbox_world))) =
     Inr [sample_entry]"
proof (rule claim_hands_out_rows_again)
  show "inflight sample_outbox_world = None" by (simp add: sample_outbox_world_def)
  show "transact (claimPending (\<lambda>i. False) 50) sample_outbox_world =
      (Inr [sample_entry], snd (transact (claimPending (\<lambda>i. False) 50) sample_outbox_world))"
    and "tx_faults (snd (transact (claimPending (\<lambda>i. False) 50) sample_outbox_world)) = []"
    by (simp_all add: transact_no_fault claimPending_def sample_outbox_world_def started_def sample_entry_def)
qed

end
