(* ===== verification/UserRepo.thy ===== *)
theory UserRepo
  imports UnitOfWork
begin

text \<open>
  \<open>identity/user.repository.ts\<close>: accounts by phone number, the roles of a user, the merchant
  role and the KYC submission.
\<close>

record active_role =
  ar_id :: string
  ar_type :: role_type
  ar_kycVerified :: bool

definition findByPhone :: "string \<Rightarrow> user_row option sql" where
  "findByPhone phoneE164 = read_db (\<lambda>d. first_row (filter (\<lambda>u. u_phone_e164 u = phoneE164) (users d)))"

text \<open>A new account: Bangla by default, no National ID.\<close>

definition new_user :: "string \<Rightarrow> string \<Rightarrow> user_row" where
  "new_user i phone =
     \<lparr>u_id = i, u_phone_e164 = phone, u_language_preference = ''bn'', u_nid_number = None,
      u_nid_verification_status = Unverified\<rparr>"

text \<open>
  \<open>INSERT ... ON CONFLICT (phone_e164) DO UPDATE SET updated_at = now() RETURNING id\<close>; the
  timestamp is not a column of the model.
\<close>

definition findOrCreateByPhone :: "string \<Rightarrow> string sql" where
  "findOrCreateByPhone phoneE164 =
     stmt_bind (findByPhone phoneE164) (\<lambda>existing.
     case existing of
       Some u \<Rightarrow> stmt_return (u_id u)
     | None \<Rightarrow>
         stmt_bind gen_random_uuid (\<lambda>i.
         stmt_bind (read_db (\<lambda>d. i \<notin> u_id ` set (users d))) (\<lambda>fresh.
         stmt_bind (unique fresh) (\<lambda>_.
         stmt_bind (write_db (\<lambda>d. d\<lparr>users := users d @ [new_user i phoneE164]\<rparr>)) (\<lambda>_.
           stmt_return i)))))"

definition active_role_of :: "role_row \<Rightarrow> active_role" where
  "active_role_of r = \<lparr>ar_id = r_id r, ar_type = r_type r, ar_kycVerified = (r_kyc_status r = Verified)\<rparr>"

definition findRoles :: "string \<Rightarrow> active_role list sql" where
  "findRoles userId =
     read_db (\<lambda>d. map active_role_of (filter (\<lambda>r. r_user_id r = userId \<and> r_is_active r) (roles d)))"

text \<open>
  \<open>INSERT ... ON CONFLICT (user_id, type) DO NOTHING RETURNING id\<close>: no row comes back when
  the user has a merchant role already; otherwise the user and the location must exist.
\<close>

definition new_merchant_role :: "string \<Rightarrow> string \<Rightarrow> string \<Rightarrow> (string \<times> string option) list \<Rightarrow> role_row" where
  "new_merchant_role i userId pickupLocationId profile =
     \<lparr>r_id = i, r_user_id = userId, r_type = Merchant, r_is_active = True, r_profile = profile,
      r_kyc_status = Unverified, r_pickup_location_id = Some pickupLocationId\<rparr>"

definition createMerchantRole ::
  "string \<Rightarrow> string \<Rightarrow> (string \<times> string option) list \<Rightarrow> string option sql" where
  "createMerchantRole userId pickupLocationId profile d =
     (if \<exists>r\<in>set (roles d). r_user_id r = userId \<and> r_type r = Merchant then Inr (None, d)
      else
        stmt_bind gen_random_uuid (\<lambda>i.
        stmt_bind (unique (i \<notin> r_id ` set (roles d))) (\<lambda>_.
        stmt_bind (foreign_key (userId \<in> u_id ` set (users d))) (\<lambda>_.
        stmt_bind (foreign_key (pickupLocationId \<in> loc_id ` set (locations d))) (\<lambda>_.
        stmt_bind (write_db (\<lambda>d. d\<lparr>roles := roles d @ [new_merchant_role i userId pickupLocationId profile]\<rparr>)) (\<lambda>_.
          stmt_return (Some i)))))) d)"

text \<open>The three writes of a KYC submission.\<close>

definition nid_row :: "string \<Rightarrow> user_row \<Rightarrow> user_row" where
  "nid_row nidNumber u = u\<lparr>u_nid_number := Some nidNumber, u_nid_verification_status := Verification_Pending\<rparr>"

definition pending_role :: "role_row \<Rightarrow> role_row" where
  "pending_role r = r\<lparr>r_kyc_status := Verification_Pending\<rparr>"

definition submitKyc :: "string \<Rightarrow> string \<Rightarrow> string \<Rightarrow> string list \<Rightarrow> unit sql" where
  "submitKyc userId roleId nidNumber documentUrls =
     stmt_bind (write_db (\<lambda>d. d\<lparr>users := update_rows (\<lambda>u. u_id u = userId) (nid_row nidNumber) (users d)\<rparr>)) (\<lambda>_.
     stmt_bind (write_db (\<lambda>d. d\<lparr>roles := update_rows (\<lambda>r. r_id r = roleId) pending_role (roles d)\<rparr>)) (\<lambda>_.
     stmt_bind gen_random_uuid (\<lambda>i.
     stmt_bind (read_db (\<lambda>d. i \<notin> k_id ` set (kyc_submissions d))) (\<lambda>fresh.
     stmt_bind (unique fresh) (\<lambda>_.
     stmt_bind (read_db (\<lambda>d. roleId \<in> r_id ` set (roles d))) (\<lambda>known.
     stmt_bind (foreign_key known) (\<lambda>_.
       write_db (\<lambda>d. d\<lparr>kyc_submissions := kyc_submissions d @
         [\<lparr>k_id = i, k_role_id = roleId, k_document_urls = documentUrls, k_submitted_at = now_ts d\<rparr>]\<rparr>))))))))"

section \<open>Facts\<close>

lemma findByPhone_eq: "findByPhone p d = Inr (find (\<lambda>u. u_phone_e164 u = p) (users d), d)"
  by (simp add: findByPhone_def first_row_filter)

lemma findRoles_eq: "findRoles i d = Inr (map active_role_of (filter (\<lambda>r. r_user_id r = i \<and> r_is_active r) (roles d)), d)"
  by (simp add: findRoles_def)

lemma findOrCreate_Inr:
  assumes "findOrCreateByPhone p d = Inr (i, d')"
  shows "(\<exists>u. find (\<lambda>u. u_phone_e164 u = p) (users d) = Some u \<and> i = u_id u \<and> d' = d) \<or>
    (find (\<lambda>u. u_phone_e164 u = p) (users d) = None \<and> i \<notin> u_id ` set (users d) \<and>
     d' = d\<lparr>uuid_n := Suc (uuid_n d), users := users d @ [new_user i p]\<rparr>)"
  using assms by (auto simp: findOrCreateByPhone_def findByPhone_eq stmt_bind_Inr_iff split: option.splits if_splits)

lemma findOrCreate_finds:
  assumes "findOrCreateByPhone p d = Inr (i, d')"
  shows "\<exists>u. find (\<lambda>u. u_phone_e164 u = p) (users d') = Some u \<and> u_id u = i"
  using findOrCreate_Inr[OF assms]
proof (elim disjE conjE)
  assume "find (\<lambda>u. u_phone_e164 u = p) (users d) = None"
    and d': "d' = d\<lparr>uuid_n := Suc (uuid_n d), users := users d @ [new_user i p]\<rparr>"
  then have "p \<notin> u_phone_e164 ` set (users d)" by (auto simp: find_None_all)
  then have "find (\<lambda>u. u_phone_e164 u = p) (users d') = Some (new_user i p)"
    unfolding d' by (simp add: find_append_fresh new_user_def)
  then show ?thesis by (simp add: new_user_def)
qed auto

lemma findOrCreate_again:
  assumes "find (\<lambda>u. u_phone_e164 u = p) (users d) = Some u"
  shows "findOrCreateByPhone p d = Inr (u_id u, d)"
  using assms by (simp add: findOrCreateByPhone_def findByPhone_eq)

lemma createMerchantRole_Inr:
  assumes "createMerchantRole u loc pf d = Inr (r, d')"
  shows "(r = None \<and> d' = d \<and> (\<exists>x\<in>set (roles d). r_user_id x = u \<and> r_type x = Merchant)) \<or>
    (\<exists>i. r = Some i \<and> i \<notin> r_id ` set (roles d) \<and> u \<in> u_id ` set (users d) \<and> loc \<in> loc_id ` set (locations d) \<and>
       (\<forall>x\<in>set (roles d). \<not> (r_user_id x = u \<and> r_type x = Merchant)) \<and>
       d' = d\<lparr>uuid_n := Suc (uuid_n d), roles := roles d @ [new_merchant_role i u loc pf]\<rparr>)"
  using assms by (auto simp: createMerchantRole_def stmt_bind_Inr_iff split: if_splits)

lemma createMerchantRole_Inl:
  assumes "createMerchantRole u loc pf d = Inl (DbError ''23503'')"
  shows "u \<notin> u_id ` set (users d) \<or> loc \<notin> loc_id ` set (locations d)"
  using assms by (auto simp: createMerchantRole_def stmt_bind_def split: if_splits sum.splits)

lemma submitKyc_Inr:
  assumes "submitKyc u r nid urls d = Inr (x, d')"
  shows "\<exists>k. d' = d\<lparr>users := update_rows (\<lambda>w. u_id w = u) (nid_row nid) (users d),
       roles := update_rows (\<lambda>w. r_id w = r) pending_role (roles d), uuid_n := Suc (uuid_n d),
       kyc_submissions := kyc_submissions d @ [k]\<rparr> \<and>
     k_role_id k = r \<and> k_document_urls k = urls \<and> k_submitted_at k = now_ts d"
  using assms by (auto simp: submitKyc_def stmt_bind_Inr_iff split: if_splits)

end
