(* ===== verification/Platform.thy ===== *)
theory Platform
  imports OrderService Payment Dispatcher UserRepo
begin

text \<open>
  What the platform promises about its data, as a state machine over the database that knows
  nothing of requests, tokens, ports or transactions: the eleven ways the tables may change. The
  endpoints of the code implement it (theory \<open>Refinement\<close>), so what is proved here of every
  sequence of steps holds of every history of the system.
\<close>

section \<open>Frames\<close>

definition accounts_same :: "db \<Rightarrow> db \<Rightarrow> bool" where
  "accounts_same d d' \<longleftrightarrow> users d' = users d \<and> roles d' = roles d \<and> kyc_submissions d' = kyc_submissions d"

definition catalog_same :: "db \<Rightarrow> db \<Rightarrow> bool" where
  "catalog_same d d' \<longleftrightarrow> locations d' = locations d \<and> categories d' = categories d \<and> listings d' = listings d"

definition ledger_same :: "db \<Rightarrow> db \<Rightarrow> bool" where
  "ledger_same d d' \<longleftrightarrow> orders d' = orders d \<and> order_items d' = order_items d \<and>
     status_events d' = status_events d \<and> transactions d' = transactions d"

definition mail_queued :: "db \<Rightarrow> db \<Rightarrow> bool" where
  "mail_queued d d' \<longleftrightarrow> (\<exists>rows. outbox d' = outbox d @ rows \<and> (\<forall>r\<in>set rows. queued r))"

lemmas frames = accounts_same_def catalog_same_def ledger_same_def

lemma mail_queued_same [simp]: "outbox d' = outbox d \<Longrightarrow> mail_queued d d'"
  by (simp add: mail_queued_def)

section \<open>Orders and payments\<close>

text \<open>An order with the item rows that belong to it, and the payment it is placed with.\<close>

definition order_wf :: "order_row \<Rightarrow> order_item_row list \<Rightarrow> bool" where
  "order_wf o1 items \<longleftrightarrow> o_subtotal_bdt o1 = items_total items \<and>
     o_total_bdt o1 = o_subtotal_bdt o1 + o_delivery_fee_bdt o1 \<and>
     (o_all_items_ready_to_ship o1 \<longleftrightarrow> (\<forall>row\<in>set items. oi_ready_to_ship_at_order row)) \<and>
     o_advance_cap_bdt o1 = cap_rule (o_is_escrow o1 \<or> o_all_items_ready_to_ship o1) (o_total_bdt o1) \<and>
     0 \<le> o_advance_amount_bdt o1 \<and> o_advance_amount_bdt o1 \<le> o_advance_cap_bdt o1 \<and>
     (o_payment_method o1 = Cod \<longrightarrow> o_advance_amount_bdt o1 = 0)"

definition payment_of :: "order_row \<Rightarrow> transaction_row \<Rightarrow> bool" where
  "payment_of o1 t \<longleftrightarrow> t_order_id t = o_id o1 \<and> t_method t = o_payment_method o1 \<and>
     (t_is_advance t \<longleftrightarrow> o_payment_method o1 \<noteq> Cod) \<and>
     t_amount_bdt t = (if o_payment_method o1 = Cod then o_total_bdt o1 else o_advance_amount_bdt o1)"

text \<open>The clock runs exactly when the advance is paid, and the deadline follows from it.\<close>

definition clock_ok :: "order_row \<Rightarrow> bool" where
  "clock_ok o1 \<longleftrightarrow> o_delivery_deadline_at o1 =
     map_option (\<lambda>paid. paid + deliveryWindowDays (o_is_same_city o1) * MS_PER_DAY) (o_advance_paid_at o1)"

definition settled_for :: "db \<Rightarrow> order_row \<Rightarrow> transaction_row \<Rightarrow> bool" where
  "settled_for d o1 t \<longleftrightarrow> t \<in> set (transactions d) \<and> t_order_id t = o_id o1 \<and> t_status t = Settled"

definition paid_ok :: "db \<Rightarrow> order_row \<Rightarrow> bool" where
  "paid_ok d o1 \<longleftrightarrow> (o_status o1 = Confirmed \<longrightarrow> (\<exists>t. settled_for d o1 t)) \<and>
     (\<forall>paid. o_advance_paid_at o1 = Some paid \<longrightarrow>
        (\<exists>t. settled_for d o1 t \<and> t_is_advance t \<and> t_settled_at t = Some paid))"

section \<open>The steps\<close>

inductive platform_step :: "db \<Rightarrow> db \<Rightarrow> bool" where
  tick: "accounts_same d d' \<Longrightarrow> catalog_same d d' \<Longrightarrow> ledger_same d d' \<Longrightarrow> outbox d' = outbox d \<Longrightarrow>
    platform_step d d'"
| notify: "accounts_same d d' \<Longrightarrow> catalog_same d d' \<Longrightarrow> ledger_same d d' \<Longrightarrow> mail_queued d d' \<Longrightarrow>
    platform_step d d'"
| deliver: "accounts_same d d' \<Longrightarrow> catalog_same d d' \<Longrightarrow> ledger_same d d' \<Longrightarrow>
    f = sent_row t \<or> f = failed_row e MAX_ATTEMPTS \<Longrightarrow> outbox d' = update_rows (\<lambda>r. n_id r = i) f (outbox d) \<Longrightarrow>
    platform_step d d'"
| register: "phone \<notin> u_phone_e164 ` set (users d) \<Longrightarrow> i \<notin> u_id ` set (users d) \<Longrightarrow>
    users d' = users d @ [new_user i phone] \<Longrightarrow> roles d' = roles d \<Longrightarrow> kyc_submissions d' = kyc_submissions d \<Longrightarrow>
    catalog_same d d' \<Longrightarrow> ledger_same d d' \<Longrightarrow> outbox d' = outbox d \<Longrightarrow> platform_step d d'"
| enrol: "i \<notin> r_id ` set (roles d) \<Longrightarrow> \<forall>r\<in>set (roles d). \<not> (r_user_id r = u \<and> r_type r = Merchant) \<Longrightarrow>
    users d' = users d \<Longrightarrow> roles d' = roles d @ [new_merchant_role i u p pf] \<Longrightarrow>
    kyc_submissions d' = kyc_submissions d \<Longrightarrow>
    catalog_same d d' \<Longrightarrow> ledger_same d d' \<Longrightarrow> outbox d' = outbox d \<Longrightarrow> platform_step d d'"
| submit_kyc: "users d' = update_rows (\<lambda>w. u_id w = u) (nid_row nid) (users d) \<Longrightarrow>
    roles d' = update_rows (\<lambda>w. r_id w = i) pending_role (roles d) \<Longrightarrow>
    kyc_submissions d' = kyc_submissions d @ [k] \<Longrightarrow>
    catalog_same d d' \<Longrightarrow> ledger_same d d' \<Longrightarrow> outbox d' = outbox d \<Longrightarrow> platform_step d d'"
| address: "locations d' = locations d @ [l] \<Longrightarrow> categories d' = categories d \<Longrightarrow> listings d' = listings d \<Longrightarrow>
    accounts_same d d' \<Longrightarrow> ledger_same d d' \<Longrightarrow> outbox d' = outbox d \<Longrightarrow> platform_step d d'"
| publish: "0 \<le> l_price_bdt l \<Longrightarrow> l_price_bdt l < 10 ^ 12 \<Longrightarrow>
    listings d' = listings d @ [l] \<Longrightarrow>
    locations d' = locations d \<Longrightarrow> categories d' = categories d \<Longrightarrow>
    accounts_same d d' \<Longrightarrow> ledger_same d d' \<Longrightarrow> outbox d' = outbox d \<Longrightarrow> platform_step d d'"
| place: "order_wf o1 items \<Longrightarrow> o_status o1 = Created \<Longrightarrow> o_advance_paid_at o1 = None \<Longrightarrow>
    o_delivery_deadline_at o1 = None \<Longrightarrow>
    o_id o1 \<notin> o_id ` set (orders d) \<Longrightarrow> orders d' = orders d @ [o1] \<Longrightarrow>
    \<forall>row\<in>set items. oi_order_id row = o_id o1 \<Longrightarrow> order_items d' = order_items d @ items \<Longrightarrow>
    payment_of o1 t \<Longrightarrow> t_status t = Pending \<Longrightarrow> t_id t \<notin> t_id ` set (transactions d) \<Longrightarrow>
    transactions d' = transactions d @ [t] \<Longrightarrow> status_events d' = status_events d @ [ev] \<Longrightarrow>
    accounts_same d d' \<Longrightarrow> catalog_same d d' \<Longrightarrow> mail_queued d d' \<Longrightarrow> platform_step d d'"
| settle: "sn_occurredAt n = Some paid \<Longrightarrow> p \<in> set (transactions d) \<Longrightarrow> pending_for (sn_orderId n) p \<Longrightarrow>
    find_order (sn_orderId n) d = Some o1 \<Longrightarrow>
    transactions d' = update_rows (\<lambda>t. t_id t = t_id p) (settled_row (sn_aggregator n) (sn_aggregatorRef n) paid) (transactions d) \<Longrightarrow>
    orders d' = update_rows (\<lambda>o1. o_id o1 = sn_orderId n) (confirmed_row (clock_due n p o1)) (orders d) \<Longrightarrow>
    status_events d' = status_events d @ [ev] \<Longrightarrow> order_items d' = order_items d \<Longrightarrow>
    accounts_same d d' \<Longrightarrow> catalog_same d d' \<Longrightarrow> mail_queued d d' \<Longrightarrow> platform_step d d'"
| refuse: "p \<in> set (transactions d) \<Longrightarrow> pending_for i p \<Longrightarrow>
    transactions d' = update_rows (\<lambda>t. t_id t = t_id p) (refused_row a ref) (transactions d) \<Longrightarrow>
    orders d' = set_status i Awaiting_Payment (orders d) \<Longrightarrow>
    status_events d' = status_events d @ [ev] \<Longrightarrow> order_items d' = order_items d \<Longrightarrow>
    accounts_same d d' \<Longrightarrow> catalog_same d d' \<Longrightarrow> mail_queued d d' \<Longrightarrow> platform_step d d'"

abbreviation platform_steps :: "db \<Rightarrow> db \<Rightarrow> bool" where
  "platform_steps \<equiv> platform_step\<^sup>*\<^sup>*"

section \<open>The invariant\<close>

text \<open>The ledger is in order, \<open>paid\<close> being what is known of the payments of each order.\<close>

definition ledger_with :: "(db \<Rightarrow> order_row \<Rightarrow> bool) \<Rightarrow> db \<Rightarrow> bool" where
  "ledger_with paid d \<longleftrightarrow> distinct (map o_id (orders d)) \<and> distinct (map t_id (transactions d)) \<and>
     (\<forall>row\<in>set (order_items d). oi_order_id row \<in> o_id ` set (orders d)) \<and>
     (\<forall>o1\<in>set (orders d). order_wf o1 (filter (\<lambda>row. oi_order_id row = o_id o1) (order_items d)) \<and>
        clock_ok o1 \<and> paid d o1) \<and>
     (\<forall>t\<in>set (transactions d). \<exists>o1\<in>set (orders d). payment_of o1 t)"

abbreviation ledger_ok :: "db \<Rightarrow> bool" where
  "ledger_ok \<equiv> ledger_with paid_ok"

definition platform_ok :: "db \<Rightarrow> bool" where
  "platform_ok d \<longleftrightarrow> prices_ok d \<and> ledger_ok d \<and> outbox_ok d \<and> distinct (map u_phone_e164 (users d))"

section \<open>What settling and refusing leave as it was\<close>

text \<open>The terms of an order: everything but its status and its two times.\<close>

definition same_terms :: "order_row \<Rightarrow> order_row \<Rightarrow> bool" where
  "same_terms o1 o2 \<longleftrightarrow> o2 = o1\<lparr>o_status := o_status o2, o_advance_paid_at := o_advance_paid_at o2,
     o_delivery_deadline_at := o_delivery_deadline_at o2\<rparr>"

text \<open>The later form of an order: same terms, and a clock that once started stays as it is.\<close>

definition later_form :: "order_row \<Rightarrow> order_row \<Rightarrow> bool" where
  "later_form o1 o2 \<longleftrightarrow> same_terms o1 o2 \<and>
     (o_advance_paid_at o1 \<noteq> None \<longrightarrow> o_advance_paid_at o2 = o_advance_paid_at o1 \<and>
        o_delivery_deadline_at o2 = o_delivery_deadline_at o1)"

lemma later_form_refl [simp]: "later_form o1 o1"
  by (simp add: later_form_def same_terms_def)

lemma same_terms_iff:
  "same_terms o1 o2 \<longleftrightarrow> o_id o2 = o_id o1 \<and> o_customer_user_id o2 = o_customer_user_id o1 \<and>
     o_merchant_role_id o2 = o_merchant_role_id o1 \<and> o_delivery_location_id o2 = o_delivery_location_id o1 \<and>
     o_payment_method o2 = o_payment_method o1 \<and> o_subtotal_bdt o2 = o_subtotal_bdt o1 \<and>
     o_delivery_fee_bdt o2 = o_delivery_fee_bdt o1 \<and> o_total_bdt o2 = o_total_bdt o1 \<and>
     o_advance_amount_bdt o2 = o_advance_amount_bdt o1 \<and> o_advance_cap_bdt o2 = o_advance_cap_bdt o1 \<and>
     o_is_escrow o2 = o_is_escrow o1 \<and> o_all_items_ready_to_ship o2 = o_all_items_ready_to_ship o1 \<and>
     o_is_same_city o2 = o_is_same_city o1"
  by (cases o1; cases o2) (auto simp: same_terms_def)

lemma later_form_trans: "later_form a b \<Longrightarrow> later_form b c \<Longrightarrow> later_form a c"
  by (auto simp: later_form_def same_terms_iff)

lemma same_terms_keeps:
  assumes "same_terms o1 o2"
  shows "o_id o2 = o_id o1" "order_wf o2 items = order_wf o1 items" "payment_of o2 t = payment_of o1 t"
  using assms by (simp_all add: same_terms_iff order_wf_def payment_of_def)

lemma same_terms_confirmed [simp]: "same_terms o1 (confirmed_row due o1)"
  by (simp add: same_terms_iff confirmed_row_def stamp_row_def split: option.splits prod.splits)

lemma same_terms_status [simp]: "same_terms o1 (o1\<lparr>o_status := s\<rparr>)"
  by (simp add: same_terms_iff)

lemma payment_kept [simp]:
  "payment_of o1 (settled_row a r s t) = payment_of o1 t" "payment_of o1 (refused_row a r t) = payment_of o1 t"
  by (simp_all add: payment_of_def settled_row_def refused_row_def)

lemma kept_ids [simp]:
  "t_id (settled_row a r s t) = t_id t" "t_id (refused_row a r t) = t_id t"
  "t_order_id (settled_row a r s t) = t_order_id t" "t_order_id (refused_row a r t) = t_order_id t"
  by (simp_all add: settled_row_def refused_row_def)

lemma distinct_key_eq: "distinct (map key rows) \<Longrightarrow> x \<in> set rows \<Longrightarrow> y \<in> set rows \<Longrightarrow> key x = key y \<Longrightarrow> x = y"
  by (auto simp: distinct_map dest: inj_onD)

lemma found_order:
  assumes "distinct (map o_id (orders d))" "find_order i d = Some o1" "o2 \<in> set (orders d)" "o_id o2 = i"
  shows "o2 = o1"
  using distinct_key_eq[OF assms(1,3)] find_order_in[OF assms(2)] assms(4) by metis

text \<open>A settled payment outlives every later update, which only touches a pending one.\<close>

lemma settled_persists:
  assumes "ledger_ok d" "p \<in> set (transactions d)" "pending_for i p" "settled_for d o1 t"
    and "transactions d' = update_rows (\<lambda>t. t_id t = t_id p) f (transactions d)" "o_id o2 = o_id o1"
  shows "settled_for d' o2 t"
proof -
  have "t_id t \<noteq> t_id p"
    using assms(1-4) distinct_key_eq[of t_id "transactions d" t p]
    by (auto simp: ledger_with_def settled_for_def pending_for_def)
  then show ?thesis using assms(4-6) by (auto simp: settled_for_def in_update_rows intro: bexI[of _ t])
qed

lemma paid_ok_later:
  assumes "paid_ok d o1" "\<And>t. settled_for d o1 t \<Longrightarrow> settled_for d' o2 t"
    and "o_status o2 = Confirmed \<Longrightarrow> o_status o1 = Confirmed \<or> (\<exists>t. settled_for d' o2 t)"
    and "o_advance_paid_at o2 = o_advance_paid_at o1"
  shows "paid_ok d' o2"
proof -
  have "\<exists>t. settled_for d' o2 t" if "o_status o2 = Confirmed"
    using assms(1) assms(2) assms(3)[OF that] unfolding paid_ok_def by blast
  moreover have "\<exists>t. settled_for d' o2 t \<and> t_is_advance t \<and> t_settled_at t = Some paid" if "o_advance_paid_at o2 = Some paid" for paid
  proof -
    have "o_advance_paid_at o1 = Some paid" using that assms(4) by simp
    then show ?thesis using assms(1,2) unfolding paid_ok_def by blast
  qed
  ultimately show ?thesis by (simp add: paid_ok_def)
qed

section \<open>The ledger through a step\<close>

lemma ledger_with_same:
  assumes "ledger_with paid d" "ledger_same d d'" "\<And>o1. paid d o1 \<Longrightarrow> paid d' o1"
  shows "ledger_with paid d'"
  using assms by (simp add: ledger_with_def ledger_same_def)

lemma ledger_with_place:
  assumes ok: "ledger_with paid d"
    and o1: "order_wf o1 items" "o_status o1 = Created" "o_advance_paid_at o1 = None" "o_delivery_deadline_at o1 = None"
    and fresh: "o_id o1 \<notin> o_id ` set (orders d)" "t_id t \<notin> t_id ` set (transactions d)"
    and items: "\<forall>row\<in>set items. oi_order_id row = o_id o1" and t: "payment_of o1 t"
    and d': "orders d' = orders d @ [o1]" "order_items d' = order_items d @ items" "transactions d' = transactions d @ [t]"
    and paid: "\<And>o2. paid d o2 \<Longrightarrow> paid d' o2" "paid d' o1"
  shows "ledger_with paid d'"
proof -
  have old: "\<forall>row\<in>set (order_items d). oi_order_id row \<in> o_id ` set (orders d)" using ok by (simp add: ledger_with_def)
  have mine: "filter (\<lambda>row. oi_order_id row = o_id o1) (order_items d') = items"
  proof -
    have "filter (\<lambda>row. oi_order_id row = o_id o1) (order_items d) = []"
      using old fresh(1) unfolding filter_empty_conv by metis
    moreover have "filter (\<lambda>row. oi_order_id row = o_id o1) items = items" using items by (simp add: filter_id_conv)
    ultimately show ?thesis unfolding d' filter_append by simp
  qed
  have others: "filter (\<lambda>row. oi_order_id row = o_id o2) (order_items d') =
      filter (\<lambda>row. oi_order_id row = o_id o2) (order_items d)" if "o2 \<in> set (orders d)" for o2
  proof -
    have "o_id o2 \<noteq> o_id o1" using that fresh(1) by (metis imageI)
    then show ?thesis using items unfolding d' filter_append by (auto simp: filter_empty_conv)
  qed
  have new: "order_wf o1 (filter (\<lambda>row. oi_order_id row = o_id o1) (order_items d')) \<and> clock_ok o1 \<and> paid d' o1"
    using o1 mine paid(2) by (simp add: clock_ok_def)
  have "order_wf o2 (filter (\<lambda>row. oi_order_id row = o_id o2) (order_items d')) \<and> clock_ok o2 \<and> paid d' o2"
    if "o2 \<in> set (orders d)" for o2
    using ok others[OF that] paid(1) that by (simp add: ledger_with_def)
  then show ?thesis
    using ok fresh items t new by (auto simp: ledger_with_def d')
qed

text \<open>
  The common part of settling and refusing: rows keep their keys and terms, and what remains
  to be shown is the clock and the payment of each changed order.
\<close>

lemma ledger_with_update:
  assumes ok: "ledger_with paid d"
    and terms: "\<And>o1. same_terms o1 (f o1)" and pays: "\<And>t. t_id (g t) = t_id t" "\<And>o1 t. payment_of o1 (g t) = payment_of o1 t"
    and d': "orders d' = update_rows (\<lambda>o1. o_id o1 = i) f (orders d)"
      "transactions d' = update_rows (\<lambda>t. t_id t = j) g (transactions d)" "order_items d' = order_items d"
    and rest: "\<And>o1. o1 \<in> set (orders d) \<Longrightarrow> clock_ok o1 \<Longrightarrow> paid d o1 \<Longrightarrow>
      (let o2 = if o_id o1 = i then f o1 else o1 in clock_ok o2 \<and> paid d' o2)"
  shows "ledger_with paid d'"
proof -
  have ids: "map o_id (orders d') = map o_id (orders d)" "map t_id (transactions d') = map t_id (transactions d)"
    unfolding d' by (subst update_rows_map; simp add: pays same_terms_keeps(1)[OF terms])+
  have idset: "o_id ` set (orders d') = o_id ` set (orders d)" using ids(1) by (metis set_map)
  have os: "order_wf o2 (filter (\<lambda>row. oi_order_id row = o_id o2) (order_items d')) \<and> clock_ok o2 \<and> paid d' o2"
    if o2: "o2 \<in> set (orders d')" for o2
  proof -
    obtain o1 where o1: "o1 \<in> set (orders d)" "o2 = (if o_id o1 = i then f o1 else o1)"
      using o2 unfolding d' in_update_rows by blast
    have st: "same_terms o1 o2" using terms o1(2) by (simp add: same_terms_iff)
    show ?thesis
      using ok o1(1) rest[OF o1(1)] o1(2) same_terms_keeps[OF st] by (simp add: ledger_with_def d'(3) Let_def)
  qed
  have ps: "\<exists>o2\<in>set (orders d'). payment_of o2 t" if t: "t \<in> set (transactions d')" for t
  proof -
    obtain t0 where t0: "t0 \<in> set (transactions d)" "t = (if t_id t0 = j then g t0 else t0)"
      using t unfolding d' in_update_rows by blast
    then obtain o1 where o1: "o1 \<in> set (orders d)" "payment_of o1 t0" using ok by (auto simp: ledger_with_def)
    let ?o2 = "if o_id o1 = i then f o1 else o1"
    have "?o2 \<in> set (orders d')" using o1(1) unfolding d' in_update_rows by blast
    moreover have "payment_of ?o2 t" using o1(2) t0(2) same_terms_keeps(3)[OF terms] pays(2) by simp
    ultimately show ?thesis by blast
  qed
  show ?thesis using ok os ps ids idset by (simp add: ledger_with_def d'(3))
qed

lemma ledger_ok_settle:
  assumes ok: "ledger_ok d" and n: "sn_occurredAt n = Some paid"
    and p: "p \<in> set (transactions d)" "pending_for (sn_orderId n) p" and o1: "find_order (sn_orderId n) d = Some o1"
    and d': "transactions d' = update_rows (\<lambda>t. t_id t = t_id p)
        (settled_row (sn_aggregator n) (sn_aggregatorRef n) paid) (transactions d)"
      "orders d' = update_rows (\<lambda>o1. o_id o1 = sn_orderId n) (confirmed_row (clock_due n p o1)) (orders d)"
      "order_items d' = order_items d"
  shows "ledger_ok d'"
proof (rule ledger_with_update[OF ok _ _ _ d'(2,1,3)])
  let ?row = "settled_row (sn_aggregator n) (sn_aggregatorRef n) paid p"
  have now: "settled_for d' o2 ?row" if "o_id o2 = sn_orderId n" for o2
    using p that unfolding settled_for_def d'(1) in_update_rows
    by (auto simp: settled_row_def pending_for_def intro: bexI[of _ p])
  note old = settled_persists[OF ok p _ d'(1)]
  fix o2 assume o2: "o2 \<in> set (orders d)" "clock_ok o2" "paid_ok d o2"
  show "let o3 = if o_id o2 = sn_orderId n then confirmed_row (clock_due n p o1) o2 else o2 in clock_ok o3 \<and> paid_ok d' o3"
  proof (cases "o_id o2 = sn_orderId n")
    case False
    have "paid_ok d' o2" by (rule paid_ok_later[OF o2(3)]) (use old in simp_all)
    then show ?thesis using False o2(2) by (simp add: Let_def)
  next
    case True
    then have same: "o2 = o1" using found_order[OF _ o1 o2(1)] ok by (simp add: ledger_with_def)
    let ?o3 = "confirmed_row (clock_due n p o1) o1"
    have i: "o_id ?o3 = sn_orderId n" using True same by simp
    show ?thesis
    proof (cases "clock_due n p o1")
      case None
      have "paid_ok d' ?o3"
        by (rule paid_ok_later[OF o2(3)]) (use same old now[OF i] None in \<open>auto simp: confirmed_row_def\<close>)
      then show ?thesis using True same o2(2) None by (simp add: Let_def confirmed_row_def clock_ok_def)
    next
      case (Some due)
      have "t_is_advance ?row" "t_settled_at ?row = Some paid"
        using Some by (auto simp: clock_due_def settled_row_def split: if_splits)
      then have "paid_ok d' ?o3"
        using now[OF i] Some n unfolding paid_ok_def
        by (auto simp: confirmed_row_def clock_due_def stamp_row_def split: if_splits)
      then show ?thesis
        using True same Some n
        by (auto simp: Let_def confirmed_row_def clock_due_def stamp_row_def clock_ok_def split: if_splits)
    qed
  qed
qed (simp_all add: same_terms_keeps)

lemma ledger_ok_refuse:
  assumes ok: "ledger_ok d" and p: "p \<in> set (transactions d)" "pending_for i p"
    and d': "transactions d' = update_rows (\<lambda>t. t_id t = t_id p) (refused_row a ref) (transactions d)"
      "orders d' = set_status i Awaiting_Payment (orders d)" "order_items d' = order_items d"
  shows "ledger_ok d'"
proof (rule ledger_with_update[OF ok _ _ _ d'(2)[unfolded set_status_def] d'(1,3)])
  note old = settled_persists[OF ok p _ d'(1)]
  fix o2 assume o2: "o2 \<in> set (orders d)" "clock_ok o2" "paid_ok d o2"
  let ?o3 = "if o_id o2 = i then o2\<lparr>o_status := Awaiting_Payment\<rparr> else o2"
  have "paid_ok d' ?o3" by (rule paid_ok_later[OF o2(3)]) (use old in \<open>auto split: if_splits\<close>)
  then show "let o3 = ?o3 in clock_ok o3 \<and> paid_ok d' o3" using o2(2) by (simp add: Let_def clock_ok_def)
qed (simp_all add: same_terms_keeps)

lemma ledger_ok_same: "ledger_ok d \<Longrightarrow> ledger_same d d' \<Longrightarrow> ledger_ok d'"
  by (erule ledger_with_same) (simp_all add: ledger_same_def paid_ok_def settled_for_def)

lemma ledger_ok_step:
  assumes "platform_step d d'" "ledger_ok d"
  shows "ledger_ok d'"
  using assms
proof (induction rule: platform_step.induct)
  case (place o1 items d d' t ev)
  have "paid_ok d' o2" if "paid_ok d o2" for o2
    using that unfolding paid_ok_def settled_for_def place(12) by fastforce
  moreover have "paid_ok d' o1" using place(2,3) by (simp add: paid_ok_def)
  ultimately show ?case by (rule ledger_with_place[OF place(17,1-4,5,11,7,9,6,8,12)])
next
  case (settle n paid p d o1 d' ev)
  show ?case by (rule ledger_ok_settle[OF settle(12,1-6,8)])
next
  case (refuse p d i d' a ref ev)
  show ?case by (rule ledger_ok_refuse[OF refuse(10,1-4,6)])
qed (auto intro: ledger_ok_same)

section \<open>The other tables through a step\<close>

lemma outbox_ok_queued: "mail_queued d d' \<Longrightarrow> outbox_ok d \<Longrightarrow> outbox_ok d'"
  by (fastforce simp: mail_queued_def outbox_ok_def attempts_ok_def queued_def MAX_ATTEMPTS_def)

lemma outbox_ok_same: "outbox d' = outbox d \<Longrightarrow> outbox_ok d \<Longrightarrow> outbox_ok d'"
  by (simp add: outbox_ok_def)

lemma outbox_ok_step: "platform_step d d' \<Longrightarrow> outbox_ok d \<Longrightarrow> outbox_ok d'"
proof (induction rule: platform_step.induct)
  case (deliver d d' f t e i)
  then show ?case by (auto simp: outbox_ok_def in_update_rows attempts_ok_sent attempts_ok_failed)
qed (auto intro: outbox_ok_queued outbox_ok_same)

lemma prices_ok_step: "platform_step d d' \<Longrightarrow> prices_ok d \<Longrightarrow> prices_ok d'"
  by (induction rule: platform_step.induct) (auto simp: prices_ok_def catalog_same_def)

lemma phones_step:
  "platform_step d d' \<Longrightarrow> distinct (map u_phone_e164 (users d)) \<Longrightarrow> distinct (map u_phone_e164 (users d'))"
proof (induction rule: platform_step.induct)
  case (submit_kyc d' u nid d i k)
  have "map u_phone_e164 (users d') = map u_phone_e164 (users d)"
    unfolding submit_kyc(1) by (rule update_rows_map) (simp add: nid_row_def)
  then show ?case using submit_kyc.prems by simp
qed (auto simp: accounts_same_def new_user_def)

lemma platform_ok_step: "platform_step d d' \<Longrightarrow> platform_ok d \<Longrightarrow> platform_ok d'"
  by (simp add: platform_ok_def ledger_ok_step outbox_ok_step prices_ok_step phones_step)

lemma platform_ok_steps: "platform_steps d d' \<Longrightarrow> platform_ok d \<Longrightarrow> platform_ok d'"
  by (induction rule: rtranclp_induct) (auto intro: platform_ok_step)

section \<open>History\<close>

text \<open>Every order keeps its terms, and a delivery clock that runs is never restarted.\<close>

definition orders_evolve :: "db \<Rightarrow> db \<Rightarrow> bool" where
  "orders_evolve d d' \<longleftrightarrow> (\<forall>o1\<in>set (orders d). \<exists>o2\<in>set (orders d'). later_form o1 o2)"

lemma orders_evolve_refl [simp]: "orders d' = orders d \<Longrightarrow> orders_evolve d d'" "orders d' = orders d @ rest \<Longrightarrow> orders_evolve d d'"
  unfolding orders_evolve_def by (metis later_form_refl, metis later_form_refl Un_iff set_append)

lemma orders_evolve_trans: "orders_evolve a b \<Longrightarrow> orders_evolve b c \<Longrightarrow> orders_evolve a c"
  unfolding orders_evolve_def by (meson later_form_trans)

lemma orders_evolve_update:
  assumes "orders d' = update_rows P f (orders d)" "\<And>o1. o1 \<in> set (orders d) \<Longrightarrow> P o1 \<Longrightarrow> later_form o1 (f o1)"
  shows "orders_evolve d d'"
  unfolding orders_evolve_def
proof
  fix o1 assume o1: "o1 \<in> set (orders d)"
  have "(if P o1 then f o1 else o1) \<in> set (orders d')" using o1 unfolding assms(1) in_update_rows by blast
  moreover have "later_form o1 (if P o1 then f o1 else o1)" using assms(2)[OF o1] by simp
  ultimately show "\<exists>o2\<in>set (orders d'). later_form o1 o2" by blast
qed

lemma later_form_confirmed: "o2 = o1 \<Longrightarrow> later_form o2 (confirmed_row (clock_due n p o1) o2)"
  using same_terms_confirmed[of o2 "clock_due n p o1"]
  by (auto simp: later_form_def confirmed_row_def clock_due_def split: option.splits if_splits)

lemma orders_evolve_step:
  assumes "platform_step d d'" "distinct (map o_id (orders d))"
  shows "orders_evolve d d'"
  using assms
proof (induction rule: platform_step.induct)
  case (settle n paid p d o1 d' ev)
  have "later_form o2 (confirmed_row (clock_due n p o1) o2)" if "o2 \<in> set (orders d)" "o_id o2 = sn_orderId n" for o2
    using found_order[OF settle(12,4) that] by (rule later_form_confirmed)
  then show ?case by (rule orders_evolve_update[OF settle(6)])
next
  case (refuse p d i d' a ref ev)
  show ?case by (rule orders_evolve_update[OF refuse(4)[unfolded set_status_def]]) (simp add: later_form_def)
qed (auto simp: ledger_same_def)

lemma orders_evolve_steps: "platform_steps d d' \<Longrightarrow> ledger_ok d \<Longrightarrow> orders_evolve d d' \<and> ledger_ok d'"
proof (induction rule: rtranclp_induct)
  case (step d1 d2)
  then have "orders_evolve d1 d2" using orders_evolve_step by (simp add: ledger_with_def)
  then show ?case using step ledger_ok_step orders_evolve_trans by blast
qed simp

text \<open>No step verifies anyone: who may transact could do so before.\<close>

definition verified_grows_not :: "db \<Rightarrow> db \<Rightarrow> bool" where
  "verified_grows_not d d' \<longleftrightarrow> (\<forall>r\<in>set (roles d'). r_kyc_status r = Verified \<longrightarrow> r \<in> set (roles d)) \<and>
     (\<forall>u\<in>set (users d'). u_nid_verification_status u = Verified \<longrightarrow> u \<in> set (users d))"

lemma verified_step: "platform_step d d' \<Longrightarrow> verified_grows_not d d'"
proof (induction rule: platform_step.induct)
  case (submit_kyc d' u nid d i k)
  then show ?case by (auto simp: verified_grows_not_def in_update_rows nid_row_def pending_role_def)
qed (auto simp: verified_grows_not_def accounts_same_def new_user_def new_merchant_role_def)

lemma verified_steps: "platform_steps d d' \<Longrightarrow> verified_grows_not d d'"
proof (induction rule: rtranclp_induct)
  case (step d1 d2)
  then show ?case using verified_step[OF step(2)] unfolding verified_grows_not_def by blast
qed (simp add: verified_grows_not_def)

end
