(* ===== verification/Races.thy ===== *)
theory Races
  imports Platform
begin

text \<open>
  What the platform still promises when transactions overlap. Under \<open>READ COMMITTED\<close> a settlement
  may write on the strength of a payment it read as pending before another settlement of the same
  payment committed; the steps of theory \<open>Platform\<close> are extended by the two writes this allows, and
  the invariant is what survives them.
\<close>

section \<open>The steps\<close>

text \<open>As \<open>settle\<close> and \<open>refuse\<close>, of a payment that was pending once and may have been answered since.\<close>

inductive racing_step :: "db \<Rightarrow> db \<Rightarrow> bool" where
  orderly: "platform_step d d' \<Longrightarrow> racing_step d d'"
| settle_late: "sn_occurredAt n = Some paid \<Longrightarrow> p \<in> set (transactions d) \<Longrightarrow> t_order_id p = sn_orderId n \<Longrightarrow>
    find_order (sn_orderId n) d = Some o1 \<Longrightarrow>
    transactions d' = update_rows (\<lambda>t. t_id t = t_id p) (settled_row (sn_aggregator n) (sn_aggregatorRef n) paid) (transactions d) \<Longrightarrow>
    orders d' = update_rows (\<lambda>o1. o_id o1 = sn_orderId n) (confirmed_row (clock_due n p o1)) (orders d) \<Longrightarrow>
    order_items d' = order_items d \<Longrightarrow>
    accounts_same d d' \<Longrightarrow> catalog_same d d' \<Longrightarrow> mail_queued d d' \<Longrightarrow> racing_step d d'"
| refuse_late: "p \<in> set (transactions d) \<Longrightarrow> t_order_id p = i \<Longrightarrow>
    transactions d' = update_rows (\<lambda>t. t_id t = t_id p) (refused_row a ref) (transactions d) \<Longrightarrow>
    orders d' = set_status i Awaiting_Payment (orders d) \<Longrightarrow> order_items d' = order_items d \<Longrightarrow>
    accounts_same d d' \<Longrightarrow> catalog_same d d' \<Longrightarrow> mail_queued d d' \<Longrightarrow> racing_step d d'"

abbreviation racing_steps :: "db \<Rightarrow> db \<Rightarrow> bool" where
  "racing_steps \<equiv> racing_step\<^sup>*\<^sup>*"

lemma platform_racing: "platform_steps d d' \<Longrightarrow> racing_steps d d'"
  by (rule mono_rtranclp[rule_format, where x = platform_step]) (rule orderly)

lemma pending_order: "pending_for i p \<Longrightarrow> t_order_id p = i"
  by (simp add: pending_for_def)

section \<open>The invariant\<close>

text \<open>
  A confirmed order has a settled payment. That a running clock has one is lost: a late failure
  can overwrite the payment that started it.
\<close>

definition confirmed_ok :: "db \<Rightarrow> order_row \<Rightarrow> bool" where
  "confirmed_ok d o1 \<longleftrightarrow> (o_status o1 = Confirmed \<longrightarrow> (\<exists>t. settled_for d o1 t))"

abbreviation ledger_sound :: "db \<Rightarrow> bool" where
  "ledger_sound \<equiv> ledger_with confirmed_ok"

lemma ledger_ok_sound: "ledger_ok d \<Longrightarrow> ledger_sound d"
  by (simp add: ledger_with_def paid_ok_def confirmed_ok_def)

text \<open>The payment of another order is not touched.\<close>

lemma other_settled:
  assumes "distinct (map t_id (transactions d))" "p \<in> set (transactions d)" "t_order_id p \<noteq> o_id o1" "settled_for d o1 t"
    and "transactions d' = update_rows (\<lambda>t. t_id t = t_id p) f (transactions d)"
  shows "settled_for d' o1 t"
proof -
  have "t_id t \<noteq> t_id p"
    using assms(1-4) distinct_key_eq[of t_id "transactions d" t p] by (auto simp: settled_for_def)
  then show ?thesis using assms(4,5) by (auto simp: settled_for_def in_update_rows intro: bexI[of _ t])
qed

lemma other_confirmed:
  assumes "distinct (map t_id (transactions d))" "p \<in> set (transactions d)" "t_order_id p \<noteq> o_id o1" "confirmed_ok d o1"
    and "transactions d' = update_rows (\<lambda>t. t_id t = t_id p) f (transactions d)"
  shows "confirmed_ok d' o1"
  using assms(4) other_settled[OF assms(1-3) _ assms(5)] unfolding confirmed_ok_def by blast

lemma ledger_sound_same: "ledger_sound d \<Longrightarrow> ledger_same d d' \<Longrightarrow> ledger_sound d'"
  by (erule ledger_with_same) (simp_all add: ledger_same_def confirmed_ok_def settled_for_def)

lemma ledger_sound_settle:
  assumes ok: "ledger_sound d" and n: "sn_occurredAt n = Some paid"
    and p: "p \<in> set (transactions d)" "t_order_id p = sn_orderId n" and o1: "find_order (sn_orderId n) d = Some o1"
    and d': "transactions d' = update_rows (\<lambda>t. t_id t = t_id p)
        (settled_row (sn_aggregator n) (sn_aggregatorRef n) paid) (transactions d)"
      "orders d' = update_rows (\<lambda>o1. o_id o1 = sn_orderId n) (confirmed_row (clock_due n p o1)) (orders d)"
      "order_items d' = order_items d"
  shows "ledger_sound d'"
proof (rule ledger_with_update[OF ok _ _ _ d'(2,1,3)])
  have keys: "distinct (map t_id (transactions d))" "distinct (map o_id (orders d))" using ok by (simp_all add: ledger_with_def)
  fix o2 assume o2: "o2 \<in> set (orders d)" "clock_ok o2" "confirmed_ok d o2"
  let ?row = "settled_row (sn_aggregator n) (sn_aggregatorRef n) paid p"
  show "let o3 = if o_id o2 = sn_orderId n then confirmed_row (clock_due n p o1) o2 else o2 in clock_ok o3 \<and> confirmed_ok d' o3"
  proof (cases "o_id o2 = sn_orderId n")
    case False
    then have "confirmed_ok d' o2" using other_confirmed[OF keys(1) p(1) _ o2(3) d'(1)] p(2) by simp
    then show ?thesis using False o2(2) by (simp add: Let_def)
  next
    case True
    have same: "o2 = o1" by (rule found_order[OF keys(2) o1 o2(1) True])
    have "?row \<in> set (transactions d')" using p(1) unfolding d'(1) in_update_rows by (auto intro: bexI[of _ p])
    then have "settled_for d' o3 ?row" if "o_id o3 = sn_orderId n" for o3
      using that p(2) by (simp add: settled_for_def settled_row_def)
    moreover have "o_id (confirmed_row (clock_due n p o1) o2) = sn_orderId n" using True by simp
    ultimately have "confirmed_ok d' (confirmed_row (clock_due n p o1) o2)" unfolding confirmed_ok_def by blast
    moreover have "clock_ok (confirmed_row (clock_due n p o1) o2)"
      using o2(2) n unfolding same
      by (auto simp: confirmed_row_def clock_due_def stamp_row_def clock_ok_def split: option.splits if_splits)
    ultimately show ?thesis using True by (simp add: Let_def)
  qed
qed (simp_all add: same_terms_keeps)

lemma ledger_sound_refuse:
  assumes ok: "ledger_sound d" and p: "p \<in> set (transactions d)" "t_order_id p = i"
    and d': "transactions d' = update_rows (\<lambda>t. t_id t = t_id p) (refused_row a ref) (transactions d)"
      "orders d' = set_status i Awaiting_Payment (orders d)" "order_items d' = order_items d"
  shows "ledger_sound d'"
proof (rule ledger_with_update[OF ok _ _ _ d'(2)[unfolded set_status_def] d'(1,3)])
  have keys: "distinct (map t_id (transactions d))" using ok by (simp add: ledger_with_def)
  fix o2 assume o2: "o2 \<in> set (orders d)" "clock_ok o2" "confirmed_ok d o2"
  let ?o3 = "if o_id o2 = i then o2\<lparr>o_status := Awaiting_Payment\<rparr> else o2"
  have "confirmed_ok d' ?o3"
    using other_confirmed[OF keys p(1) _ o2(3) d'(1)] p(2) by (simp add: confirmed_ok_def)
  then show "let o3 = ?o3 in clock_ok o3 \<and> confirmed_ok d' o3" using o2(2) by (simp add: Let_def clock_ok_def)
qed (simp_all add: same_terms_keeps)

lemma ledger_sound_platform:
  assumes "platform_step d d'" "ledger_sound d"
  shows "ledger_sound d'"
  using assms
proof (induction rule: platform_step.induct)
  case (place o1 items d d' t ev)
  have "confirmed_ok d' o2" if "confirmed_ok d o2" for o2
    using that unfolding confirmed_ok_def settled_for_def place(12) by fastforce
  moreover have "confirmed_ok d' o1" using place(2) by (simp add: confirmed_ok_def)
  ultimately show ?case by (rule ledger_with_place[OF place(17,1-4,5,11,7,9,6,8,12)])
next
  case (settle n paid p d o1 d' ev)
  show ?case by (rule ledger_sound_settle[OF settle(12,1,2) pending_order[OF settle(3)] settle(4-6,8)])
next
  case (refuse p d i d' a ref ev)
  show ?case by (rule ledger_sound_refuse[OF refuse(10,1) pending_order[OF refuse(2)] refuse(3,4,6)])
qed (auto intro: ledger_sound_same)

lemma ledger_sound_step: "racing_step d d' \<Longrightarrow> ledger_sound d \<Longrightarrow> ledger_sound d'"
  by (induction rule: racing_step.induct)
     (auto intro: ledger_sound_platform ledger_sound_settle ledger_sound_refuse)

lemma ledger_sound_steps: "racing_steps d d' \<Longrightarrow> ledger_sound d \<Longrightarrow> ledger_sound d'"
  by (induction rule: rtranclp_induct) (auto intro: ledger_sound_step)

section \<open>History\<close>

lemma racing_evolve_step:
  assumes "racing_step d d'" "distinct (map o_id (orders d))"
  shows "orders_evolve d d'"
  using assms
proof (induction rule: racing_step.induct)
  case (orderly d d')
  then show ?case by (rule orders_evolve_step)
next
  case (settle_late n paid p d o1 d')
  have "later_form o2 (confirmed_row (clock_due n p o1) o2)" if "o2 \<in> set (orders d)" "o_id o2 = sn_orderId n" for o2
    using found_order[OF settle_late(11,4) that] by (rule later_form_confirmed)
  then show ?case by (rule orders_evolve_update[OF settle_late(6)])
next
  case (refuse_late p d i d' a ref)
  show ?case by (rule orders_evolve_update[OF refuse_late(4)[unfolded set_status_def]]) (simp add: later_form_def)
qed

lemma racing_evolve: "racing_steps d d' \<Longrightarrow> ledger_sound d \<Longrightarrow> orders_evolve d d'"
proof (induction rule: rtranclp_induct)
  case (step d1 d2)
  have "distinct (map o_id (orders d1))" using ledger_sound_steps[OF step(1,4)] by (simp add: ledger_with_def)
  then show ?case using racing_evolve_step[OF step(2)] step(3,4) orders_evolve_trans by blast
qed simp

lemma racing_verified: "racing_steps d d' \<Longrightarrow> verified_grows_not d d'"
proof (induction rule: rtranclp_induct)
  case (step d1 d2)
  have "verified_grows_not d1 d2"
    using step(2) by cases (rule verified_step, simp_all add: verified_grows_not_def accounts_same_def)
  then show ?case using step(3) unfolding verified_grows_not_def by blast
qed (simp add: verified_grows_not_def)

lemma racing_prices: "racing_steps d d' \<Longrightarrow> prices_ok d \<Longrightarrow> prices_ok d'"
proof (induction rule: rtranclp_induct)
  case (step d1 d2)
  then have "prices_ok d1" by simp
  with step(2) show ?case
    by cases (blast intro: prices_ok_step, simp_all add: prices_ok_def catalog_same_def)
qed simp

text \<open>A payment stays in the ledger, of the same order, kind and amount.\<close>

definition same_payment :: "transaction_row \<Rightarrow> transaction_row \<Rightarrow> bool" where
  "same_payment t t' \<longleftrightarrow> t_id t' = t_id t \<and> t_order_id t' = t_order_id t \<and> t_method t' = t_method t \<and>
     t_amount_bdt t' = t_amount_bdt t \<and> t_is_advance t' = t_is_advance t"

lemma same_payment_marked [simp]:
  "same_payment t t" "same_payment t (settled_row a r s t)" "same_payment t (refused_row a r t)"
  by (simp_all add: same_payment_def settled_row_def refused_row_def)

lemma payment_persists_update:
  assumes "\<And>t. same_payment t (f t)" "transactions d' = update_rows P f (transactions d)" "t \<in> set (transactions d)"
  shows "\<exists>t'\<in>set (transactions d'). same_payment t t'"
proof -
  have "(if P t then f t else t) \<in> set (transactions d')" using assms(3) unfolding assms(2) in_update_rows by blast
  moreover have "same_payment t (if P t then f t else t)" using assms(1) by simp
  ultimately show ?thesis by blast
qed

lemma payment_persists_platform:
  assumes "platform_step d d'" "t \<in> set (transactions d)"
  shows "\<exists>t'\<in>set (transactions d'). same_payment t t'"
  using assms
proof (induction rule: platform_step.induct)
  case (settle n paid p d o1 d' ev)
  show ?case by (rule payment_persists_update[OF _ settle(5) settle(12)]) simp
next
  case (refuse p d i d' a ref ev)
  show ?case by (rule payment_persists_update[OF _ refuse(3) refuse(10)]) simp
qed (auto simp: ledger_same_def intro: same_payment_marked(1))

lemma payment_persists_step:
  assumes "racing_step d d'" "t \<in> set (transactions d)"
  shows "\<exists>t'\<in>set (transactions d'). same_payment t t'"
  using assms
proof (induction rule: racing_step.induct)
  case (orderly d d')
  then show ?case by (rule payment_persists_platform)
next
  case (settle_late n paid p d o1 d')
  show ?case by (rule payment_persists_update[OF _ settle_late(5,11)]) simp
next
  case (refuse_late p d i d' a ref)
  show ?case by (rule payment_persists_update[OF _ refuse_late(3,9)]) simp
qed

lemma payment_persists:
  assumes "racing_steps d d'" "t \<in> set (transactions d)"
  shows "\<exists>t'\<in>set (transactions d'). same_payment t t'"
  using assms(1)
proof (induction rule: rtranclp_induct)
  case base
  then show ?case using assms(2) by (intro bexI[of _ t]) simp_all
next
  case (step d1 d2)
  then obtain t1 where t1: "t1 \<in> set (transactions d1)" "same_payment t t1" by blast
  obtain t2 where "t2 \<in> set (transactions d2)" "same_payment t1 t2" using payment_persists_step[OF step(2) t1(1)] by blast
  then show ?case using t1(2) by (intro bexI[of _ t2]) (simp_all add: same_payment_def)
qed

end
