(* ===== verification/Webhook.thy ===== *)
theory Webhook
  imports Payment Bytes
begin

text \<open>
  The settlement endpoint: \<open>payment/webhook-signature.ts\<close>, the payload of
  \<open>payment/dto/aggregator-webhook.dto.ts\<close> and the handler of \<open>payment/payment.controller.ts\<close>.
  HMAC-SHA256 is the parameter \<open>hmac\<close> (key bytes, message bytes); the format tests of the
  validation library are the parameters \<open>isUUID\<close> and \<open>isISO8601\<close>, and \<open>new Date(text)\<close> is
  \<open>parse_date\<close>.
\<close>

section \<open>The signature\<close>

datatype raw_body = Raw_Buffer string | Raw_Text string

definition body_bytes :: "raw_body \<Rightarrow> string" where
  "body_bytes body = (case body of Raw_Buffer b \<Rightarrow> b | Raw_Text t \<Rightarrow> utf8 t)"

text \<open>
  A missing header is \<open>None\<close>. \<open>Buffer.from(text, 'hex')\<close> never throws on a string, so the
  \<open>catch\<close> of the source has no counterpart; equal buffers have equal lengths, and
  \<open>timingSafeEqual\<close> compares the bytes.
\<close>

definition verifyWebhookSignature ::
  "(string \<Rightarrow> string \<Rightarrow> string) \<Rightarrow> raw_body \<Rightarrow> string option \<Rightarrow> string \<Rightarrow> bool" where
  "verifyWebhookSignature hmac rawBody signatureHex secret =
     (case signatureHex of
        None \<Rightarrow> False
      | Some sig \<Rightarrow>
          if sig = [] \<or> secret = [] then False
          else
            let expected = hmac (utf8 secret) (body_bytes rawBody);
                provided = hex_decode sig
            in if length provided \<noteq> length expected then False else provided = expected)"

lemma verifyWebhookSignature_iff:
  "verifyWebhookSignature hmac body signature secret \<longleftrightarrow>
     (\<exists>sig. signature = Some sig \<and> sig \<noteq> [] \<and> secret \<noteq> [] \<and> hex_decode sig = hmac (utf8 secret) (body_bytes body))"
  by (auto simp: verifyWebhookSignature_def Let_def split: option.splits)

section \<open>The payload\<close>

record aggregator_webhook_dto =
  wd_orderId :: string
  wd_aggregator :: string
  wd_aggregatorRef :: string
  wd_amountPoisha :: number
  wd_outcome :: outcome
  wd_occurredAt :: "string option"

text \<open>What the decorators require of a payload whose fields have the declared types.\<close>

definition webhook_dto_valid :: "(string \<Rightarrow> bool) \<Rightarrow> (string \<Rightarrow> bool) \<Rightarrow> aggregator_webhook_dto \<Rightarrow> bool" where
  "webhook_dto_valid isUUID isISO8601 dto \<longleftrightarrow>
     isUUID (wd_orderId dto) \<and>
     wd_aggregator dto \<in> set [''sslcommerz'', ''shurjopay'', ''bkash'', ''nagad''] \<and>
     isInteger (wd_amountPoisha dto) \<and> 0 \<le> wd_amountPoisha dto \<and>
     (case wd_occurredAt dto of None \<Rightarrow> True | Some t \<Rightarrow> isISO8601 t)"

section \<open>The handler\<close>

text \<open>\<open>secret\<close> is \<open>config.get('PAYMENT_WEBHOOK_SECRET')\<close>.\<close>

definition notice_of :: "(string \<Rightarrow> date) \<Rightarrow> int \<Rightarrow> aggregator_webhook_dto \<Rightarrow> settlement_notice" where
  "notice_of parse_date now dto =
     \<lparr>sn_orderId = wd_orderId dto, sn_aggregator = wd_aggregator dto, sn_aggregatorRef = wd_aggregatorRef dto,
      sn_amount = wd_amountPoisha dto, sn_outcome = wd_outcome dto,
      sn_occurredAt =
        (case wd_occurredAt dto of
           None \<Rightarrow> Some now
         | Some t \<Rightarrow> if t = [] then Some now else parse_date t)\<rparr>"

definition handle ::
  "settlement_ports \<Rightarrow> (string \<Rightarrow> string \<Rightarrow> string) \<Rightarrow> (string \<Rightarrow> date) \<Rightarrow> string option \<Rightarrow>
   string option \<Rightarrow> aggregator_webhook_dto \<Rightarrow> string option \<Rightarrow> ('z world_scheme, settlement_result) act" where
  "handle P hmac parse_date secret rawBody dto signature w =
     (case secret of
        None \<Rightarrow> (Inl (UnauthorizedException ''error.webhook.not_configured''), w)
      | Some key \<Rightarrow>
          if key = [] then (Inl (UnauthorizedException ''error.webhook.not_configured''), w)
          else
            (case rawBody of
               None \<Rightarrow> (Inl (BadRequestException ''error.webhook.raw_body_unavailable''), w)
             | Some body \<Rightarrow>
                 if \<not> verifyWebhookSignature hmac (Raw_Buffer body) signature key
                 then (Inl (UnauthorizedException ''error.webhook.invalid_signature''), w)
                 else applySettlement P (notice_of parse_date (clock w) dto) w))"

section \<open>Properties\<close>

definition sample_dto :: aggregator_webhook_dto where
  "sample_dto =
     \<lparr>wd_orderId = ''order1'', wd_aggregator = ''bkash'', wd_aggregatorRef = ''ref1'', wd_amountPoisha = 4000,
      wd_outcome = Outcome_Settled, wd_occurredAt = Some ''2024-01-01''\<rparr>"

lemma sample_notice_of: "notice_of (\<lambda>_. Some 5000) now sample_dto = sample_notice Outcome_Settled"
  by (simp add: notice_of_def sample_dto_def sample_notice_def)

lemma sample_signature:
  "verifyWebhookSignature pad_hmac (Raw_Buffer ''body'') (Some (hex_encode (pad_hmac ''k'' ''body''))) ''k''"
  by (simp add: verifyWebhookSignature_iff body_bytes_def utf8_ascii pad_hmac_def)

text \<open>
  C9. No effect without a valid signature: whenever the webhook handler changes anything, or
  answers at all instead of refusing, a secret is configured, the raw body is at hand, and the
  signature header decodes, as hexadecimal, to the HMAC of exactly those bytes under that secret.
  The header itself need not be the HMAC's text: the decoder stops at the first character that
  is not hexadecimal and ignores what follows (\<open>webhook_signature_malleable\<close>).
\<close>

theorem webhook_authenticated:
  assumes "handle P hmac parse_date secret rawBody dto signature w = (r, w')"
    and "w' \<noteq> w \<or> (\<exists>x. r = Inr x)"
  shows "\<exists>key body sig. secret = Some key \<and> key \<noteq> [] \<and> rawBody = Some body \<and> signature = Some sig \<and>
     hex_decode sig = hmac (utf8 key) body"
  using assms by (auto simp: handle_def verifyWebhookSignature_iff body_bytes_def split: option.splits if_splits)

theorem webhook_authenticated_witness:
  "\<exists>key body sig. Some ''k'' = Some key \<and> key \<noteq> [] \<and> Some ''body'' = Some body \<and>
     Some (hex_encode (pad_hmac ''k'' ''body'')) = Some sig \<and> hex_decode sig = pad_hmac (utf8 key) body"
proof -
  obtain x w' where r: "applySettlement settlement_wiring (sample_notice Outcome_Settled) sample_paid_world = (Inr x, w')"
    using sample_settled by metis
  have h: "handle settlement_wiring pad_hmac (\<lambda>_. Some 5000) (Some ''k'') (Some ''body'') sample_dto
      (Some (hex_encode (pad_hmac ''k'' ''body''))) sample_paid_world = (Inr x, w')"
    using sample_signature by (simp add: handle_def sample_notice_of r)
  show ?thesis by (rule webhook_authenticated[OF h]) simp
qed

text \<open>
  A webhook signature is not unique: any text appended to a valid one after a character that
  is not hexadecimal is accepted as well, because the decoder stops there. Authenticity is not
  affected, but the header must not serve as an idempotency key.
\<close>

theorem webhook_signature_malleable:
  assumes "verifyWebhookSignature hmac body (Some (hex_encode mac)) secret" and "hex_val c = None"
  shows "verifyWebhookSignature hmac body (Some (hex_encode mac @ c # rest)) secret"
  using assms by (auto simp: verifyWebhookSignature_iff hex_decode_encode_append hex_decode_stops)

theorem webhook_signature_malleable_witness:
  "verifyWebhookSignature pad_hmac (Raw_Buffer ''body'') (Some (hex_encode (pad_hmac ''k'' ''body'') @ ''z.'')) ''k''"
  by (rule webhook_signature_malleable[OF sample_signature]) (simp add: hex_val_def)

end
