(* ===== verification/Redis.thy ===== *)
theory Redis
  imports UnitOfWork
begin

text \<open>
  The Redis server behind \<open>REDIS_CLIENT\<close>. It is not part of the repository, so it is a
  parameter: a record of the commands the sources send, over a server state of any type. What
  the code relies on is the predicate \<open>redis_laws\<close>, the documented behaviour of
  \<open>SET .. EX\<close>, \<open>GET\<close>, \<open>DEL\<close>, \<open>TTL\<close> and of a \<open>MULTI\<close> of the commands \<open>INCR\<close>, \<open>EXPIRE\<close>
  (with or without \<open>NX\<close>) and \<open>TTL\<close>, stated on a view of the server as a map from keys to a value
  and its expiry instant, if it has one. Which commands are sent is the client's choice. A
  command may fail (the connection is lost); it then had its whole effect or none.
  \<open>map_redis\<close> is a server that satisfies the laws.

  The two kinds of value the program stores are the counters of the rate limiter and the
  one-time-password challenges, whose flat JSON text is kept as the record it stands for.
\<close>

section \<open>Values and commands\<close>

record otp_challenge =
  ch_codeHash :: string
  ch_expiresAt :: date
  ch_attempts :: int

datatype redis_value = Counter int | Stored otp_challenge

text \<open>A key without an expiry instant stays.\<close>

type_synonym redis_store = "string \<Rightarrow> (redis_value \<times> int option) option"

text \<open>The commands of a \<open>MULTI\<close>; the flag of \<open>EXPIRE\<close> is the option \<open>NX\<close>.\<close>

datatype redis_command = Incr string | Expire string int bool | Ttl string

type_synonym ('r, 'a) command = "int \<Rightarrow> 'r \<Rightarrow> (err + 'a) \<times> 'r"   \<comment> \<open>at a time in milliseconds\<close>

record 'r redis_client =
  rc_set :: "string \<Rightarrow> redis_value \<Rightarrow> int \<Rightarrow> ('r, unit) command"
  rc_get :: "string \<Rightarrow> ('r, redis_value option) command"
  rc_del :: "string \<Rightarrow> ('r, unit) command"
  rc_ttl :: "string \<Rightarrow> ('r, int) command"
  rc_multi :: "redis_command list \<Rightarrow> ('r, int list) command"

record 'r redis_world = world +
  rw_redis :: 'r

definition on_redis :: "('r, 'a) command \<Rightarrow> (('r, 'z) redis_world_scheme, 'a) act" where
  "on_redis c w = (case c (clock w) (rw_redis w) of (r, s) \<Rightarrow> (r, w\<lparr>rw_redis := s\<rparr>))"

section \<open>The documented behaviour\<close>

text \<open>The keys that have not expired, the remaining seconds \<open>TTL\<close> reports, and the effect of a command.\<close>

definition unexpired :: "int \<Rightarrow> int option \<Rightarrow> bool" where
  "unexpired now e = (case e of None \<Rightarrow> True | Some x \<Rightarrow> now \<le> x)"

definition live :: "int \<Rightarrow> redis_store \<Rightarrow> redis_store" where
  "live now m = (\<lambda>k. case m k of None \<Rightarrow> None | Some (v, e) \<Rightarrow> if unexpired now e then Some (v, e) else None)"

definition ttl_of :: "int \<Rightarrow> redis_store \<Rightarrow> string \<Rightarrow> int" where
  "ttl_of now m k =
     (case m k of None \<Rightarrow> -2 | Some (v, None) \<Rightarrow> -1 | Some (v, Some e) \<Rightarrow> (e - now + 500) div 1000)"

text \<open>
  One command of a \<open>MULTI\<close>, with its reply. \<open>INCR\<close> keeps the expiry of a key and creates a
  missing one without; \<open>EXPIRE\<close> answers whether it set the time, deletes the key when the time is
  not positive, and with \<open>NX\<close> leaves a key alone that has an expiry.
\<close>

fun run_command :: "int \<Rightarrow> redis_command \<Rightarrow> redis_store \<Rightarrow> int \<times> redis_store" where
  "run_command now (Incr k) m =
     (case m k of Some (Counter c, e) \<Rightarrow> (c + 1, m(k \<mapsto> (Counter (c + 1), e))) | _ \<Rightarrow> (1, m(k \<mapsto> (Counter 1, None))))"
| "run_command now (Expire k seconds nx) m =
     (case m k of
        None \<Rightarrow> (0, m)
      | Some (v, e) \<Rightarrow>
          if nx \<and> e \<noteq> None then (0, m)
          else if seconds \<le> 0 then (1, m(k := None))
          else (1, m(k \<mapsto> (v, Some (now + 1000 * seconds)))))"
| "run_command now (Ttl k) m = (ttl_of now m k, m)"

fun run_commands :: "int \<Rightarrow> redis_command list \<Rightarrow> redis_store \<Rightarrow> int list \<times> redis_store" where
  "run_commands now [] m = ([], m)"
| "run_commands now (c # cs) m =
     (case run_command now c m of (reply, m1) \<Rightarrow>
      case run_commands now cs m1 of (replies, m2) \<Rightarrow> (reply # replies, m2))"

text \<open>\<open>INCR\<close> is documented for integers only.\<close>

definition counters_only :: "redis_command list \<Rightarrow> redis_store \<Rightarrow> bool" where
  "counters_only cs m \<longleftrightarrow> (\<forall>k. Incr k \<in> set cs \<longrightarrow> (\<nexists>ch e. m k = Some (Stored ch, e)))"

text \<open>
  \<open>performs view now f g c\<close>: the command answers \<open>g\<close> of the live keys and leaves \<open>f\<close> of
  them; when it fails, the server is as before or as after the command.
\<close>

definition performs ::
  "('r \<Rightarrow> redis_store) \<Rightarrow> (redis_store \<Rightarrow> bool) \<Rightarrow> int \<Rightarrow> (redis_store \<Rightarrow> redis_store) \<Rightarrow> (redis_store \<Rightarrow> 'a) \<Rightarrow>
   ('r, 'a) command \<Rightarrow> bool" where
  "performs view pre now f g c \<longleftrightarrow>
     (\<forall>s r s'. pre (live now (view s)) \<longrightarrow> c now s = (r, s') \<longrightarrow>
        (case r of
           Inr a \<Rightarrow> a = g (live now (view s)) \<and> live now (view s') = live now (f (live now (view s)))
         | Inl e \<Rightarrow> live now (view s') = live now (view s) \<or>
                    live now (view s') = live now (f (live now (view s)))))"

definition redis_laws :: "'r redis_client \<Rightarrow> ('r \<Rightarrow> redis_store) \<Rightarrow> bool" where
  "redis_laws R view \<longleftrightarrow>
     (\<forall>now k v ex. performs view (\<lambda>_. 0 < ex) now (\<lambda>m. m(k \<mapsto> (v, Some (now + 1000 * ex)))) (\<lambda>_. ()) (rc_set R k v ex)) \<and>
     (\<forall>now k. performs view (\<lambda>_. True) now (\<lambda>m. m) (\<lambda>m. map_option fst (m k)) (rc_get R k)) \<and>
     (\<forall>now k. performs view (\<lambda>_. True) now (\<lambda>m. m(k := None)) (\<lambda>_. ()) (rc_del R k)) \<and>
     (\<forall>now k. performs view (\<lambda>_. True) now (\<lambda>m. m) (\<lambda>m. ttl_of now m k) (rc_ttl R k)) \<and>
     (\<forall>now cs. performs view (counters_only cs) now (\<lambda>m. snd (run_commands now cs m))
        (\<lambda>m. fst (run_commands now cs m)) (rc_multi R cs))"

text \<open>A server that answers every command.\<close>

definition reliable :: "'r redis_client \<Rightarrow> bool" where
  "reliable R \<longleftrightarrow>
     (\<forall>k v ex now s. \<exists>a s'. rc_set R k v ex now s = (Inr a, s')) \<and>
     (\<forall>k now s. \<exists>a s'. rc_get R k now s = (Inr a, s')) \<and>
     (\<forall>k now s. \<exists>a s'. rc_del R k now s = (Inr a, s')) \<and>
     (\<forall>k now s. \<exists>a s'. rc_ttl R k now s = (Inr a, s')) \<and>
     (\<forall>cs now s. \<exists>a s'. rc_multi R cs now s = (Inr a, s'))"

section \<open>A server that keeps the laws\<close>

definition map_redis :: "redis_store redis_client" where
  "map_redis =
     \<lparr>rc_set = (\<lambda>k v ex now m. (Inr (), m(k \<mapsto> (v, Some (now + 1000 * ex))))),
      rc_get = (\<lambda>k now m. (Inr (map_option fst (live now m k)), m)),
      rc_del = (\<lambda>k now m. (Inr (), m(k := None))),
      rc_ttl = (\<lambda>k now m. (Inr (ttl_of now (live now m) k), m)),
      rc_multi = (\<lambda>cs now m. case run_commands now cs (live now m) of (replies, m') \<Rightarrow> (Inr replies, m'))\<rparr>"

lemma live_simps [simp]:
  "live now (live now m) = live now m"
  "live now (m(k := None)) = (live now m)(k := None)"
  "live now ((live now m)(k \<mapsto> (v, e))) = live now (m(k \<mapsto> (v, e)))"
  by (auto simp: live_def fun_eq_iff split: option.splits)

lemma unexpired_simps [simp]: "unexpired now None" "unexpired now (Some e) \<longleftrightarrow> now \<le> e"
  by (simp_all add: unexpired_def)

lemma unexpired_earlier: "now \<le> later \<Longrightarrow> unexpired later e \<Longrightarrow> unexpired now e"
  by (cases e) simp_all

lemma live_later: "now \<le> later \<Longrightarrow> live later (live now m) = live later m"
  by (auto simp: live_def fun_eq_iff dest: unexpired_earlier split: option.splits)

lemma live_upd: "unexpired now e \<Longrightarrow> live now (m(k \<mapsto> (v, e))) = (live now m)(k \<mapsto> (v, e))"
  by (auto simp: live_def fun_eq_iff)

lemma live_Some: "live now m k = Some (v, e) \<longleftrightarrow> m k = Some (v, e) \<and> unexpired now e"
  by (auto simp: live_def split: option.splits if_splits)

lemma live_at: "m k = m' k \<Longrightarrow> live now m k = live now m' k"
  by (simp add: live_def)

lemma live_upd_other: "j \<noteq> k \<Longrightarrow> live now (m(k := x)) j = live now m j"
  by (simp add: live_def)

lemma live_other: "live now m k = live now m' k \<Longrightarrow> now \<le> later \<Longrightarrow> live later m k = live later m' k"
  by (auto simp: live_def dest: unexpired_earlier split: option.splits if_splits)

lemma map_redis_laws: "redis_laws map_redis (\<lambda>m. m)"
  by (auto simp: redis_laws_def performs_def map_redis_def split: prod.splits)

lemma map_redis_reliable: "reliable map_redis"
  by (simp add: reliable_def map_redis_def split: prod.split)

section \<open>What the laws give for each command\<close>

lemma redis_set:
  assumes "redis_laws R view" "rc_set R k v ex now s = (Inr a, s')" "0 < ex"
  shows "live now (view s') = (live now (view s))(k \<mapsto> (v, Some (now + 1000 * ex)))"
proof -
  have "performs view (\<lambda>_. 0 < ex) now (\<lambda>m. m(k \<mapsto> (v, Some (now + 1000 * ex)))) (\<lambda>_. ()) (rc_set R k v ex)"
    using assms(1) unfolding redis_laws_def by blast
  then show ?thesis using assms(2,3) by (auto simp: performs_def live_upd dest!: spec[of _ s])
qed

lemma redis_get:
  assumes "redis_laws R view" "rc_get R k now s = (Inr a, s')"
  shows "a = map_option fst (live now (view s) k)" and "live now (view s') = live now (view s)"
proof -
  have "performs view (\<lambda>_. True) now (\<lambda>m. m) (\<lambda>m. map_option fst (m k)) (rc_get R k)"
    using assms(1) unfolding redis_laws_def by blast
  then show "a = map_option fst (live now (view s) k)" and "live now (view s') = live now (view s)"
    using assms(2) by (auto simp: performs_def dest!: spec[of _ s])
qed

lemma redis_del:
  assumes "redis_laws R view" "rc_del R k now s = (Inr a, s')"
  shows "live now (view s') = (live now (view s))(k := None)"
proof -
  have "performs view (\<lambda>_. True) now (\<lambda>m. m(k := None)) (\<lambda>_. ()) (rc_del R k)"
    using assms(1) unfolding redis_laws_def by blast
  then show ?thesis using assms(2) by (auto simp: performs_def dest!: spec[of _ s])
qed

lemma redis_ttl:
  assumes "redis_laws R view" "rc_ttl R k now s = (Inr a, s')"
  shows "a = ttl_of now (live now (view s)) k" and "live now (view s') = live now (view s)"
proof -
  have "performs view (\<lambda>_. True) now (\<lambda>m. m) (\<lambda>m. ttl_of now m k) (rc_ttl R k)"
    using assms(1) unfolding redis_laws_def by blast
  then show "a = ttl_of now (live now (view s)) k" and "live now (view s') = live now (view s)"
    using assms(2) by (auto simp: performs_def dest!: spec[of _ s])
qed

lemma redis_multi:
  assumes "redis_laws R view" "rc_multi R cs now s = (Inr a, s')" "counters_only cs (live now (view s))"
  shows "a = fst (run_commands now cs (live now (view s)))"
    and "live now (view s') = live now (snd (run_commands now cs (live now (view s))))"
proof -
  have "performs view (counters_only cs) now (\<lambda>m. snd (run_commands now cs m))
      (\<lambda>m. fst (run_commands now cs m)) (rc_multi R cs)"
    using assms(1) unfolding redis_laws_def by blast
  then show "a = fst (run_commands now cs (live now (view s)))"
    and "live now (view s') = live now (snd (run_commands now cs (live now (view s))))"
    using assms(2,3) by (auto simp: performs_def dest!: spec[of _ s])
qed

text \<open>A failed \<open>MULTI\<close> had its effect or none.\<close>

lemma redis_multi_failed:
  assumes "redis_laws R view" "rc_multi R cs now s = (Inl e, s')" "counters_only cs (live now (view s))"
  shows "live now (view s') = live now (view s) \<or>
    live now (view s') = live now (snd (run_commands now cs (live now (view s))))"
proof -
  have "performs view (counters_only cs) now (\<lambda>m. snd (run_commands now cs m))
      (\<lambda>m. fst (run_commands now cs m)) (rc_multi R cs)"
    using assms(1) unfolding redis_laws_def by blast
  then show ?thesis using assms(2,3) by (auto simp: performs_def dest!: spec[of _ s])
qed

text \<open>Commands leave other keys alone.\<close>

fun command_key :: "redis_command \<Rightarrow> string" where
  "command_key (Incr k) = k"
| "command_key (Expire k seconds nx) = k"
| "command_key (Ttl k) = k"

lemma run_command_other: "command_key c \<noteq> j \<Longrightarrow> snd (run_command now c m) j = m j"
  by (cases c) (auto split: option.splits redis_value.splits prod.splits)

lemma run_commands_other: "\<forall>c\<in>set cs. command_key c \<noteq> j \<Longrightarrow> snd (run_commands now cs m) j = m j"
proof (induction cs arbitrary: m)
  case (Cons c cs)
  then show ?case using run_command_other[of c j now m] by (auto split: prod.splits) (metis snd_conv)+
qed simp

end
