(* ===== verification/RateLimit.thy ===== *)
theory RateLimit
  imports Redis
begin

text \<open>
  \<open>common/rate-limit/rate-limiter.ts\<close> and \<open>redis-rate-limiter.ts\<close>: the fixed-window limiter
  and the policies its callers name.
\<close>

section \<open>Decisions and policies\<close>

record rate_limit_decision =
  rl_allowed :: bool
  rl_remaining :: int
  rl_resetSeconds :: int

record rate_policy =
  rp_limit :: int
  rp_windowSeconds :: int

definition otpRequest_policy :: rate_policy where
  "otpRequest_policy = \<lparr>rp_limit = 3, rp_windowSeconds = 15 * 60\<rparr>"

definition otpVerify_policy :: rate_policy where
  "otpVerify_policy = \<lparr>rp_limit = 10, rp_windowSeconds = 15 * 60\<rparr>"

definition orderCreate_policy :: rate_policy where
  "orderCreate_policy = \<lparr>rp_limit = 20, rp_windowSeconds = 60 * 60\<rparr>"

section \<open>The limiter\<close>

text \<open>It fails open: an unreachable Redis allows the request.\<close>

definition hit ::
  "'r redis_client \<Rightarrow> string \<Rightarrow> int \<Rightarrow> int \<Rightarrow> (('r, 'z) redis_world_scheme, rate_limit_decision) act" where
  "hit R key limit windowSeconds w =
     (let namespaced = ''ratelimit:'' @ key in
      case on_redis (rc_multi R [Incr namespaced, Expire namespaced windowSeconds True, Ttl namespaced]) w of
        (Inr replies, w') \<Rightarrow>
          (let count = replies ! 0; ttl = replies ! 2 in
           (Inr \<lparr>rl_allowed = (count \<le> limit), rl_remaining = max 0 (limit - count),
                 rl_resetSeconds = (if 0 < ttl then ttl else windowSeconds)\<rparr>, w'))
      | (Inl e, w') \<Rightarrow>
          (Inr \<lparr>rl_allowed = True, rl_remaining = limit, rl_resetSeconds = windowSeconds\<rparr>, w'))"

section \<open>What one hit does\<close>

lemma hit_total: "\<exists>d s. hit R key limit window w = (Inr d, w\<lparr>rw_redis := s\<rparr>)"
  by (auto simp: hit_def on_redis_def Let_def split: prod.splits sum.splits)

text \<open>
  The window of a key: its counter and expiry, if it has one, absent as a counter of nought. Only
  the limiter writes keys under its prefix.
\<close>

definition window_of :: "int \<Rightarrow> ('r \<Rightarrow> redis_store) \<Rightarrow> 'r \<Rightarrow> string \<Rightarrow> (int \<times> int option) option" where
  "window_of now view s key =
     (case live now (view s) (''ratelimit:'' @ key) of Some (Counter c, e) \<Rightarrow> Some (c, e) | _ \<Rightarrow> None)"

definition counter_key :: "int \<Rightarrow> ('r \<Rightarrow> redis_store) \<Rightarrow> 'r \<Rightarrow> string \<Rightarrow> bool" where
  "counter_key now view s key \<longleftrightarrow> (\<nexists>ch e. live now (view s) (''ratelimit:'' @ key) = Some (Stored ch, e))"

lemma counter_key_later: "now \<le> later \<Longrightarrow> counter_key now view s key \<Longrightarrow> counter_key later view s key"
  by (auto simp: counter_key_def live_Some dest: unexpired_earlier)

text \<open>The three commands of a hit, and what they do to a counter.\<close>

definition hit_commands :: "string \<Rightarrow> int \<Rightarrow> redis_command list" where
  "hit_commands key window = [Incr (''ratelimit:'' @ key), Expire (''ratelimit:'' @ key) window True, Ttl (''ratelimit:'' @ key)]"

definition counted :: "int \<Rightarrow> int \<Rightarrow> (int \<times> int option) option \<Rightarrow> int \<times> int" where
  "counted now window y =
     (case y of None \<Rightarrow> (1, now + 1000 * window) | Some (c, None) \<Rightarrow> (c + 1, now + 1000 * window)
      | Some (c, Some e) \<Rightarrow> (c + 1, e))"

lemma hit_multi: "hit R key limit window w =
    (case on_redis (rc_multi R (hit_commands key window)) w of
       (Inr replies, w') \<Rightarrow> (Inr \<lparr>rl_allowed = (replies ! 0 \<le> limit), rl_remaining = max 0 (limit - replies ! 0),
          rl_resetSeconds = (if 0 < replies ! 2 then replies ! 2 else window)\<rparr>, w')
     | (Inl e, w') \<Rightarrow> (Inr \<lparr>rl_allowed = True, rl_remaining = limit, rl_resetSeconds = window\<rparr>, w'))"
  unfolding hit_def hit_commands_def Let_def ..

lemma run_hit:
  assumes "\<nexists>ch e. m (''ratelimit:'' @ key) = Some (Stored ch, e)" "0 < window"
    and "counted now window (case m (''ratelimit:'' @ key) of Some (Counter c, e) \<Rightarrow> Some (c, e) | _ \<Rightarrow> None) = (c, e)"
  shows "fst (run_commands now (hit_commands key window) m) ! 0 = c"
    and "snd (run_commands now (hit_commands key window) m) = m(''ratelimit:'' @ key \<mapsto> (Counter c, Some e))"
  using assms
  by (auto simp: hit_commands_def counted_def fun_eq_iff split: option.splits redis_value.splits prod.splits)

lemma hit_counters: "counter_key now view s key \<longleftrightarrow> counters_only (hit_commands key window) (live now (view s))"
  by (auto simp: counter_key_def counters_only_def hit_commands_def)

lemma hit_counts:
  assumes laws: "redis_laws R view" "reliable R" and w: "0 < window"
    and free: "counter_key (clock w) view (rw_redis w) key"
    and h: "hit R key limit window w = (Inr d, w')"
  shows "\<exists>c e. window_of (clock w) view (rw_redis w') key = Some (c, Some e) \<and>
      (c, e) = counted (clock w) window (window_of (clock w) view (rw_redis w) key) \<and>
      rl_allowed d = (c \<le> limit) \<and> rl_remaining d = max 0 (limit - c) \<and> clock w' = clock w \<and>
      counter_key (clock w) view (rw_redis w') key"
proof -
  let ?k = "''ratelimit:'' @ key" and ?m = "live (clock w) (view (rw_redis w))"
  obtain replies s' where run: "rc_multi R (hit_commands key window) (clock w) (rw_redis w) = (Inr replies, s')"
    using laws(2) unfolding reliable_def by (metis surj_pair)
  obtain c e where ce: "counted (clock w) window (window_of (clock w) view (rw_redis w) key) = (c, e)" by fastforce
  have stored: "\<nexists>ch e. ?m ?k = Some (Stored ch, e)" using free by (simp add: counter_key_def)
  note r = redis_multi[OF laws(1) run free[unfolded hit_counters[of _ _ _ _ window]]]
  note m = run_hit[of ?m, OF stored w ce[unfolded window_of_def]]
  have count: "replies ! 0 = c" using r(1) m(1) by simp
  have w': "w' = w\<lparr>rw_redis := s'\<rparr>"
    and d: "rl_allowed d = (c \<le> limit)" "rl_remaining d = max 0 (limit - c)"
    using h run count by (auto simp: hit_multi on_redis_def)
  have e: "clock w \<le> e"
    using ce w by (auto simp: counted_def window_of_def live_Some split: option.splits redis_value.splits)
  have "live (clock w) (view s') ?k = live (clock w) (?m(?k \<mapsto> (Counter c, Some e))) ?k"
    using r(2) m(2) by simp
  then have "live (clock w) (view s') ?k = Some (Counter c, Some e)" using e by (simp add: live_Some)
  then show ?thesis using w' d ce by (auto simp: window_of_def counter_key_def)
qed

text \<open>On the map server.\<close>

lemma map_redis_hit:
  assumes "live (clock w) (rw_redis w) (''ratelimit:'' @ key) =
      (if n = 0 then None else Some (Counter n, Some (clock w + 1000 * window)))" "0 < window"
  shows "hit map_redis key limit window w =
    (Inr \<lparr>rl_allowed = (n + 1 \<le> limit), rl_remaining = max 0 (limit - (n + 1)), rl_resetSeconds = window\<rparr>,
     w\<lparr>rw_redis := (live (clock w) (rw_redis w))(''ratelimit:'' @ key \<mapsto> (Counter (n + 1), Some (clock w + 1000 * window)))\<rparr>)"
proof -
  have "run_commands (clock w) (hit_commands key window) (live (clock w) (rw_redis w)) =
      ([n + 1, if n = 0 then 1 else 0, window],
       (live (clock w) (rw_redis w))(''ratelimit:'' @ key \<mapsto> (Counter (n + 1), Some (clock w + 1000 * window))))"
    using assms by (simp add: hit_commands_def ttl_of_def del: append.simps)
  then show ?thesis using assms(2) by (simp add: hit_multi on_redis_def map_redis_def)
qed

section \<open>Hits over time\<close>

fun hits :: "'r redis_client \<Rightarrow> string \<Rightarrow> int \<Rightarrow> int \<Rightarrow> int list \<Rightarrow> ('r, 'z) redis_world_scheme \<Rightarrow> bool list" where
  "hits R key limit window [] w = []"
| "hits R key limit window (t # ts) w =
     (case hit R key limit window (w\<lparr>clock := t\<rparr>) of
        (Inr d, w') \<Rightarrow> rl_allowed d # hits R key limit window ts w'
      | (Inl e, w') \<Rightarrow> [])"

text \<open>
  The reference: a window opens with a hit outside every window, lasts its length from there, and
  counts the hits until then.
\<close>

fun fixed_window :: "int \<Rightarrow> int \<Rightarrow> (int \<times> int) option \<Rightarrow> int list \<Rightarrow> bool list" where
  "fixed_window limit len y [] = []"
| "fixed_window limit len y (t # ts) =
     (let (c, e) = (case y of Some (c, e) \<Rightarrow> if t \<le> e then (c + 1, e) else (1, t + len) | None \<Rightarrow> (1, t + len))
      in (c \<le> limit) # fixed_window limit len (Some (c, e)) ts)"

text \<open>What the server holds of a window at a time.\<close>

definition shown :: "int \<Rightarrow> (int \<times> int) option \<Rightarrow> (int \<times> int option) option" where
  "shown now y = (case y of Some (c, e) \<Rightarrow> if now \<le> e then Some (c, Some e) else None | None \<Rightarrow> None)"

lemma window_of_later: "now \<le> later \<Longrightarrow> window_of now view s key = shown now y \<Longrightarrow>
    counter_key now view s key \<Longrightarrow> window_of later view s key = shown later y"
  by (auto simp: window_of_def shown_def counter_key_def live_def split: option.splits if_splits redis_value.splits
      dest: unexpired_earlier)

lemma counted_shown: "counted t window (shown t y) =
    (case y of Some (c, e) \<Rightarrow> if t \<le> e then (c + 1, e) else (1, t + 1000 * window) | None \<Rightarrow> (1, t + 1000 * window))"
  by (auto simp: counted_def shown_def split: option.splits)

lemma hits_fixed:
  assumes laws: "redis_laws R view" "reliable R" and w: "0 < window"
    and "counter_key (clock w) view (rw_redis w) key" "window_of (clock w) view (rw_redis w) key = shown (clock w) y"
    and "sorted (clock w # ts)"
  shows "hits R key limit window ts w = fixed_window limit (1000 * window) y ts"
  using assms(4-)
proof (induction ts arbitrary: w y)
  case (Cons t ts)
  let ?w = "w\<lparr>clock := t\<rparr>"
  have t: "clock w \<le> t" using Cons.prems by simp
  obtain d s where h: "hit R key limit window ?w = (Inr d, ?w\<lparr>rw_redis := s\<rparr>)"
    using hit_total[of R key limit window ?w] by blast
  have free: "counter_key (clock ?w) view (rw_redis ?w) key"
    using counter_key_later[OF t Cons.prems(1)] by simp
  have win: "window_of (clock ?w) view (rw_redis ?w) key = shown t y"
    using window_of_later[OF t Cons.prems(2,1)] by simp
  obtain c e where ce: "counted t window (shown t y) = (c, e)" by fastforce
  have e: "t \<le> e" using ce w by (auto simp: counted_shown split: option.splits if_splits)
  have after: "window_of t view s key = shown t (Some (c, e))" "rl_allowed d = (c \<le> limit)" "counter_key t view s key"
    using hit_counts[OF laws w free h] win ce e by (auto simp: shown_def)
  have "hits R key limit window ts (?w\<lparr>rw_redis := s\<rparr>) = fixed_window limit (1000 * window) (Some (c, e)) ts"
    by (rule Cons.IH) (use after Cons.prems in auto)
  then show ?case using h after(2) ce[unfolded counted_shown] by simp
qed simp

text \<open>Times cut into windows: each starts with a hit after the end of the one before.\<close>

fun windows :: "int \<Rightarrow> int list list \<Rightarrow> bool" where
  "windows len [] \<longleftrightarrow> True"
| "windows len (v # vs) \<longleftrightarrow> v \<noteq> [] \<and> (\<forall>u\<in>set v. u \<le> hd v + len) \<and> (\<forall>u\<in>set (concat vs). hd v + len < u) \<and> windows len vs"

lemma fixed_inside:
  "\<forall>t\<in>set ts. t \<le> e \<Longrightarrow> fixed_window limit len (Some (c, e)) (ts @ us) =
     map (\<lambda>i. c + 1 + int i \<le> limit) [0..<length ts] @ fixed_window limit len (Some (c + int (length ts), e)) us"
proof (induction ts arbitrary: c)
  case (Cons t ts)
  have "[0..<length (t # ts)] = 0 # map Suc [0..<length ts]" by (simp add: upt_conv_Cons map_Suc_upt del: upt_Suc)
  then show ?case using Cons by (simp add: algebra_simps del: upt_Suc)
qed simp

lemma fixed_windows:
  assumes "windows len vs" "case y of None \<Rightarrow> True | Some (c, e) \<Rightarrow> \<forall>u\<in>set (concat vs). e < u"
  shows "fixed_window limit len y (concat vs) = concat (map (\<lambda>v. map (\<lambda>i. 1 + int i \<le> limit) [0..<length v]) vs)"
  using assms
proof (induction vs arbitrary: y)
  case (Cons v vs)
  obtain t ts where v: "v = t # ts" using Cons.prems(1) by (cases v) auto
  have "fixed_window limit len y (t # ts @ concat vs) =
      (1 \<le> limit) # fixed_window limit len (Some (1, t + len)) (ts @ concat vs)"
    using Cons.prems(2) v by (auto split: option.splits)
  moreover have "fixed_window limit len (Some (1, t + len)) (ts @ concat vs) =
      map (\<lambda>i. 1 + 1 + int i \<le> limit) [0..<length ts] @ fixed_window limit len (Some (1 + int (length ts), t + len)) (concat vs)"
    by (rule fixed_inside) (use Cons.prems(1) v in simp)
  moreover have "fixed_window limit len (Some (1 + int (length ts), t + len)) (concat vs) =
      concat (map (\<lambda>v. map (\<lambda>i. 1 + int i \<le> limit) [0..<length v]) vs)"
    by (rule Cons.IH) (use Cons.prems(1) v in auto)
  moreover have "[0..<length v] = 0 # map Suc [0..<length ts]" by (simp add: v upt_conv_Cons map_Suc_upt del: upt_Suc)
  ultimately show ?case by (simp add: v del: upt_Suc)
qed simp

section \<open>Properties\<close>

text \<open>
  C35. The limiter is a fixed window: for a key without a counter, a window of positive length and a
  Redis server that answers, take any series of hits and cut it into windows, the first starting
  with the first hit, each lasting \<open>windowSeconds\<close> from its first hit, and each next one starting
  with the first hit after that. Then within every window hit number \<open>i\<close> is allowed iff \<open>i\<close> is
  at most the limit. So repeated hits, allowed or not, do not prolong a window: however many fall
  into it, the first hit after its end counts as the first of a new one.
\<close>

theorem rate_limit_window:
  assumes "redis_laws R view" "reliable R" "0 < windowSeconds"
    and "live t (view (rw_redis w)) (''ratelimit:'' @ key) = None"
    and "sorted (t # concat vs)" "windows (1000 * windowSeconds) vs"
  shows "hits R key limit windowSeconds (concat vs) (w\<lparr>clock := t\<rparr>) =
    concat (map (\<lambda>v. map (\<lambda>i. 1 + int i \<le> limit) [0..<length v]) vs)"
proof -
  have "hits R key limit windowSeconds (concat vs) (w\<lparr>clock := t\<rparr>) =
      fixed_window limit (1000 * windowSeconds) None (concat vs)"
    by (rule hits_fixed[OF assms(1-3)]) (use assms(4,5) in \<open>simp_all add: counter_key_def window_of_def shown_def\<close>)
  then show ?thesis using fixed_windows[OF assms(6), of None limit] by simp
qed

definition sample_redis_world :: "redis_store redis_world" where
  "sample_redis_world =
     \<lparr>committed = sample_db, inflight = None, tx_faults = [], clock = 0, rw_redis = (\<lambda>_. None)\<rparr>"

theorem rate_limit_window_witness:
  "hits map_redis ''otp:request:+8801712345678'' 3 900 [0, 10, 20, 900000, 900001, 1000000] (sample_redis_world\<lparr>clock := 0\<rparr>) =
     [True, True, True, False, True, True]"
proof -
  let ?vs = "[[0, 10, 20, 900000], [900001, 1000000]] :: int list list"
  have "hits map_redis ''otp:request:+8801712345678'' 3 900 (concat ?vs) (sample_redis_world\<lparr>clock := 0\<rparr>) =
      concat (map (\<lambda>v. map (\<lambda>i. 1 + int i \<le> 3) [0..<length v]) ?vs)"
    by (rule rate_limit_window[OF map_redis_laws map_redis_reliable]) (auto simp: sample_redis_world_def live_def)
  also have "\<dots> = [True, True, True, False, True, True]" by (simp add: upt_rec)
  finally show ?thesis by simp
qed

end
