(* ===== verification/Otp.thy ===== *)
theory Otp
  imports Redis Bytes
begin

text \<open>
  \<open>identity/domain/otp.ts\<close> and \<open>identity/otp.store.ts\<close>: issuing and verifying one-time
  passwords, their storage in Redis, and the normalisation of phone numbers. The number drawn by
  \<open>randomInt\<close> and HMAC-SHA256 (\<open>hmac\<close>, key bytes and message bytes) are parameters.
\<close>

section \<open>Issuing\<close>

definition OTP_LENGTH :: nat where "OTP_LENGTH = 6"

definition OTP_TTL_SECONDS :: int where "OTP_TTL_SECONDS = 300"

definition MAX_VERIFY_ATTEMPTS :: int where "MAX_VERIFY_ATTEMPTS = 5"

record issued_otp =
  is_code :: string
  is_challenge :: otp_challenge

text \<open>\<open>draw\<close> is any number: \<open>randomInt(0, max)\<close> is its remainder by \<open>max\<close>.\<close>

definition generateCode :: "nat \<Rightarrow> string" where
  "generateCode draw = padStart OTP_LENGTH CHR ''0'' (dec (draw mod 10 ^ OTP_LENGTH))"

definition hashCode :: "(string \<Rightarrow> string \<Rightarrow> string) \<Rightarrow> string \<Rightarrow> string \<Rightarrow> err + string" where
  "hashCode hmac code secret =
     (if secret = [] then Inl (PlainError ''OTP secret is not configured'')
      else Inr (hex_encode (hmac (utf8 secret) (utf8 code))))"

definition issueOtp :: "(string \<Rightarrow> string \<Rightarrow> string) \<Rightarrow> nat \<Rightarrow> string \<Rightarrow> int \<Rightarrow> err + issued_otp" where
  "issueOtp hmac draw secret now =
     (let code = generateCode draw in
      sum_bind (hashCode hmac code secret) (\<lambda>codeHash.
        Inr \<lparr>is_code = code,
             is_challenge = \<lparr>ch_codeHash = codeHash, ch_expiresAt = mk_date (now + OTP_TTL_SECONDS * 1000),
               ch_attempts = 0\<rparr>\<rparr>))"

section \<open>Verifying\<close>

datatype otp_reason = Invalid | Expired | Too_Many_Attempts

datatype verify_outcome = Ok_Outcome | Refused otp_reason

text \<open>Comparing with an invalid date is false, so a challenge without a valid expiry does not expire.\<close>

definition verifyOtp ::
  "(string \<Rightarrow> string \<Rightarrow> string) \<Rightarrow> otp_challenge option \<Rightarrow> string \<Rightarrow> string \<Rightarrow> int \<Rightarrow> err + verify_outcome" where
  "verifyOtp hmac challenge submitted secret now =
     (case challenge of
        None \<Rightarrow> Inr (Refused Invalid)
      | Some ch \<Rightarrow>
          if MAX_VERIFY_ATTEMPTS \<le> ch_attempts ch then Inr (Refused Too_Many_Attempts)
          else if (case ch_expiresAt ch of None \<Rightarrow> False | Some e \<Rightarrow> now > e) then Inr (Refused Expired)
          else if \<not> (submitted \<noteq> [] \<and> list_all is_digit submitted) \<or> length submitted \<noteq> OTP_LENGTH
          then Inr (Refused Invalid)
          else
            let expected = hex_decode (ch_codeHash ch) in
            sum_bind (hashCode hmac submitted secret) (\<lambda>h.
              let actual = hex_decode h in
              if length expected \<noteq> length actual then Inr (Refused Invalid)
              else if expected = actual then Inr Ok_Outcome else Inr (Refused Invalid)))"

section \<open>Phone numbers\<close>

definition is_phone_separator :: "char \<Rightarrow> bool" where
  "is_phone_separator c \<longleftrightarrow> is_space c \<or> c \<in> set ''-()''"

definition strip_plus :: "string \<Rightarrow> string" where
  "strip_plus s = (if startsWith ''+'' s then drop 1 s else s)"

text \<open>\<open>^01[3-9]\d{8}$\<close>, and the same after \<open>88\<close>.\<close>

definition bd_mobile :: "string \<Rightarrow> bool" where
  "bd_mobile s \<longleftrightarrow> length s = 11 \<and> take 2 s = ''01'' \<and> s ! 2 \<in> set ''3456789'' \<and> list_all is_digit (drop 3 s)"

definition normaliseBdPhone :: "string \<Rightarrow> string option" where
  "normaliseBdPhone input =
     (let digits = strip_plus (filter (\<lambda>c. \<not> is_phone_separator c) input) in
      if bd_mobile digits then Some (''+880'' @ drop 1 digits)
      else if startsWith ''88'' digits \<and> bd_mobile (drop 2 digits) then Some (''+'' @ digits)
      else None)"

section \<open>The store\<close>

definition otp_key :: "string \<Rightarrow> string" where
  "otp_key phone = ''otp:'' @ phone"

text \<open>
  \<open>toISOString\<close> throws on an invalid date. No counter is ever stored under a key of this store;
  its fields would be missing, which ends in a type error when the code is compared.
\<close>

definition stored_of :: "otp_challenge \<Rightarrow> err + otp_challenge" where
  "stored_of ch = (case ch_expiresAt ch of None \<Rightarrow> Inl RangeError | Some _ \<Rightarrow> Inr ch)"

definition save :: "'r redis_client \<Rightarrow> string \<Rightarrow> otp_challenge \<Rightarrow> (('r, 'z) redis_world_scheme, unit) act" where
  "save R phone challenge =
     act_bind (act_lift (stored_of challenge)) (\<lambda>stored.
       on_redis (rc_set R (otp_key phone) (Stored stored) OTP_TTL_SECONDS))"

definition load :: "'r redis_client \<Rightarrow> string \<Rightarrow> (('r, 'z) redis_world_scheme, otp_challenge option) act" where
  "load R phone =
     act_bind (on_redis (rc_get R (otp_key phone))) (\<lambda>raw.
       case raw of
         None \<Rightarrow> act_return None
       | Some (Stored ch) \<Rightarrow> act_return (Some ch)
       | Some (Counter c) \<Rightarrow> act_throw TypeError)"

definition recordAttempt :: "'r redis_client \<Rightarrow> string \<Rightarrow> otp_challenge \<Rightarrow> (('r, 'z) redis_world_scheme, unit) act" where
  "recordAttempt R phone challenge =
     act_bind (on_redis (rc_ttl R (otp_key phone))) (\<lambda>ttl.
       if ttl \<le> 0 then act_return ()
       else act_bind (act_lift (stored_of (challenge\<lparr>ch_attempts := ch_attempts challenge + 1\<rparr>))) (\<lambda>stored.
              on_redis (rc_set R (otp_key phone) (Stored stored) ttl)))"

definition consume :: "'r redis_client \<Rightarrow> string \<Rightarrow> (('r, 'z) redis_world_scheme, unit) act" where
  "consume R phone = on_redis (rc_del R (otp_key phone))"

section \<open>Codes\<close>

lemma dec_length: "n < 10 ^ Suc k \<Longrightarrow> length (dec n) \<le> Suc k"
proof (induction k arbitrary: n)
  case (Suc k)
  show ?case
  proof (cases "n < 10")
    case False
    have "n div 10 < 10 ^ Suc k" using Suc.prems by (simp add: less_mult_imp_div_less)
    then show ?thesis using Suc.IH False by (subst dec.simps) simp
  qed (simp add: dec_small)
qed (simp add: dec_small)

lemma generateCode_shape [simp]:
  "length (generateCode draw) = 6" "list_all is_digit (generateCode draw)" "generateCode draw \<noteq> []"
proof -
  let ?n = "draw mod 10 ^ 6"
  have "length (dec ?n) \<le> Suc 5" by (rule dec_length) simp
  then show "length (generateCode draw) = 6" by (simp add: generateCode_def OTP_LENGTH_def)
  then show "generateCode draw \<noteq> []" by auto
  show "list_all is_digit (generateCode draw)"
    using dec_digits[of ?n] by (auto simp: generateCode_def OTP_LENGTH_def padStart_def list_all_iff is_digit_def)
qed

lemma hashCode_Inr: "hashCode hmac c secret = Inr h \<longleftrightarrow> secret \<noteq> [] \<and> h = hex_encode (hmac (utf8 secret) (utf8 c))"
  by (auto simp: hashCode_def)

text \<open>A submission has the shape of a code when it is six digits.\<close>

definition code_shaped :: "string \<Rightarrow> bool" where
  "code_shaped s \<longleftrightarrow> length s = 6 \<and> list_all is_digit s"

lemma verifyOtp_cases:
  assumes "secret \<noteq> []"
  shows "verifyOtp hmac challenge submitted secret now =
    Inr (case challenge of
       None \<Rightarrow> Refused Invalid
     | Some ch \<Rightarrow>
         if 5 \<le> ch_attempts ch then Refused Too_Many_Attempts
         else if (case ch_expiresAt ch of None \<Rightarrow> False | Some e \<Rightarrow> now > e) then Refused Expired
         else if code_shaped submitted \<and> hex_decode (ch_codeHash ch) = hmac (utf8 secret) (utf8 submitted) then Ok_Outcome
         else Refused Invalid)"
  using assms
  by (auto simp: verifyOtp_def hashCode_def MAX_VERIFY_ATTEMPTS_def OTP_LENGTH_def code_shaped_def Let_def split: option.splits)

section \<open>Phone numbers, by their significant part\<close>

lemma bd_mobile_local: "bd_mobile s \<Longrightarrow> \<exists>n. s = CHR ''0'' # n \<and> length n = 10 \<and> list_all is_digit n"
proof -
  assume b: "bd_mobile s"
  then have "length s = 11" "take 2 s = ''01''" "s ! 2 \<in> set ''3456789''" "list_all is_digit (drop 3 s)"
    by (simp_all add: bd_mobile_def)
  then obtain c r where "s = ''01'' @ c # r" "c \<in> set ''3456789''" "list_all is_digit r" "length r = 8"
    by (cases s; cases "tl s"; cases "tl (tl s)") auto
  then show ?thesis by (auto simp: is_digit_def)
qed

lemma digit_not_separator: "is_digit c \<Longrightarrow> \<not> is_phone_separator c"
  by (auto simp: is_digit_def is_phone_separator_def is_space_def)

lemma filter_digits: "list_all is_digit s \<Longrightarrow> filter (\<lambda>c. \<not> is_phone_separator c) s = s"
  by (auto simp: list_all_iff digit_not_separator intro!: filter_True)

lemma normaliseBdPhone_local:
  assumes "bd_mobile (CHR ''0'' # n)"
  shows "normaliseBdPhone (CHR ''0'' # n) = Some (''+880'' @ n)"
    and "normaliseBdPhone (''880'' @ n) = Some (''+880'' @ n)"
    and "normaliseBdPhone (''+880'' @ n) = Some (''+880'' @ n)"
proof -
  have n: "length n = 10" "list_all is_digit n" using bd_mobile_local[OF assms] by auto
  have sep: "is_digit CHR ''0''" "is_digit CHR ''8''" "\<not> is_phone_separator CHR ''+''"
    by (auto simp: is_digit_def is_phone_separator_def is_space_def)
  have f: "filter (\<lambda>c. \<not> is_phone_separator c) n = n" using filter_digits[OF n(2)] .
  have nb: "\<not> bd_mobile (''880'' @ n)" by (simp add: bd_mobile_def)
  show "normaliseBdPhone (CHR ''0'' # n) = Some (''+880'' @ n)"
    using assms f sep by (simp add: normaliseBdPhone_def digit_not_separator strip_plus_def startsWith_def)
  show "normaliseBdPhone (''880'' @ n) = Some (''+880'' @ n)" "normaliseBdPhone (''+880'' @ n) = Some (''+880'' @ n)"
    using assms f sep nb by (simp_all add: normaliseBdPhone_def digit_not_separator strip_plus_def startsWith_def)
qed

lemma bd_mobile_iff: "bd_mobile (CHR ''0'' # n) \<longleftrightarrow>
    length n = 10 \<and> list_all is_digit n \<and> n ! 0 = CHR ''1'' \<and> n ! 1 \<in> set ''3456789''"
proof (cases "length n = 10")
  case True
  then obtain a b r where "n = a # b # r" "length r = 8" by (cases n; cases "tl n") auto
  then show ?thesis by (auto simp: bd_mobile_def is_digit_def)
qed (simp add: bd_mobile_def)

text \<open>The texts that are a number without separators, and the significant digits of each.\<close>

lemma stripped_number:
  "(\<exists>n. p = ''+880'' @ n \<and> bd_mobile (CHR ''0'' # n) \<and> t \<in> {''0'' @ n, ''+0'' @ n, ''880'' @ n, ''+880'' @ n}) \<longleftrightarrow>
   (if bd_mobile (strip_plus t) then Some (''+880'' @ drop 1 (strip_plus t))
    else if startsWith ''88'' (strip_plus t) \<and> bd_mobile (drop 2 (strip_plus t)) then Some (''+'' @ strip_plus t) else None) = Some p"
    (is "?number \<longleftrightarrow> ?code = Some p")
proof
  assume ?number
  then obtain n where n: "p = ''+880'' @ n" "bd_mobile (CHR ''0'' # n)" "t \<in> {''0'' @ n, ''+0'' @ n, ''880'' @ n, ''+880'' @ n}" by blast
  have no: "\<not> bd_mobile (''880'' @ n)" by (simp add: bd_mobile_def)
  then show "?code = Some p" using n by (auto simp: strip_plus_def startsWith_def)
next
  let ?d = "strip_plus t"
  have t: "t = ?d \<or> t = CHR ''+'' # ?d" by (cases t) (auto simp: strip_plus_def startsWith_def)
  assume "?code = Some p"
  then consider "bd_mobile ?d" "p = ''+880'' @ drop 1 ?d"
    | "startsWith ''88'' ?d" "bd_mobile (drop 2 ?d)" "p = ''+'' @ ?d"
    by (auto split: if_splits)
  then show ?number
  proof cases
    case 1
    obtain n where "?d = CHR ''0'' # n" using bd_mobile_local[OF 1(1)] by auto
    then show ?thesis using 1 t by auto
  next
    case 2
    obtain n where n: "drop 2 ?d = CHR ''0'' # n" using bd_mobile_local[OF 2(2)] by auto
    have "take 2 ?d = ''88''" using 2(1) by (simp add: startsWith_def numeral_2_eq_2)
    then have "?d = ''88'' @ drop 2 ?d" using append_take_drop_id[of 2 ?d] by simp
    then show ?thesis using 2 n t by auto
  qed
qed

section \<open>Properties\<close>

text \<open>
  A challenge accepts its code and nothing else: a submission succeeds against an issued
  challenge exactly when fewer than five attempts are recorded, no more than 300 seconds have
  passed, it is six digits, and its HMAC is that of the issued code. In particular the issued
  code, leading zeros included, is accepted for five minutes.
\<close>

theorem otp_accepts_its_code_only:
  assumes "issueOtp hmac draw secret now = Inr i" "\<bar>now + 300000\<bar> \<le> MAX_TIME"
  shows "verifyOtp hmac (Some ((is_challenge i)\<lparr>ch_attempts := n\<rparr>)) submitted secret later = Inr Ok_Outcome \<longleftrightarrow>
     n < 5 \<and> later \<le> now + 300000 \<and> length submitted = 6 \<and> list_all is_digit submitted \<and>
     hmac (utf8 secret) (utf8 submitted) = hmac (utf8 secret) (utf8 (is_code i))"
proof -
  have "secret \<noteq> []" "ch_codeHash (is_challenge i) = hex_encode (hmac (utf8 secret) (utf8 (is_code i)))"
      "ch_expiresAt (is_challenge i) = Some (now + 300000)"
    using assms by (auto simp: issueOtp_def Let_def sum_bind_Inr_iff hashCode_Inr mk_date_def OTP_TTL_SECONDS_def)
  then show ?thesis by (auto simp: verifyOtp_cases code_shaped_def)
qed

theorem otp_accepts_its_code_only_witness:
  "\<exists>i. issueOtp pad_hmac 4321 ''k'' 0 = Inr i \<and> is_code i = ''004321'' \<and>
     verifyOtp pad_hmac (Some ((is_challenge i)\<lparr>ch_attempts := 4\<rparr>)) ''004321'' ''k'' 300000 = Inr Ok_Outcome"
proof -
  have digits: "digit_char 1 = CHR ''1''" "digit_char 2 = CHR ''2''" "digit_char 3 = CHR ''3''" "digit_char 4 = CHR ''4''"
    by code_simp+
  then have "dec 4321 = ''4321''" by (simp add: dec.simps[of 4321] dec.simps[of 432] dec.simps[of 43] dec_small)
  then have c: "generateCode 4321 = ''004321''"
    by (simp add: generateCode_def OTP_LENGTH_def padStart_def numeral_2_eq_2)
  obtain i where i: "issueOtp pad_hmac 4321 ''k'' 0 = Inr i" "is_code i = ''004321''"
    by (auto simp: issueOtp_def hashCode_def c Let_def)
  show ?thesis
    using i otp_accepts_its_code_only[OF i(1), of 4 "''004321''" 300000]
    by (simp add: MAX_TIME_def is_digit_def)
qed

text \<open>
  C36. One person, one number: a text is accepted as a Bangladeshi mobile number exactly when,
  without its spaces, hyphens and brackets, it is ten significant digits (a one, a digit from
  three to nine, and eight more) after \<open>0\<close>, \<open>+0\<close>, \<open>880\<close> or \<open>+880\<close>, and it then normalises
  to \<open>+880\<close> and those ten digits. So two texts normalise to the same number exactly when their
  significant digits are the same, and the normal form is its own.
\<close>

theorem phone_normal_form:
  "normaliseBdPhone s = Some p \<longleftrightarrow>
     (\<exists>n. p = ''+880'' @ n \<and> length n = 10 \<and> list_all is_digit n \<and> n ! 0 = CHR ''1'' \<and> n ! 1 \<in> set ''3456789'' \<and>
        filter (\<lambda>c. \<not> (is_space c \<or> c \<in> set ''-()'')) s \<in> {''0'' @ n, ''+0'' @ n, ''880'' @ n, ''+880'' @ n})"
proof -
  have "normaliseBdPhone s = Some p \<longleftrightarrow> (\<exists>n. p = ''+880'' @ n \<and> bd_mobile (CHR ''0'' # n) \<and>
      filter (\<lambda>c. \<not> is_phone_separator c) s \<in> {''0'' @ n, ''+0'' @ n, ''880'' @ n, ''+880'' @ n})"
    unfolding stripped_number by (simp only: normaliseBdPhone_def Let_def)
  then show ?thesis unfolding bd_mobile_iff is_phone_separator_def by (simp only: conj_assoc)
qed

theorem phone_normal_form_instance: "normaliseBdPhone ''+880 (17) 1234-5678'' = Some ''+8801712345678''"
  by (simp add: normaliseBdPhone_def is_phone_separator_def is_space_def strip_plus_def startsWith_def bd_mobile_def is_digit_def Let_def)

end
