(* ===== verification/Session.thy ===== *)
theory Session
  imports Json Database
begin

text \<open>
  \<open>common/auth/session-token.ts\<close> and \<open>common/auth/auth.guard.ts\<close>: the signed session token
  and the guard that turns it into the caller of a request. HMAC-SHA256 is the parameter
  \<open>hmac\<close> (key bytes, message bytes); \<open>other\<close> stands for \<open>JSON.parse\<close> on payloads whose text
  is not made of code units below 256, and may be any function.
\<close>

section \<open>Tokens\<close>

definition SESSION_TTL_SECONDS :: int where
  "SESSION_TTL_SECONDS = 30 * 24 * 60 * 60"

record session_payload =
  tk_sub :: string
  tk_activeRoleId :: "string option"
  tk_iat :: int
  tk_exp :: int

datatype token_reason = Malformed | Bad_Signature | Token_Expired

datatype token_verification = Token_Valid json | Token_Invalid token_reason

text \<open>\<open>b64url\<close> of a buffer: the three replacements on its base64 text.\<close>

definition to_url_char :: "char \<Rightarrow> char" where
  "to_url_char c = (if c = CHR ''+'' then CHR ''-'' else if c = CHR ''/'' then CHR ''_'' else c)"

definition b64url :: "string \<Rightarrow> string" where
  "b64url bytes = rev (dropWhile (\<lambda>c. c = CHR ''='') (rev (map to_url_char (base64 bytes))))"

definition from_url_char :: "char \<Rightarrow> char" where
  "from_url_char c = (if c = CHR ''-'' then CHR ''+'' else if c = CHR ''_'' then CHR ''/'' else c)"

definition fromB64url :: "string \<Rightarrow> string" where
  "fromB64url s = base64_decode (map from_url_char s)"

definition sign :: "(string \<Rightarrow> string \<Rightarrow> string) \<Rightarrow> string \<Rightarrow> string \<Rightarrow> string" where
  "sign hmac payloadPart secret = b64url (hmac (utf8 secret) (utf8 payloadPart))"

text \<open>\<open>JSON.stringify(payload)\<close>.\<close>

definition payload_text :: "session_payload \<Rightarrow> string" where
  "payload_text p =
     ''{'' @ quote ''sub'' @ '':'' @ quote (tk_sub p) @ '','' @
     quote ''activeRoleId'' @ '':'' @ (case tk_activeRoleId p of None \<Rightarrow> ''null'' | Some r \<Rightarrow> quote r) @ '','' @
     quote ''iat'' @ '':'' @ show_int (tk_iat p) @ '','' @
     quote ''exp'' @ '':'' @ show_int (tk_exp p) @ ''}''"

text \<open>
  Time values are integral milliseconds below \<open>2 ^ 53\<close>, for which the floor of the rounded
  quotient by 1000 is integer division.
\<close>

definition payload_at :: "string \<Rightarrow> string option \<Rightarrow> int \<Rightarrow> session_payload" where
  "payload_at userId activeRoleId now =
     \<lparr>tk_sub = userId, tk_activeRoleId = activeRoleId, tk_iat = now div 1000,
      tk_exp = now div 1000 + SESSION_TTL_SECONDS\<rparr>"

definition issueSessionToken ::
  "(string \<Rightarrow> string \<Rightarrow> string) \<Rightarrow> string \<Rightarrow> string option \<Rightarrow> string \<Rightarrow> int \<Rightarrow> err + string" where
  "issueSessionToken hmac userId activeRoleId secret now =
     (if secret = [] then Inl (PlainError ''SESSION_SECRET is not configured'')
      else
        let payloadPart = b64url (utf8 (payload_text (payload_at userId activeRoleId now)))
        in Inr (payloadPart @ ''.'' @ sign hmac payloadPart secret))"

definition decode_payload :: "(string \<Rightarrow> json option) \<Rightarrow> string \<Rightarrow> json option" where
  "decode_payload other bytes =
     (case utf8_text bytes of
        Some t \<Rightarrow> if wide_escape t then other bytes else parse_json t
      | None \<Rightarrow> other bytes)"

text \<open>\<open>v.key\<close>: \<open>null\<close> has no properties, and no other JSON value but an object has this one.\<close>

definition property_of :: "json \<Rightarrow> string \<Rightarrow> err + json option" where
  "property_of v key = (case v of JNull \<Rightarrow> Inl TypeError | JObj kvs \<Rightarrow> Inr (map_of kvs key) | _ \<Rightarrow> Inr None)"

definition check_payload :: "json \<Rightarrow> int \<Rightarrow> err + token_verification" where
  "check_payload payload now =
     sum_bind (property_of payload ''sub'') (\<lambda>sub.
     sum_bind (property_of payload ''exp'') (\<lambda>ex.
       case (sub, ex) of
         (Some (JStr _), Some (JNum e)) \<Rightarrow>
           Inr (if e \<le> of_int (now div 1000) then Token_Invalid Token_Expired else Token_Valid payload)
       | _ \<Rightarrow> Inr (Token_Invalid Malformed)))"

definition verifySessionToken ::
  "(string \<Rightarrow> string \<Rightarrow> string) \<Rightarrow> (string \<Rightarrow> json option) \<Rightarrow> string \<Rightarrow> string \<Rightarrow> int \<Rightarrow> err + token_verification" where
  "verifySessionToken hmac other token secret now =
     (if secret = [] then Inl (PlainError ''SESSION_SECRET is not configured'')
      else
        (case split_on CHR ''.'' token of
           [payloadPart, signaturePart] \<Rightarrow>
             if payloadPart = [] \<or> signaturePart = [] then Inr (Token_Invalid Malformed)
             else
               let expected = utf8 (sign hmac payloadPart secret); provided = utf8 signaturePart in
               if length expected \<noteq> length provided then Inr (Token_Invalid Bad_Signature)
               else if expected \<noteq> provided then Inr (Token_Invalid Bad_Signature)
               else
                 (case decode_payload other (fromB64url payloadPart) of
                    None \<Rightarrow> Inr (Token_Invalid Malformed)
                  | Some payload \<Rightarrow> check_payload payload now)
         | _ \<Rightarrow> Inr (Token_Invalid Malformed)))"

section \<open>The guard\<close>

record authenticated_caller =
  ca_userId :: string
  ca_activeRoleId :: "string option"

text \<open>
  The caller a payload names. The server signs payloads whose role is a string or \<open>null\<close>
  only; any other JSON value there reads as no role.
\<close>

definition caller_of :: "json \<Rightarrow> authenticated_caller" where
  "caller_of payload =
     \<lparr>ca_userId = (case property_of payload ''sub'' of Inr (Some (JStr s)) \<Rightarrow> s | _ \<Rightarrow> []),
      ca_activeRoleId = (case property_of payload ''activeRoleId'' of Inr (Some (JStr s)) \<Rightarrow> Some s | _ \<Rightarrow> None)\<rparr>"

text \<open>\<open>None\<close> is a public route, which passes without a caller. \<open>secret\<close> is \<open>SESSION_SECRET\<close>.\<close>

definition canActivate ::
  "(string \<Rightarrow> string \<Rightarrow> string) \<Rightarrow> (string \<Rightarrow> json option) \<Rightarrow> bool \<Rightarrow> string option \<Rightarrow> string option \<Rightarrow> int \<Rightarrow>
   err + authenticated_caller option" where
  "canActivate hmac other isPublic header secret now =
     (if isPublic then Inr None
      else
        (case header of
           None \<Rightarrow> Inl (UnauthorizedException ''error.auth.missing_token'')
         | Some h \<Rightarrow>
             if \<not> startsWith ''Bearer '' h then Inl (UnauthorizedException ''error.auth.missing_token'')
             else
               (case secret of
                  None \<Rightarrow> Inl (UnauthorizedException ''error.auth.not_configured'')
                | Some key \<Rightarrow>
                    if key = [] then Inl (UnauthorizedException ''error.auth.not_configured'')
                    else
                      sum_bind (verifySessionToken hmac other (drop 7 h) key now) (\<lambda>result.
                        case result of
                          Token_Invalid _ \<Rightarrow> Inl (UnauthorizedException ''error.auth.invalid_token'')
                        | Token_Valid payload \<Rightarrow> Inr (Some (caller_of payload))))))"

text \<open>The parameter decorator \<open>@Caller()\<close>: a route without the guard has no caller.\<close>

definition Caller :: "authenticated_caller option \<Rightarrow> err + authenticated_caller" where
  "Caller caller =
     (case caller of
        None \<Rightarrow> Inl (PlainError ''Caller requested on a route with no auth guard'')
      | Some c \<Rightarrow> Inr c)"

section \<open>The URL-safe encoding\<close>

lemma url_chars: "n < 64 \<Longrightarrow> from_url_char (to_url_char (b64_char n)) = b64_char n"
proof -
  assume n: "n < 64"
  then have "b64_char n \<noteq> CHR ''-''" "b64_char n \<noteq> CHR ''_''"
    using b64_val_char[OF n] by (auto simp: b64_char_def split: if_splits dest!: arg_cong[where f = octet])
  then show ?thesis by (auto simp: from_url_char_def to_url_char_def)
qed

lemma to_url_char_pad: "to_url_char c = CHR ''='' \<longleftrightarrow> c = CHR ''=''"
  by (auto simp: to_url_char_def)

lemma to_url_char_dot: "n < 64 \<Longrightarrow> to_url_char (b64_char n) \<noteq> CHR ''.''"
  using b64_val_char[of n] by (auto simp: to_url_char_def b64_val_def Let_def split: if_splits)

lemma b64url_sextets: "b64url bytes = map (to_url_char \<circ> b64_char) (sextets bytes)"
proof -
  let ?p = "\<lambda>c. c = CHR ''=''" and ?u = "map (to_url_char \<circ> b64_char) (sextets bytes)"
  obtain k where k: "base64 bytes = map b64_char (sextets bytes) @ replicate k CHR ''=''"
    using base64_pads by blast
  have pads: "dropWhile ?p (replicate n CHR ''='' @ ys) = dropWhile ?p ys" for n ys by (induction n) simp_all
  have "dropWhile ?p (rev ?u) = rev ?u"
    using sextets_less[of bytes] by (cases "sextets bytes" rule: rev_cases) (auto simp: to_url_char_pad)
  moreover have "map to_url_char (base64 bytes) = ?u @ replicate k CHR ''=''" by (simp add: k to_url_char_def)
  ultimately have "dropWhile ?p (rev (map to_url_char (base64 bytes))) = rev ?u"
    using pads[of k "rev ?u"] by simp
  then show ?thesis by (simp add: b64url_def)
qed

lemma fromB64url_b64url [simp, codec]: "fromB64url (b64url bytes) = bytes"
proof -
  have "map from_url_char (b64url bytes) = map b64_char (sextets bytes) @ replicate 0 CHR ''=''"
    using sextets_less[of bytes] by (auto simp: b64url_sextets url_chars)
  then show ?thesis by (simp only: fromB64url_def base64_decode_sextets)
qed

lemma b64url_no_dot: "CHR ''.'' \<notin> set (b64url bytes)"
  using sextets_less[of bytes] by (fastforce simp: b64url_sextets dest: to_url_char_dot)

lemma b64url_Nil [simp]: "b64url bytes = [] \<longleftrightarrow> bytes = []"
  by (metis fromB64url_b64url b64url_sextets list.simps(8) sextets.simps(1))

section \<open>Reading a payload back\<close>

lemma skip_ws_head: "\<not> is_json_space c \<Longrightarrow> skip_ws (c # s) = c # s"
  by (simp add: skip_ws_def)

lemma plain_heads [simp]:
  "\<not> is_json_space (chr 34)" "\<not> is_json_space CHR '',''" "\<not> is_json_space CHR '':''" "\<not> is_json_space CHR ''}''"
  "\<not> is_json_space CHR ''{''" "\<not> is_json_space CHR ''n''" "\<not> is_json_space CHR ''-''"
  by (simp_all add: is_json_space_def)

lemma brace_not_quote [simp]: "CHR ''}'' \<noteq> chr 34"
  by (auto dest!: arg_cong[where f = octet])

lemma digit_not_json_space: "is_digit c \<Longrightarrow> \<not> is_json_space c"
  by (auto simp: is_digit_def is_json_space_def)

lemma parse_value_quote: "parse_value (Suc n) (quote s @ r) = Some (JStr s, r)"
  by (simp add: parse_value.simps quote_def skip_ws_head parse_string_quote)

lemma parse_value_null: "parse_value (Suc n) (''null'' @ r) = Some (JNull, r)"
  by (simp add: parse_value.simps skip_ws_head)

lemma parse_value_int:
  assumes "\<bar>i\<bar> \<le> 2 ^ 53" "c = CHR '','' \<or> c = CHR ''}''"
  shows "parse_value (Suc n) (show_int i @ c # r) = Some (JNum (of_int i), c # r)"
proof -
  have c: "\<not> is_digit c" "c \<notin> set ''.eE''" using assms(2) by (auto simp: is_digit_def)
  then have p: "parse_number (show_int i @ c # r) = Some (of_int i, c # r)"
    using assms(1) by (intro parse_number_int) simp_all
  obtain d t where d: "show_int i = d # t" "is_digit d \<or> d = CHR ''-''"
    using dec_digits[of "nat i"] by (cases "dec (nat i)"; cases "i < 0") (auto simp: show_int_def)
  then have "\<not> is_json_space d" "octet d \<noteq> 34" "d \<noteq> CHR ''[''" "d \<noteq> CHR ''{''" "d \<noteq> CHR ''t''" "d \<noteq> CHR ''f''" "d \<noteq> CHR ''n''"
    by (auto simp: digit_not_json_space) (auto simp: is_digit_def)
  then show ?thesis using p d(1) by (simp add: parse_value.simps skip_ws_head)
qed

lemma parse_members_quote:
  "parse_members (Suc n) acc (quote k @ CHR '':'' # t) =
     Option.bind (parse_value n t) (\<lambda>(v, r).
       if startsWith '','' (skip_ws r) then parse_members n (obj_set k v acc) (tl (skip_ws r))
       else if startsWith ''}'' (skip_ws r) then Some (obj_set k v acc, tl (skip_ws r))
       else None)"
  by (simp add: parse_members.simps quote_def skip_ws_head parse_string_quote)

lemma quote_head: "\<exists>t. quote s @ r = chr 34 # t"
  by (simp add: quote_def)

definition payload_json :: "session_payload \<Rightarrow> json" where
  "payload_json p =
     JObj [(''sub'', JStr (tk_sub p)),
           (''activeRoleId'', case tk_activeRoleId p of None \<Rightarrow> JNull | Some r \<Rightarrow> JStr r),
           (''iat'', JNum (of_int (tk_iat p))), (''exp'', JNum (of_int (tk_exp p)))]"

lemma parse_payload_text:
  assumes "\<bar>tk_iat p\<bar> \<le> 2 ^ 53" "\<bar>tk_exp p\<bar> \<le> 2 ^ 53"
  shows "parse_json (payload_text p) = Some (payload_json p)"
proof -
  let ?role = "case tk_activeRoleId p of None \<Rightarrow> ''null'' | Some r \<Rightarrow> quote r"
  let ?rv = "case tk_activeRoleId p of None \<Rightarrow> JNull | Some r \<Rightarrow> JStr r"
  let ?t4 = "quote ''exp'' @ CHR '':'' # show_int (tk_exp p) @ CHR ''}'' # []"
  let ?t3 = "quote ''iat'' @ CHR '':'' # show_int (tk_iat p) @ CHR '','' # ?t4"
  let ?t2 = "quote ''activeRoleId'' @ CHR '':'' # ?role @ CHR '','' # ?t3"
  let ?t1 = "quote ''sub'' @ CHR '':'' # quote (tk_sub p) @ CHR '','' # ?t2"
  have whole: "payload_text p = CHR ''{'' # ?t1" by (simp add: payload_text_def)
  have role: "parse_value (Suc n) (?role @ r) = Some (?rv, r)" for n r
    by (cases "tk_activeRoleId p") (simp_all only: option.case parse_value_null parse_value_quote)
  have m4: "parse_members (Suc (Suc n)) acc ?t4 = Some (obj_set ''exp'' (JNum (of_int (tk_exp p))) acc, [])" for n acc
    using parse_value_int[OF assms(2), of "CHR ''}''" n "[]"] by (simp add: parse_members_quote skip_ws_head)
  have m3: "parse_members (Suc (Suc (Suc n))) acc ?t3 =
      Some (obj_set ''exp'' (JNum (of_int (tk_exp p))) (obj_set ''iat'' (JNum (of_int (tk_iat p))) acc), [])" for n acc
    by (subst parse_members_quote) (use parse_value_int[OF assms(1), of "CHR '',''" "Suc n" ?t4] m4 in \<open>simp add: skip_ws_head\<close>)
  have m2: "parse_members (Suc (Suc (Suc (Suc n)))) acc ?t2 =
      Some (obj_set ''exp'' (JNum (of_int (tk_exp p))) (obj_set ''iat'' (JNum (of_int (tk_iat p))) (obj_set ''activeRoleId'' ?rv acc)), [])" for n acc
    by (subst parse_members_quote) (use role[of "Suc (Suc n)" "CHR '','' # ?t3"] m3 in \<open>simp add: skip_ws_head\<close>)
  have m1: "parse_members (Suc (Suc (Suc (Suc (Suc n))))) [] ?t1 = Some ([(''sub'', JStr (tk_sub p)), (''activeRoleId'', ?rv),
      (''iat'', JNum (of_int (tk_iat p))), (''exp'', JNum (of_int (tk_exp p)))], [])" for n
    by (subst parse_members_quote) (use parse_value_quote[of "Suc (Suc (Suc n))" "tk_sub p" "CHR '','' # ?t2"] m2 in \<open>simp add: skip_ws_head\<close>)
  have "6 \<le> length (payload_text p)" unfolding whole by (simp add: quote_def)
  then obtain n where n: "2 * length (payload_text p) + 2 = Suc (Suc (Suc (Suc (Suc (Suc n)))))"
    by (metis add_2_eq_Suc' add_Suc_right le_Suc_ex mult_2 numeral_eq_Suc add_Suc pred_numeral_simps)
  have ns: "\<not> startsWith ''}'' (skip_ws ?t1)" by (simp add: quote_def skip_ws_head)
  have "parse_value (Suc (Suc (Suc (Suc (Suc (Suc n)))))) (CHR ''{'' # ?t1) = Some (payload_json p, [])"
    using m1[of n] ns by (subst parse_value.simps) (simp add: skip_ws_head payload_json_def)
  then show ?thesis unfolding parse_json_def whole[symmetric] n by (simp add: skip_ws_def)
qed

text \<open>What the server signs is decoded to what it signed.\<close>

lemma wide_escape_role: "wide_escape ((case r of None \<Rightarrow> ''null'' | Some i \<Rightarrow> quote i) @ s) = wide_escape s"
  by (cases r) (simp_all add: wide_escape_plain wide_escape_quote)

lemma wide_escape_int: "wide_escape (show_int i @ s) = wide_escape s"
  using dec_digits[of "nat i"] dec_digits[of "nat (- i)"]
  by (auto simp: show_int_def wide_escape_plain wide_escape_digits list_all_iff)

lemma payload_not_wide: "\<not> wide_escape (payload_text p)"
  by (simp add: payload_text_def wide_escape_plain wide_escape_quote wide_escape_role wide_escape_int)

lemma decode_payload_text:
  assumes "\<bar>tk_iat p\<bar> \<le> 2 ^ 53" "\<bar>tk_exp p\<bar> \<le> 2 ^ 53"
  shows "decode_payload other (fromB64url (b64url (utf8 (payload_text p)))) = Some (payload_json p)"
  using parse_payload_text[OF assms] by (simp add: decode_payload_def payload_not_wide)

lemma check_payload_json:
  "check_payload (payload_json p) now =
     Inr (if tk_exp p \<le> now div 1000 then Token_Invalid Token_Expired else Token_Valid (payload_json p))"
  by (auto simp: check_payload_def payload_json_def property_of_def)

lemma caller_of_payload [simp]: "caller_of (payload_json p) = \<lparr>ca_userId = tk_sub p, ca_activeRoleId = tk_activeRoleId p\<rparr>"
  by (simp add: caller_of_def payload_json_def property_of_def split: option.splits)

lemma payload_text_nonempty: "utf8 (payload_text p) \<noteq> []"
  by (simp add: payload_text_def utf8_def utf8_char_def)

text \<open>Verification accepts nothing whose second part is not the signature of its first.\<close>

lemma split_on_one: "split_on d s = [a] \<Longrightarrow> s = a"
  by (induction s arbitrary: a) (auto split: if_splits list.splits)

lemma split_on_two: "split_on d s = [a, b] \<Longrightarrow> s = a @ d # b"
  by (induction s arbitrary: a) (auto split: if_splits list.splits dest: split_on_one)

lemma check_payload_Valid:
  "check_payload pl now = Inr (Token_Valid payload) \<longleftrightarrow>
     pl = payload \<and> (\<exists>s e. property_of pl ''sub'' = Inr (Some (JStr s)) \<and> property_of pl ''exp'' = Inr (Some (JNum e)) \<and>
       of_int (now div 1000) < e)"
proof (cases "\<exists>s e. property_of pl ''sub'' = Inr (Some (JStr s)) \<and> property_of pl ''exp'' = Inr (Some (JNum e))")
  case True
  then show ?thesis by (auto simp: check_payload_def split: if_splits)
next
  case False
  have "sum_bind a (\<lambda>sub. sum_bind b (\<lambda>ex. case (sub, ex) of (Some (JStr _), Some (JNum e)) \<Rightarrow>
        Inr (if e \<le> of_int (now div 1000) then Token_Invalid Token_Expired else Token_Valid pl)
      | _ \<Rightarrow> Inr (Token_Invalid Malformed))) \<noteq> Inr (Token_Valid payload)"
    if none: "\<nexists>s e. a = Inr (Some (JStr s)) \<and> b = Inr (Some (JNum e))" for a b
    using none by (cases a; cases b) (auto split: option.split json.split)
  then show ?thesis using False unfolding check_payload_def by blast
qed

lemma startsWith_drop: "startsWith p s \<Longrightarrow> s = p @ drop (length p) s"
  by (metis append_take_drop_id startsWith_def)

lemma verifySessionToken_Valid:
  assumes v: "verifySessionToken hmac other token secret now = Inr (Token_Valid payload)"
  shows "\<exists>part. token = part @ ''.'' @ sign hmac part secret \<and> secret \<noteq> [] \<and>
     decode_payload other (fromB64url part) = Some payload \<and> check_payload payload now = Inr (Token_Valid payload)"
proof -
  have secret: "secret \<noteq> []" using v by (auto simp: verifySessionToken_def)
  obtain part sig where parts: "split_on CHR ''.'' token = [part, sig]"
    using v by (auto simp: verifySessionToken_def secret split: list.splits)
  have sig: "utf8 (sign hmac part secret) = utf8 sig"
    and pl: "(case decode_payload other (fromB64url part) of None \<Rightarrow> Inr (Token_Invalid Malformed)
        | Some payload \<Rightarrow> check_payload payload now) = Inr (Token_Valid payload)"
    using v by (auto simp: verifySessionToken_def secret parts Let_def split: if_splits)
  obtain p where p: "decode_payload other (fromB64url part) = Some p" "check_payload p now = Inr (Token_Valid payload)"
    using pl by (cases "decode_payload other (fromB64url part)") auto
  show ?thesis
    using split_on_two[OF parts] sig p secret by (auto simp: utf8_inj check_payload_Valid)
qed

lemma verify_issued:
  assumes "issueSessionToken hmac userId role secret now = Inr token" and "\<bar>now\<bar> \<le> MAX_TIME"
    and "\<And>k m. length (hmac k m) = 32"
  shows "secret \<noteq> [] \<and> verifySessionToken hmac other token secret later =
     Inr (if now div 1000 + SESSION_TTL_SECONDS \<le> later div 1000 then Token_Invalid Token_Expired
          else Token_Valid (payload_json (payload_at userId role now)))"
proof -
  let ?p = "payload_at userId role now" and ?part = "b64url (utf8 (payload_text (payload_at userId role now)))"
  have secret: "secret \<noteq> []" and token: "token = ?part @ CHR ''.'' # sign hmac ?part secret"
    using assms(1) by (auto simp: issueSessionToken_def Let_def split: if_splits)
  have "- 8640000000000000 \<le> now" "now \<le> 8640000000000000" using assms(2) by (simp_all add: MAX_TIME_def)
  then have "- 8640000000000 \<le> now div 1000" "now div 1000 \<le> 8640000000000" by linarith+
  then have small: "\<bar>tk_iat ?p\<bar> \<le> 2 ^ 53" "\<bar>tk_exp ?p\<bar> \<le> 2 ^ 53"
    by (simp_all add: payload_at_def SESSION_TTL_SECONDS_def abs_le_iff)
  have parts: "split_on CHR ''.'' token = [?part, sign hmac ?part secret]"
    unfolding token using b64url_no_dot by (simp add: split_on_append split_on_no_sep sign_def)
  have ne: "?part \<noteq> []" "sign hmac ?part secret \<noteq> []"
    using payload_text_nonempty assms(3)[of "utf8 secret" "utf8 ?part"] by (auto simp: sign_def)
  have "verifySessionToken hmac other token secret later = check_payload (payload_json ?p) later"
    using secret ne decode_payload_text[OF small] by (simp add: verifySessionToken_def parts Let_def)
  then show ?thesis using secret by (simp add: check_payload_json payload_at_def)
qed

section \<open>Properties\<close>

text \<open>
  C24. A session survives the trip: the guard reads from a token issued for a user and a role,
  sent as a bearer token, exactly that user and that role, for any texts of user and role, from
  then on until thirty days have passed, and refuses it afterwards.
\<close>

theorem session_roundtrip:
  assumes "issueSessionToken hmac userId role secret now = Inr token" and "\<bar>now\<bar> \<le> MAX_TIME"
    and "\<And>k m. length (hmac k m) = 32"
  shows "canActivate hmac other False (Some (''Bearer '' @ token)) (Some secret) later =
     (if later div 1000 < now div 1000 + 2592000
      then Inr (Some \<lparr>ca_userId = userId, ca_activeRoleId = role\<rparr>)
      else Inl (UnauthorizedException ''error.auth.invalid_token''))"
  using verify_issued[OF assms, of other later]
  by (auto simp: canActivate_def payload_at_def SESSION_TTL_SECONDS_def startsWith_def)

theorem session_roundtrip_witness:
  "\<exists>token. issueSessionToken pad_hmac ''user-1'' (Some ''role-1'') ''secret'' 5000 = Inr token \<and>
     canActivate pad_hmac Map.empty False (Some (''Bearer '' @ token)) (Some ''secret'') 9000 =
       Inr (Some \<lparr>ca_userId = ''user-1'', ca_activeRoleId = Some ''role-1''\<rparr>)"
proof -
  obtain token where t: "issueSessionToken pad_hmac ''user-1'' (Some ''role-1'') ''secret'' 5000 = Inr token"
    by (simp add: issueSessionToken_def Let_def)
  show ?thesis
    using t session_roundtrip[OF t, of Map.empty 9000] by (simp add: MAX_TIME_def)
qed

text \<open>
  C25. No session without the secret's signature: whenever the guard lets a request through on a
  route that is not public, the request carries a bearer token whose second part is the
  signature, under the configured secret, of exactly its first part, the caller is the one that
  first part encodes, and the expiry in it has not passed.
\<close>

theorem guard_requires_signature:
  assumes "canActivate hmac other False header secret now = Inr result"
  shows "\<exists>key part payload e. secret = Some key \<and> key \<noteq> [] \<and>
     header = Some (''Bearer '' @ part @ ''.'' @ sign hmac part key) \<and>
     decode_payload other (fromB64url part) = Some payload \<and> result = Some (caller_of payload) \<and>
     property_of payload ''exp'' = Inr (Some (JNum e)) \<and> of_int (now div 1000) < e"
proof -
  obtain h key payload where h: "header = Some h" "startsWith ''Bearer '' h" "secret = Some key" "key \<noteq> []"
      and v: "verifySessionToken hmac other (drop 7 h) key now = Inr (Token_Valid payload)"
      and r: "result = Some (caller_of payload)"
    using assms
    by (auto simp: canActivate_def sum_bind_def split: option.splits if_splits token_verification.splits sum.splits)
  obtain part where part: "drop 7 h = part @ ''.'' @ sign hmac part key" "decode_payload other (fromB64url part) = Some payload"
      "check_payload payload now = Inr (Token_Valid payload)"
    using verifySessionToken_Valid[OF v] by blast
  have "length ''Bearer '' = 7" by simp
  then have "h = ''Bearer '' @ drop 7 h" using startsWith_drop[OF h(2)] by (simp only:)
  moreover obtain e where "property_of payload ''exp'' = Inr (Some (JNum e))" "of_int (now div 1000) < e"
    using part(3) by (auto simp: check_payload_Valid)
  ultimately show ?thesis using h part r by metis
qed

theorem guard_requires_signature_witness:
  "\<exists>h key part payload e. Some ''secret'' = Some key \<and> key \<noteq> [] \<and>
     Some h = Some (''Bearer '' @ part @ ''.'' @ sign pad_hmac part key) \<and>
     decode_payload Map.empty (fromB64url part) = Some payload \<and>
     Some \<lparr>ca_userId = ''user-1'', ca_activeRoleId = None\<rparr> = Some (caller_of payload) \<and>
     property_of payload ''exp'' = Inr (Some (JNum e)) \<and> of_int (9000 div 1000) < e"
proof -
  obtain token where t: "issueSessionToken pad_hmac ''user-1'' None ''secret'' 5000 = Inr token"
    by (simp add: issueSessionToken_def Let_def)
  have "canActivate pad_hmac Map.empty False (Some (''Bearer '' @ token)) (Some ''secret'') 9000 =
      Inr (Some \<lparr>ca_userId = ''user-1'', ca_activeRoleId = None\<rparr>)"
    using verify_issued[OF t, of Map.empty 9000]
    by (simp add: canActivate_def MAX_TIME_def payload_at_def SESSION_TTL_SECONDS_def startsWith_def)
  then show ?thesis by (rule exI[of _ "''Bearer '' @ token", OF guard_requires_signature])
qed

end
