(* ===== verification/Auth.thy ===== *)
theory Auth
  imports RateLimit Otp Session UserRepo Notification
begin

text \<open>
  \<open>identity/auth.service.ts\<close>: login by one-time password and role switching. The service's
  constructor arguments are the parameters: the Redis client \<open>R\<close> (for the rate limiter and the
  OTP store), the notification port \<open>notify\<close>, the transaction boundary and the user repository
  of the model, and the two configured secrets.
\<close>

section \<open>Results\<close>

datatype request_otp_result = Otp_Sent int | Otp_Invalid_Phone | Otp_Rate_Limited int

datatype verify_otp_result =
    Authenticated string string   \<comment> \<open>token, user\<close>
  | Rejected_Otp otp_reason
  | Verify_Invalid_Phone
  | Verify_Rate_Limited int

datatype switch_role_result = Switched string role_type | Role_Not_Found

section \<open>Operations\<close>

definition configured :: "string \<Rightarrow> string option \<Rightarrow> err + string" where
  "configured message secret =
     (case secret of None \<Rightarrow> Inl (PlainError message) | Some s \<Rightarrow> if s = [] then Inl (PlainError message) else Inr s)"

definition otpSecret :: "string option \<Rightarrow> err + string" where
  "otpSecret = configured ''OTP_SECRET is not configured''"

definition sessionSecret :: "string option \<Rightarrow> err + string" where
  "sessionSecret = configured ''SESSION_SECRET is not configured''"

text \<open>The request for the SMS, keyed by phone and minute.\<close>

definition otp_request :: "string \<Rightarrow> string \<Rightarrow> string \<Rightarrow> int \<Rightarrow> notification_request" where
  "otp_request userId phone otp now =
     \<lparr>rq_userId = userId, rq_event = ''otp'', rq_params = [(''code'', otp)], rq_orderId = None,
      rq_dedupeKey = ''otp:'' @ phone @ '':'' @ show_int (now div 60000)\<rparr>"

definition otp_work :: "(notification_request \<Rightarrow> unit sql) \<Rightarrow> string \<Rightarrow> string \<Rightarrow> int \<Rightarrow> string sql" where
  "otp_work notify phone otp now =
     stmt_bind (findOrCreateByPhone phone) (\<lambda>i.
     stmt_bind (notify (otp_request i phone otp now)) (\<lambda>_. stmt_return i))"

text \<open>Issue, store, and queue the message; \<open>draw\<close> is the number \<open>randomInt\<close> draws.\<close>

definition issueAndSend ::
  "'r redis_client \<Rightarrow> (string \<Rightarrow> string \<Rightarrow> string) \<Rightarrow> (notification_request \<Rightarrow> unit sql) \<Rightarrow> string option \<Rightarrow> nat \<Rightarrow>
   string \<Rightarrow> (('r, 'z) redis_world_scheme, string) act" where
  "issueAndSend R hmac notify secret draw phone =
     act_bind (act_lift (otpSecret secret)) (\<lambda>key w.
     act_bind (act_lift (issueOtp hmac draw key (clock w))) (\<lambda>issued.
     act_bind (save R phone (is_challenge issued)) (\<lambda>_.
       transact (otp_work notify phone (is_code issued) (clock w)))) w)"

definition requestOtp ::
  "'r redis_client \<Rightarrow> (string \<Rightarrow> string \<Rightarrow> string) \<Rightarrow> (notification_request \<Rightarrow> unit sql) \<Rightarrow> string option \<Rightarrow> nat \<Rightarrow>
   string \<Rightarrow> (('r, 'z) redis_world_scheme, request_otp_result) act" where
  "requestOtp R hmac notify secret draw rawPhone =
     (case normaliseBdPhone rawPhone of
        None \<Rightarrow> act_return Otp_Invalid_Phone
      | Some phone \<Rightarrow>
          act_bind (hit R (''otp:request:'' @ phone) (rp_limit otpRequest_policy) (rp_windowSeconds otpRequest_policy)) (\<lambda>decision.
            if \<not> rl_allowed decision then act_return (Otp_Rate_Limited (rl_resetSeconds decision))
            else act_bind (issueAndSend R hmac notify secret draw phone) (\<lambda>_.
                   act_return (Otp_Sent (rl_resetSeconds decision)))))"

text \<open>After a successful comparison: consume, find the user, mint the token.\<close>

definition completeLogin ::
  "'r redis_client \<Rightarrow> (string \<Rightarrow> string \<Rightarrow> string) \<Rightarrow> string option \<Rightarrow> string \<Rightarrow>
   (('r, 'z) redis_world_scheme, verify_otp_result) act" where
  "completeLogin R hmac sessionKey phone =
     act_bind (consume R phone) (\<lambda>_.
     act_bind (transact (findByPhone phone)) (\<lambda>user.
       case user of
         None \<Rightarrow> act_return (Rejected_Otp Invalid)
       | Some u \<Rightarrow>
           act_bind (act_lift (sessionSecret sessionKey)) (\<lambda>key w.
           act_bind (act_lift (issueSessionToken hmac (u_id u) None key (clock w))) (\<lambda>token.
             act_return (Authenticated token (u_id u))) w)))"

text \<open>The comparison, and what follows a failed one.\<close>

definition checkCode ::
  "'r redis_client \<Rightarrow> (string \<Rightarrow> string \<Rightarrow> string) \<Rightarrow> string option \<Rightarrow> string option \<Rightarrow> string \<Rightarrow> string \<Rightarrow>
   (('r, 'z) redis_world_scheme, verify_otp_result) act" where
  "checkCode R hmac secret sessionKey phone submitted =
     act_bind (load R phone) (\<lambda>challenge.
     act_bind (act_lift (otpSecret secret)) (\<lambda>key w.
     act_bind (act_lift (verifyOtp hmac challenge submitted key (clock w))) (\<lambda>outcome.
       case outcome of
         Refused reason \<Rightarrow>
           act_bind (case challenge of None \<Rightarrow> act_return () | Some ch \<Rightarrow> recordAttempt R phone ch) (\<lambda>_.
             act_return (Rejected_Otp reason))
       | Ok_Outcome \<Rightarrow> completeLogin R hmac sessionKey phone) w))"

definition verifyOtp_svc ::
  "'r redis_client \<Rightarrow> (string \<Rightarrow> string \<Rightarrow> string) \<Rightarrow> string option \<Rightarrow> string option \<Rightarrow> string \<Rightarrow> string \<Rightarrow>
   (('r, 'z) redis_world_scheme, verify_otp_result) act" where
  "verifyOtp_svc R hmac secret sessionKey rawPhone submitted =
     (case normaliseBdPhone rawPhone of
        None \<Rightarrow> act_return Verify_Invalid_Phone
      | Some phone \<Rightarrow>
          act_bind (hit R (''otp:verify:'' @ phone) (rp_limit otpVerify_policy) (rp_windowSeconds otpVerify_policy)) (\<lambda>decision.
            if \<not> rl_allowed decision then act_return (Verify_Rate_Limited (rl_resetSeconds decision))
            else checkCode R hmac secret sessionKey phone submitted))"

definition listRoles :: "string \<Rightarrow> ('z world_scheme, active_role list) act" where
  "listRoles userId = transact (findRoles userId)"

definition switchRole ::
  "(string \<Rightarrow> string \<Rightarrow> string) \<Rightarrow> string option \<Rightarrow> string \<Rightarrow> string \<Rightarrow> ('z world_scheme, switch_role_result) act" where
  "switchRole hmac sessionKey userId roleId =
     act_bind (transact (findRoles userId)) (\<lambda>held.
       case find (\<lambda>r. ar_id r = roleId) held of
         None \<Rightarrow> act_return Role_Not_Found
       | Some role \<Rightarrow>
           act_bind (act_lift (sessionSecret sessionKey)) (\<lambda>key w.
           act_bind (act_lift (issueSessionToken hmac userId (Some (ar_id role)) key (clock w))) (\<lambda>token.
             act_return (Switched token (ar_type role))) w))"

section \<open>Keys\<close>

lemma keys_disjoint [simp]: "otp_key phone \<noteq> ''ratelimit:'' @ k" "''ratelimit:'' @ k \<noteq> otp_key phone"
  by (simp_all add: otp_key_def)

text \<open>The limiter leaves the challenges alone, and the transaction leaves Redis alone.\<close>

lemma hit_keeps_challenge:
  assumes laws: "redis_laws R view" and free: "counter_key (clock w) view (rw_redis w) key"
    and h: "hit R key limit window w = (r, w')"
  shows "live (clock w) (view (rw_redis w')) (otp_key phone) = live (clock w) (view (rw_redis w)) (otp_key phone) \<and>
     clock w' = clock w \<and> committed w' = committed w \<and> inflight w' = inflight w"
proof -
  let ?m = "live (clock w) (view (rw_redis w))" and ?cs = "hit_commands key window"
  obtain q s' where run: "rc_multi R ?cs (clock w) (rw_redis w) = (q, s')" by (meson surj_pair)
  note free' = free[unfolded hit_counters[of _ _ _ _ window]]
  have "\<forall>c\<in>set ?cs. command_key c \<noteq> otp_key phone" by (simp add: hit_commands_def del: append.simps)
  then have other: "snd (run_commands (clock w) ?cs ?m) (otp_key phone) = ?m (otp_key phone)" by (rule run_commands_other)
  have "live (clock w) (view s') = ?m \<or> live (clock w) (view s') = live (clock w) (snd (run_commands (clock w) ?cs ?m))"
    using redis_multi(2)[OF laws _ free'] redis_multi_failed[OF laws _ free'] run by (cases q) auto
  then have "live (clock w) (view s') (otp_key phone) = ?m (otp_key phone)"
    using live_at[of "snd (run_commands (clock w) ?cs ?m)" "otp_key phone" ?m "clock w", OF other] by auto
  moreover have "w' = w\<lparr>rw_redis := s'\<rparr>"
    using h run by (auto simp: hit_multi on_redis_def split: sum.splits)
  ultimately show ?thesis by simp
qed

lemma transact_redis:
  assumes "transact (m :: 'a sql) (w :: ('r, 'z) redis_world_scheme) = (r, w')"
  shows "rw_redis w' = rw_redis w \<and> clock w' = clock w"
  using assms
  by (auto simp: transact_def withTransaction_def in_tx_def rollback_def commit_def drop_fault_def Let_def
      split: option.splits tx_fault.splits sum.splits if_splits prod.splits)

section \<open>What a check of a code does to the challenge\<close>

text \<open>The entry after a failed attempt: one more attempt and the remaining whole seconds, if any.\<close>

definition recorded :: "int \<Rightarrow> (redis_value \<times> int option) option \<Rightarrow> (redis_value \<times> int option) option" where
  "recorded now y =
     (case y of
        Some (Stored ch, Some e) \<Rightarrow>
          let ttl = (e - now + 500) div 1000 in
          if ttl \<le> 0 then y else Some (Stored (ch\<lparr>ch_attempts := ch_attempts ch + 1\<rparr>), Some (now + 1000 * ttl))
      | _ \<Rightarrow> y)"

lemma on_redis_iff:
  "on_redis c w = (r, w') \<longleftrightarrow> (\<exists>s. c (clock w) (rw_redis w) = (r, s) \<and> w' = w\<lparr>rw_redis := s\<rparr>)"
  by (auto simp: on_redis_def split: prod.splits)

lemma load_effect:
  assumes laws: "redis_laws R view" "reliable R" and l: "load R phone w = (r, w')"
  shows "live (clock w) (view (rw_redis w')) = live (clock w) (view (rw_redis w)) \<and> clock w' = clock w \<and>
    (case live (clock w) (view (rw_redis w)) (otp_key phone) of
       None \<Rightarrow> r = Inr None | Some (Stored ch, e) \<Rightarrow> r = Inr (Some ch) | Some (Counter c, e) \<Rightarrow> r = Inl TypeError)"
proof -
  obtain a s where g: "rc_get R (otp_key phone) (clock w) (rw_redis w) = (Inr a, s)"
    using laws(2) unfolding reliable_def by metis
  have "on_redis (rc_get R (otp_key phone)) w = (Inr a, w\<lparr>rw_redis := s\<rparr>)" using g by (simp add: on_redis_iff)
  then have "(r, w') = (case a of None \<Rightarrow> (Inr None, w\<lparr>rw_redis := s\<rparr>) | Some (Stored ch) \<Rightarrow> (Inr (Some ch), w\<lparr>rw_redis := s\<rparr>)
      | Some (Counter c) \<Rightarrow> (Inl TypeError, w\<lparr>rw_redis := s\<rparr>))"
    using l by (auto simp: load_def split: option.splits redis_value.splits)
  then show ?thesis
    using redis_get[OF laws(1) g] by (auto split: option.splits redis_value.splits)
qed

lemma consume_effect:
  assumes laws: "redis_laws R view" "reliable R" and c: "consume R phone w = (r, w')"
  shows "r = Inr () \<and> live (clock w) (view (rw_redis w')) = (live (clock w) (view (rw_redis w)))(otp_key phone := None) \<and>
    clock w' = clock w"
proof -
  obtain s where g: "rc_del R (otp_key phone) (clock w) (rw_redis w) = (Inr (), s)"
    using laws(2) unfolding reliable_def by (metis old.unit.exhaust)
  then show ?thesis using c redis_del[OF laws(1) g] by (simp add: consume_def on_redis_iff)
qed

text \<open>
  Recording overwrites whatever is stored with the challenge that was loaded, plus one attempt.
\<close>

lemma recordAttempt_over:
  assumes laws: "redis_laws R view" "reliable R"
    and y: "live (clock w) (view (rw_redis w)) (otp_key phone) = Some (v, e)"
    and c: "recordAttempt R phone ch w = (Inr u, w')"
  shows "live (clock w) (view (rw_redis w')) =
      (live (clock w) (view (rw_redis w)))(otp_key phone :=
        (let ttl = (case e of None \<Rightarrow> -1 | Some e \<Rightarrow> (e - clock w + 500) div 1000) in
         if ttl \<le> 0 then Some (v, e)
         else Some (Stored (ch\<lparr>ch_attempts := ch_attempts ch + 1\<rparr>), Some (clock w + 1000 * ttl)))) \<and> clock w' = clock w"
proof -
  obtain a s where g: "rc_ttl R (otp_key phone) (clock w) (rw_redis w) = (Inr a, s)"
    using laws(2) unfolding reliable_def by metis
  note t = redis_ttl[OF laws(1) g]
  have a: "a = (case e of None \<Rightarrow> -1 | Some e \<Rightarrow> (e - clock w + 500) div 1000)" using t(1) y by (simp add: ttl_of_def)
  let ?w1 = "w\<lparr>rw_redis := s\<rparr>"
  have o: "on_redis (rc_ttl R (otp_key phone)) w = (Inr a, ?w1)" using g by (simp add: on_redis_iff)
  show ?thesis
    unfolding Let_def a[symmetric]
  proof (cases "a \<le> 0")
    case True
    then show "live (clock w) (view (rw_redis w')) = (live (clock w) (view (rw_redis w)))(otp_key phone :=
        (if a \<le> 0 then Some (v, e) else Some (Stored (ch\<lparr>ch_attempts := ch_attempts ch + 1\<rparr>), Some (clock w + 1000 * a)))) \<and>
        clock w' = clock w"
      using c o t(2) y by (auto simp: recordAttempt_def)
  next
    case False
    let ?ch = "ch\<lparr>ch_attempts := ch_attempts ch + 1\<rparr>"
    obtain s2 where g2: "rc_set R (otp_key phone) (Stored ?ch) a (clock w) s = (Inr (), s2)"
      using laws(2) unfolding reliable_def by (metis old.unit.exhaust)
    have "w' = w\<lparr>rw_redis := s2\<rparr>"
      using c o False g2
      by (auto simp: recordAttempt_def stored_of_def act_bind_Inr_iff on_redis_iff split: option.splits)
    then show "live (clock w) (view (rw_redis w')) = (live (clock w) (view (rw_redis w)))(otp_key phone :=
        (if a \<le> 0 then Some (v, e) else Some (Stored (ch\<lparr>ch_attempts := ch_attempts ch + 1\<rparr>), Some (clock w + 1000 * a)))) \<and>
        clock w' = clock w"
      using redis_set[OF laws(1) g2] False t(2) by simp
  qed
qed

lemma recordAttempt_effect:
  assumes laws: "redis_laws R view" "reliable R"
    and y: "live (clock w) (view (rw_redis w)) (otp_key phone) = Some (Stored ch, e)"
    and c: "recordAttempt R phone ch w = (Inr u, w')"
  shows "live (clock w) (view (rw_redis w')) =
      (live (clock w) (view (rw_redis w)))(otp_key phone := recorded (clock w) (Some (Stored ch, e))) \<and> clock w' = clock w"
  using recordAttempt_over[OF laws y c] by (cases e) (simp_all add: recorded_def Let_def)

lemma recordAttempt_failed:
  assumes laws: "redis_laws R view" "reliable R" and c: "recordAttempt R phone ch w = (Inl x, w')"
  shows "live (clock w) (view (rw_redis w')) = live (clock w) (view (rw_redis w)) \<and> clock w' = clock w"
proof -
  obtain a s where g: "rc_ttl R (otp_key phone) (clock w) (rw_redis w) = (Inr a, s)"
    using laws(2) unfolding reliable_def by metis
  have o: "on_redis (rc_ttl R (otp_key phone)) w = (Inr a, w\<lparr>rw_redis := s\<rparr>)" using g by (simp add: on_redis_iff)
  have no: "rc_set R k v ex (clock w) s = (Inl x, s2) \<Longrightarrow> False" for k v ex s2
    using laws(2) unfolding reliable_def by (metis Inl_Inr_False Pair_inject)
  have "w' = w\<lparr>rw_redis := s\<rparr>"
    using c o no g
    by (auto simp: recordAttempt_def stored_of_def act_bind_Inl_iff on_redis_iff split: option.splits if_splits)
  then show ?thesis using redis_ttl(2)[OF laws(1) g] by simp
qed

lemma completeLogin_effect:
  assumes laws: "redis_laws R view" "reliable R" and c: "completeLogin R hmac sessionKey phone w = (r, w')"
  shows "live (clock w) (view (rw_redis w')) = (live (clock w) (view (rw_redis w)))(otp_key phone := None) \<and> clock w' = clock w"
proof -
  obtain q w1 where q: "consume R phone w = (q, w1)" by (cases "consume R phone w")
  note e = consume_effect[OF laws q]
  obtain t w2 where t: "transact (findByPhone phone) w1 = (t, w2)" by (cases "transact (findByPhone phone) w1")
  have "w' = w2"
    using c q t e
    by (cases t) (auto simp: completeLogin_def act_bind_def split: option.splits sum.splits prod.splits)
  then show ?thesis using e transact_redis[OF t] by simp
qed

text \<open>
  The entry of the phone changes in one of three ways: a refusal records an attempt, a match
  consumes the challenge, and an exception before the comparison changes nothing. Only a
  challenge with fewer than five attempts can match.
\<close>

lemma refusal_effect:
  assumes laws: "redis_laws R view" "reliable R"
    and q: "(case ch of None \<Rightarrow> live (clock w) (view (rw_redis w)) (otp_key phone) = None
             | Some c \<Rightarrow> \<exists>e. live (clock w) (view (rw_redis w)) (otp_key phone) = Some (Stored c, e))"
    and c: "act_bind (case ch of None \<Rightarrow> act_return () | Some c \<Rightarrow> recordAttempt R phone c)
             (\<lambda>_. act_return (Rejected_Otp reason)) w = (r, w')"
  shows "clock w' = clock w \<and>
    (r = Inr (Rejected_Otp reason) \<and> live (clock w) (view (rw_redis w')) =
       (live (clock w) (view (rw_redis w)))(otp_key phone := recorded (clock w) (live (clock w) (view (rw_redis w)) (otp_key phone))) \<or>
     (\<exists>e. r = Inl e) \<and> live (clock w) (view (rw_redis w')) = live (clock w) (view (rw_redis w)))"
proof (cases ch)
  case None
  then show ?thesis using c q by (auto simp: recorded_def fun_upd_idem)
next
  case (Some c')
  then obtain e where y: "live (clock w) (view (rw_redis w)) (otp_key phone) = Some (Stored c', e)" using q by auto
  obtain u w2 where u: "recordAttempt R phone c' w = (u, w2)" by (cases "recordAttempt R phone c' w")
  show ?thesis
  proof (cases u)
    case (Inl x)
    then show ?thesis using c Some u recordAttempt_failed[OF laws u[unfolded Inl]] by auto
  next
    case (Inr v)
    then show ?thesis using c Some u recordAttempt_effect[OF laws y u[unfolded Inr]] y by auto
  qed
qed

lemma checkCode_effect:
  assumes laws: "redis_laws R view" "reliable R"
    and c: "checkCode R hmac secret sessionKey phone submitted w = (r, w')"
  shows "\<exists>x. live (clock w) (view (rw_redis w')) = (live (clock w) (view (rw_redis w)))(otp_key phone := x) \<and> clock w' = clock w \<and>
     ((\<exists>reason. r = Inr (Rejected_Otp reason)) \<and> x = recorded (clock w) (live (clock w) (view (rw_redis w)) (otp_key phone)) \<or>
      (\<exists>ch e. live (clock w) (view (rw_redis w)) (otp_key phone) = Some (Stored ch, e) \<and> ch_attempts ch < 5) \<and> x = None \<or>
      (\<exists>e. r = Inl e) \<and> x = live (clock w) (view (rw_redis w)) (otp_key phone))"
proof -
  let ?m = "live (clock w) (view (rw_redis w))" and ?k = "otp_key phone"
  have same: "?m = ?m(?k := ?m ?k)" by simp
  obtain q w1 where q: "load R phone w = (q, w1)" by (cases "load R phone w")
  note l = load_effect[OF laws q]
  then have m1: "live (clock w1) (view (rw_redis w1)) = ?m" "clock w1 = clock w" by simp_all
  show ?thesis
  proof (cases "\<exists>challenge key. q = Inr challenge \<and> otpSecret secret = Inr key")
    case False
    then have "(\<exists>e. r = Inl e) \<and> w' = w1"
      using c q by (cases q; cases "otpSecret secret") (auto simp: checkCode_def)
    then show ?thesis using m1 same by (intro exI[of _ "?m ?k"]) simp
  next
    case True
    then obtain challenge key where Inr: "q = Inr challenge" and key: "otpSecret secret = Inr key" by blast
    have ne: "key \<noteq> []" using key by (auto simp: otpSecret_def configured_def split: option.splits if_splits)
    obtain outcome where o: "verifyOtp hmac challenge submitted key (clock w1) = Inr outcome"
      by (blast intro: verifyOtp_cases[OF ne])
    have y: "case challenge of None \<Rightarrow> ?m ?k = None | Some ch \<Rightarrow> \<exists>e. ?m ?k = Some (Stored ch, e)"
      using l Inr by (auto split: option.splits redis_value.splits)
    show ?thesis
    proof (cases outcome)
      case Ok_Outcome
      then have run: "completeLogin R hmac sessionKey phone w1 = (r, w')"
        using c q Inr key o by (simp add: checkCode_def)
      obtain ch where ch: "challenge = Some ch" "ch_attempts ch < 5"
        using o Ok_Outcome by (auto simp: verifyOtp_cases[OF ne] split: option.splits if_splits)
      obtain e where "?m ?k = Some (Stored ch, e)" using y ch by auto
      then show ?thesis
        using completeLogin_effect[OF laws run] m1 ch(2) by (intro exI[of _ None]) simp
    next
      case (Refused reason)
      then have run: "act_bind (case challenge of None \<Rightarrow> act_return () | Some c \<Rightarrow> recordAttempt R phone c)
          (\<lambda>_. act_return (Rejected_Otp reason)) w1 = (r, w')"
        using c q Inr key o by (simp add: checkCode_def)
      have y1: "(case challenge of None \<Rightarrow> live (clock w1) (view (rw_redis w1)) ?k = None
           | Some c \<Rightarrow> \<exists>e. live (clock w1) (view (rw_redis w1)) ?k = Some (Stored c, e))"
        using y m1 by (cases challenge) simp_all
      from refusal_effect[OF laws y1 run] show ?thesis
      proof (elim conjE disjE exE)
        assume "r = Inr (Rejected_Otp reason)" "clock w' = clock w1"
          "live (clock w1) (view (rw_redis w')) = (live (clock w1) (view (rw_redis w1)))(?k :=
             recorded (clock w1) (live (clock w1) (view (rw_redis w1)) ?k))"
        then show ?thesis using m1 by (intro exI[of _ "recorded (clock w) (?m ?k)"]) simp
      next
        fix e assume "r = Inl e" "clock w' = clock w1"
          "live (clock w1) (view (rw_redis w')) = live (clock w1) (view (rw_redis w1))"
        then show ?thesis using m1 same by (intro exI[of _ "?m ?k"]) simp
      qed
    qed
  qed
qed

end
