(* ===== verification/Onboarding.thy ===== *)
theory Onboarding
  imports UserRepo JsString Merchant
begin

text \<open>
  \<open>identity/domain/nid.ts\<close>, \<open>identity/kyc.service.ts\<close> and
  \<open>identity/merchant-onboarding.service.ts\<close>: how a user becomes a merchant and submits a
  National ID for verification.
\<close>

section \<open>National ID numbers\<close>

definition VALID_LENGTHS :: "nat list" where
  "VALID_LENGTHS = [10, 13, 17]"

definition normaliseNidNumber :: "string \<Rightarrow> string option" where
  "normaliseNidNumber input =
     (let digits = filter (\<lambda>c. \<not> (is_space c \<or> c = CHR ''-'')) input in
      if \<not> (digits \<noteq> [] \<and> list_all is_digit digits) then None
      else if length digits \<notin> set VALID_LENGTHS then None
      else Some digits)"

section \<open>KYC submission\<close>

record submit_kyc_command =
  ky_userId :: string
  ky_activeRoleId :: "string option"
  ky_nidNumber :: string
  ky_documentUrls :: "string list"

text \<open>The work of the transaction: the role must be held, active and not verified.\<close>

definition kyc_work :: "submit_kyc_command \<Rightarrow> string \<Rightarrow> string \<Rightarrow> unit sql" where
  "kyc_work command activeRoleId nidNumber =
     stmt_bind (findRoles (ky_userId command)) (\<lambda>held.
     case find (\<lambda>r. ar_id r = activeRoleId) held of
       None \<Rightarrow> stmt_throw (BadRequestException ''error.kyc.role_not_found'')
     | Some role \<Rightarrow>
         if ar_kycVerified role then stmt_throw (ConflictException ''error.kyc.already_verified'')
         else submitKyc (ky_userId command) (ar_id role) nidNumber (ky_documentUrls command))"

text \<open>The answer is the constant status \<open>pending\<close>.\<close>

definition submit :: "submit_kyc_command \<Rightarrow> ('z world_scheme, unit) act" where
  "submit command =
     (case ky_activeRoleId command of
        None \<Rightarrow> act_throw (BadRequestException ''error.kyc.no_active_role'')
      | Some activeRoleId \<Rightarrow>
          if activeRoleId = [] then act_throw (BadRequestException ''error.kyc.no_active_role'')
          else
            (case normaliseNidNumber (ky_nidNumber command) of
               None \<Rightarrow> act_throw (BadRequestException ''error.kyc.invalid_nid_format'')
             | Some nidNumber \<Rightarrow> transact (kyc_work command activeRoleId nidNumber)))"

section \<open>Merchant registration\<close>

record create_merchant_command =
  cm_userId :: string
  cm_pickupLocationId :: string
  cm_businessNameBn :: string
  cm_businessNameEn :: "string option"

definition FOREIGN_KEY_VIOLATION :: string where
  "FOREIGN_KEY_VIOLATION = ''23503''"

definition isForeignKeyViolation :: "err \<Rightarrow> bool" where
  "isForeignKeyViolation error = (case error of DbError code \<Rightarrow> code = FOREIGN_KEY_VIOLATION | _ \<Rightarrow> False)"

definition merchant_profile :: "create_merchant_command \<Rightarrow> (string \<times> string option) list" where
  "merchant_profile command =
     [(''businessNameBn'', Some (cm_businessNameBn command)), (''businessNameEn'', cm_businessNameEn command)]"

definition createMerchant :: "create_merchant_command \<Rightarrow> ('z world_scheme, string) act" where
  "createMerchant command =
     act_bind
       (act_catch
         (transact (createMerchantRole (cm_userId command) (cm_pickupLocationId command) (merchant_profile command)))
         (\<lambda>error.
           if isForeignKeyViolation error
           then act_throw (BadRequestException ''error.merchant.pickup_location_not_found'')
           else act_throw error))
       (\<lambda>created.
         case created of
           None \<Rightarrow> act_throw (ConflictException ''error.merchant.already_registered'')
         | Some i \<Rightarrow> act_return i)"

section \<open>Facts\<close>

lemma kyc_work_Inr:
  assumes "kyc_work command rid nid d = Inr (u, d')"
  shows "\<exists>r k. r \<in> set (roles d) \<and> r_id r = rid \<and> r_user_id r = ky_userId command \<and> r_is_active r \<and> r_kyc_status r \<noteq> Verified \<and>
     d' = d\<lparr>users := update_rows (\<lambda>w. u_id w = ky_userId command) (nid_row nid) (users d),
       roles := update_rows (\<lambda>w. r_id w = rid) pending_role (roles d), uuid_n := Suc (uuid_n d),
       kyc_submissions := kyc_submissions d @ [k]\<rparr> \<and>
     k_role_id k = rid \<and> k_document_urls k = ky_documentUrls command \<and> k_submitted_at k = now_ts d"
proof -
  let ?held = "map active_role_of (filter (\<lambda>r. r_user_id r = ky_userId command \<and> r_is_active r) (roles d))"
  obtain role where role: "find (\<lambda>r. ar_id r = rid) ?held = Some role" "\<not> ar_kycVerified role"
    and s: "submitKyc (ky_userId command) (ar_id role) nid (ky_documentUrls command) d = Inr (u, d')"
    using assms by (auto simp: kyc_work_def findRoles_eq split: option.splits if_splits)
  have in_held: "role \<in> set ?held \<and> ar_id role = rid" by (rule find_Some_in[OF role(1)])
  then obtain r where r: "r \<in> set (roles d)" "r_user_id r = ky_userId command" "r_is_active r" "role = active_role_of r"
    by auto
  then have kind: "r_id r = rid" "r_kyc_status r \<noteq> Verified" using in_held role(2) by (auto simp: active_role_of_def)
  have s': "submitKyc (ky_userId command) rid nid (ky_documentUrls command) d = Inr (u, d')" using s in_held by simp
  obtain k where k: "d' = d\<lparr>users := update_rows (\<lambda>w. u_id w = ky_userId command) (nid_row nid) (users d),
       roles := update_rows (\<lambda>w. r_id w = rid) pending_role (roles d), uuid_n := Suc (uuid_n d),
       kyc_submissions := kyc_submissions d @ [k]\<rparr>"
      "k_role_id k = rid" "k_document_urls k = ky_documentUrls command" "k_submitted_at k = now_ts d"
    using submitKyc_Inr[OF s'] by (elim exE conjE) (rule that)
  show ?thesis
    by (rule exI[of _ r], rule exI[of _ k]) (use r(1-3) kind k in simp)
qed

lemma submit_Inr:
  assumes "inflight w = None" "submit command w = (Inr u, w')"
  shows "\<exists>rid nid. ky_activeRoleId command = Some rid \<and> normaliseNidNumber (ky_nidNumber command) = Some nid \<and>
     kyc_work command rid nid (started w) = Inr (u, committed w') \<and> inflight w' = None"
proof -
  obtain rid nid where s: "ky_activeRoleId command = Some rid" "normaliseNidNumber (ky_nidNumber command) = Some nid"
      "transact (kyc_work command rid nid) w = (Inr u, w')"
    using assms(2) by (auto simp: submit_def split: option.splits if_splits)
  then show ?thesis using pg.succeeded[OF assms(1) s(3)] pg.stays_idle[OF assms(1) s(3)] by blast
qed

lemma submit_Inl:
  assumes "inflight w = None" "submit command w = (Inl e, w')"
  shows "committed w' = committed w \<and> inflight w' = None"
  using assms pg.failed[OF assms(1)] pg.stays_idle[OF assms(1)]
  by (auto simp: submit_def split: option.splits if_splits)

lemma createMerchant_Inr:
  assumes "inflight w = None" "createMerchant command w = (Inr i, w')"
  shows "createMerchantRole (cm_userId command) (cm_pickupLocationId command) (merchant_profile command) (started w)
     = Inr (Some i, committed w') \<and> inflight w' = None"
proof -
  obtain r w1 where t: "transact (createMerchantRole (cm_userId command) (cm_pickupLocationId command) (merchant_profile command)) w = (r, w1)"
    by (cases "transact (createMerchantRole (cm_userId command) (cm_pickupLocationId command) (merchant_profile command)) w")
  then have "r = Inr (Some i)" "w1 = w'"
    using assms(2) by (auto simp: createMerchant_def act_bind_def act_catch_def split: sum.splits option.splits if_splits)
  with t show ?thesis using pg.succeeded[OF assms(1), of _ "Some i" w'] pg.stays_idle[OF assms(1) t] by simp
qed

section \<open>Properties\<close>

text \<open>
  C40. A KYC submission never verifies anyone: when it succeeds, the role acted for belongs to
  the user, is active and was not verified; that role becomes pending and every other role is
  unchanged, so no role is verified that was not; the submission is recorded once for that role
  with its documents; and the user carries a National ID of one of the three live shapes.
\<close>

theorem kyc_submission_pends_only:
  assumes "inflight w = None" "submit command w = (Inr u, w')"
  shows "\<exists>rid nid r k. ky_activeRoleId command = Some rid \<and> r \<in> set (roles (committed w)) \<and> r_id r = rid \<and>
     r_user_id r = ky_userId command \<and> r_is_active r \<and> r_kyc_status r \<noteq> Verified \<and>
     roles (committed w') = map (\<lambda>x. if r_id x = rid then x\<lparr>r_kyc_status := Verification_Pending\<rparr> else x) (roles (committed w)) \<and>
     kyc_submissions (committed w') = kyc_submissions (committed w) @ [k] \<and> k_role_id k = rid \<and>
     k_document_urls k = ky_documentUrls command \<and>
     users (committed w') = map (\<lambda>x. if u_id x = ky_userId command
        then x\<lparr>u_nid_number := Some nid, u_nid_verification_status := Verification_Pending\<rparr> else x) (users (committed w)) \<and>
     list_all is_digit nid \<and> length nid \<in> {10, 13, 17}"
proof -
  obtain rid nid where s: "ky_activeRoleId command = Some rid" "normaliseNidNumber (ky_nidNumber command) = Some nid"
      "kyc_work command rid nid (started w) = Inr (u, committed w')"
    using submit_Inr[OF assms] by blast
  have nid: "list_all is_digit nid" "length nid \<in> {10, 13, 17}"
    using s(2) by (auto simp: normaliseNidNumber_def VALID_LENGTHS_def Let_def split: if_splits)
  show ?thesis
    using kyc_work_Inr[OF s(3)] s(1) nid
    by (fastforce simp: started_def update_rows_def pending_role_def nid_row_def)
qed

definition kyc_world :: world where
  "kyc_world = sample_world\<lparr>committed := sample_db\<lparr>roles :=
     [\<lparr>r_id = ''shop'', r_user_id = ''owner'', r_type = Merchant, r_is_active = True, r_profile = [],
       r_kyc_status = Unverified, r_pickup_location_id = Some ''pickup''\<rparr>]\<rparr>\<rparr>"

definition sample_kyc :: submit_kyc_command where
  "sample_kyc = \<lparr>ky_userId = ''owner'', ky_activeRoleId = Some ''shop'', ky_nidNumber = ''123-456 7890'', ky_documentUrls = [''doc'']\<rparr>"

theorem kyc_submission_pends_only_witness:
  "\<exists>w'. submit sample_kyc kyc_world = (Inr (), w') \<and> map r_kyc_status (roles (committed w')) = [Verification_Pending]"
proof -
  have nid: "normaliseNidNumber ''123-456 7890'' = Some ''1234567890''"
    by (simp add: normaliseNidNumber_def VALID_LENGTHS_def is_space_def is_digit_def Let_def)
  have idle: "inflight kyc_world = None" "tx_faults kyc_world = []" by (simp_all add: kyc_world_def sample_world_def)
  have "\<exists>d'. kyc_work sample_kyc ''shop'' ''1234567890'' (started kyc_world) = Inr ((), d')"
    by (simp add: kyc_work_def findRoles_eq submitKyc_def stmt_bind_def active_role_of_def sample_kyc_def kyc_world_def
        started_def sample_db_def update_rows_def pending_role_def)
  then obtain w' where s: "submit sample_kyc kyc_world = (Inr (), w')"
    using nid by (auto simp: submit_def sample_kyc_def transact_no_fault idle)
  have "roles (committed kyc_world) = [\<lparr>r_id = ''shop'', r_user_id = ''owner'', r_type = Merchant, r_is_active = True, r_profile = [],
       r_kyc_status = Unverified, r_pickup_location_id = Some ''pickup''\<rparr>]" by (simp add: kyc_world_def)
  then show ?thesis using kyc_submission_pends_only[OF idle(1) s] s by (auto simp: sample_kyc_def)
qed

text \<open>
  Registering as a merchant grants nothing yet: a success appends exactly one role row, of a
  user who had no merchant role, active, unverified and at an existing pickup address, so the new
  role may not transact; a user with a merchant role is refused as a conflict and nothing changes.
\<close>

theorem merchant_registration:
  assumes "inflight w = None" "createMerchant command w = (Inr i, w')"
  shows "\<exists>row. roles (committed w') = roles (committed w) @ [row] \<and> r_id row = i \<and> r_user_id row = cm_userId command \<and>
     r_type row = Merchant \<and> r_is_active row \<and> r_kyc_status row = Unverified \<and>
     r_pickup_location_id row = Some (cm_pickupLocationId command) \<and>
     cm_pickupLocationId command \<in> loc_id ` set (locations (committed w)) \<and>
     (\<forall>r\<in>set (roles (committed w)). r_user_id r = cm_userId command \<longrightarrow> r_type r \<noteq> Merchant) \<and>
     (\<forall>p. \<not> may_transact (committed w') i p)"
proof -
  have c: "createMerchantRole (cm_userId command) (cm_pickupLocationId command) (merchant_profile command) (started w)
     = Inr (Some i, committed w')" using createMerchant_Inr[OF assms] by blast
  let ?row = "new_merchant_role i (cm_userId command) (cm_pickupLocationId command) (merchant_profile command)"
  from createMerchantRole_Inr[OF c] have row: "roles (committed w') = roles (committed w) @ [?row]"
      "i \<notin> r_id ` set (roles (committed w))" "cm_pickupLocationId command \<in> loc_id ` set (locations (committed w))"
      "\<forall>r\<in>set (roles (committed w)). r_user_id r = cm_userId command \<longrightarrow> r_type r \<noteq> Merchant"
    by (auto simp: started_def)
  then have "\<forall>p. \<not> may_transact (committed w') i p" by (auto simp: may_transact_def new_merchant_role_def)
  then show ?thesis using row by (intro exI[of _ ?row]) (simp add: new_merchant_role_def)
qed

theorem merchant_registration_witness:
  "\<exists>i w'. createMerchant \<lparr>cm_userId = ''buyer'', cm_pickupLocationId = ''home'', cm_businessNameBn = ''dokan'', cm_businessNameEn = None\<rparr>
      sample_world = (Inr i, w') \<and> \<not> may_transact (committed w') i ''home''"
proof -
  let ?c = "\<lparr>cm_userId = ''buyer'', cm_pickupLocationId = ''home'', cm_businessNameBn = ''dokan'', cm_businessNameEn = None\<rparr>"
  obtain i w' where c: "createMerchant ?c sample_world = (Inr i, w')"
    by (auto simp: createMerchant_def act_bind_def act_catch_def transact_no_fault createMerchantRole_def stmt_bind_def
        sample_db_def sample_location_def)
  then show ?thesis using merchant_registration[OF _ c] by auto
qed

text \<open>
  Every foreign key violation is reported as a missing pickup address: a registration for a
  user that does not exist, with an existing address, is answered
  \<open>pickup_location_not_found\<close>, because the handler looks at the error code only.
\<close>

theorem missing_user_blamed_on_address:
  assumes "inflight w = None" "tx_faults w = []" "cm_userId command \<notin> u_id ` set (users (committed w))"
    and "cm_userId command \<notin> r_user_id ` set (roles (committed w))"
    and "uuids (committed w) (uuid_n (committed w)) \<notin> r_id ` set (roles (committed w))"
  shows "createMerchant command w = (Inl (BadRequestException ''error.merchant.pickup_location_not_found''), w)"
proof -
  have "\<forall>r\<in>set (roles (committed w)). r_user_id r \<noteq> cm_userId command" using assms(4) by (metis imageI)
  then have "createMerchantRole (cm_userId command) (cm_pickupLocationId command) (merchant_profile command) (started w) = Inl (DbError ''23503'')"
    using assms(3,5) by (auto simp: createMerchantRole_def started_def stmt_bind_def)
  then show ?thesis
    using assms(1,2) by (simp add: createMerchant_def act_bind_def act_catch_def transact_no_fault isForeignKeyViolation_def FOREIGN_KEY_VIOLATION_def)
qed

theorem missing_user_blamed_on_address_witness:
  "createMerchant \<lparr>cm_userId = ''nobody'', cm_pickupLocationId = ''home'', cm_businessNameBn = ''dokan'', cm_businessNameEn = None\<rparr>
     sample_world = (Inl (BadRequestException ''error.merchant.pickup_location_not_found''), sample_world)"
  by (rule missing_user_blamed_on_address) (auto simp: sample_db_def)

end
