(* ===== verification/Endpoints.thy ===== *)
theory Endpoints
  imports Dispatcher OrderService Webhook Auth Onboarding
begin

text \<open>
  The HTTP surface: the request bodies of the \<open>dto\<close> directories with what their decorators
  require, and the controllers, behind the session guard that \<open>app.module.ts\<close> installs for
  every route and the validation pipe of \<open>main.ts\<close>. As documented by the framework the guard
  runs first, then the pipe, then the handler. A body whose fields do not have the declared types
  is refused by the pipe and is not a value of the records; the format tests of the validation
  library are parameters.
\<close>

section \<open>Guard, pipe, handler\<close>

record gate =
  gt_hmac :: "string \<Rightarrow> string \<Rightarrow> string"
  gt_json :: "string \<Rightarrow> json option"   \<comment> \<open>see \<open>canActivate\<close>\<close>
  gt_secret :: "string option"
  gt_authorization :: "string option"

record formats =
  fm_isUUID :: "string \<Rightarrow> bool"
  fm_isHttpsUrl :: "string \<Rightarrow> bool"
  fm_isLatitude :: "number \<Rightarrow> bool"
  fm_isLongitude :: "number \<Rightarrow> bool"
  fm_isISO8601 :: "string \<Rightarrow> bool"

definition session_of :: "gate \<Rightarrow> bool \<Rightarrow> 'z world_scheme \<Rightarrow> err + authenticated_caller option" where
  "session_of g isPublic w =
     canActivate (gt_hmac g) (gt_json g) isPublic (gt_authorization g) (gt_secret g) (clock w)"

definition route ::
  "gate \<Rightarrow> bool \<Rightarrow> bool \<Rightarrow> (authenticated_caller option \<Rightarrow> ('z world_scheme, 'a) act) \<Rightarrow> ('z world_scheme, 'a) act" where
  "route g isPublic valid handler w =
     (case session_of g isPublic w of
        Inl e \<Rightarrow> (Inl e, w)
      | Inr caller \<Rightarrow>
          if valid then handler caller w else (Inl (BadRequestException ''Bad Request Exception''), w))"

text \<open>A handler with a \<open>@Caller()\<close> parameter.\<close>

definition with_caller ::
  "(authenticated_caller \<Rightarrow> ('z world_scheme, 'a) act) \<Rightarrow> authenticated_caller option \<Rightarrow> ('z world_scheme, 'a) act" where
  "with_caller handler caller = act_bind (act_lift (Caller caller)) handler"

definition length_between :: "nat \<Rightarrow> nat \<Rightarrow> 'a list \<Rightarrow> bool" where
  "length_between m n xs \<longleftrightarrow> m \<le> length xs \<and> length xs \<le> n"

definition whole_from :: "number \<Rightarrow> number \<Rightarrow> bool" where
  "whole_from low x \<longleftrightarrow> isInteger x \<and> low \<le> x"

section \<open>Login and roles\<close>

record request_otp_dto =
  qd_phone :: string

record verify_otp_dto =
  vd_phone :: string
  vd_code :: string

record switch_role_dto =
  sd_roleId :: string

definition request_otp_dto_valid :: "request_otp_dto \<Rightarrow> bool" where
  "request_otp_dto_valid dto \<longleftrightarrow> length_between 10 20 (qd_phone dto)"

definition verify_otp_dto_valid :: "verify_otp_dto \<Rightarrow> bool" where
  "verify_otp_dto_valid dto \<longleftrightarrow> length_between 10 20 (vd_phone dto) \<and>
     length (vd_code dto) = 6 \<and> list_all is_digit (vd_code dto)"

definition switch_role_dto_valid :: "formats \<Rightarrow> switch_role_dto \<Rightarrow> bool" where
  "switch_role_dto_valid F dto \<longleftrightarrow> fm_isUUID F (sd_roleId dto)"

definition AuthController_requestOtp ::
  "gate \<Rightarrow> 'r redis_client \<Rightarrow> (string \<Rightarrow> string \<Rightarrow> string) \<Rightarrow> string option \<Rightarrow> nat \<Rightarrow> request_otp_dto \<Rightarrow>
   (('r, 'z) redis_world_scheme, request_otp_result) act" where
  "AuthController_requestOtp g R hmac secret draw dto =
     route g True (request_otp_dto_valid dto) (\<lambda>_. requestOtp R hmac enqueue secret draw (qd_phone dto))"

definition AuthController_verifyOtp ::
  "gate \<Rightarrow> 'r redis_client \<Rightarrow> (string \<Rightarrow> string \<Rightarrow> string) \<Rightarrow> string option \<Rightarrow> verify_otp_dto \<Rightarrow>
   (('r, 'z) redis_world_scheme, verify_otp_result) act" where
  "AuthController_verifyOtp g R hmac secret dto =
     route g True (verify_otp_dto_valid dto)
       (\<lambda>_. verifyOtp_svc R hmac secret (gt_secret g) (vd_phone dto) (vd_code dto))"

definition AuthController_listRoles :: "gate \<Rightarrow> ('z world_scheme, active_role list) act" where
  "AuthController_listRoles g = route g False True (with_caller (\<lambda>caller. listRoles (ca_userId caller)))"

definition AuthController_switchRole ::
  "gate \<Rightarrow> formats \<Rightarrow> switch_role_dto \<Rightarrow> ('z world_scheme, switch_role_result) act" where
  "AuthController_switchRole g F dto =
     route g False (switch_role_dto_valid F dto) (with_caller (\<lambda>caller.
       switchRole (gt_hmac g) (gt_secret g) (ca_userId caller) (sd_roleId dto)))"

section \<open>Becoming a merchant\<close>

record create_merchant_dto =
  md_pickupLocationId :: string
  md_businessNameBn :: string
  md_businessNameEn :: "string option"

definition create_merchant_dto_valid :: "formats \<Rightarrow> create_merchant_dto \<Rightarrow> bool" where
  "create_merchant_dto_valid F dto \<longleftrightarrow> fm_isUUID F (md_pickupLocationId dto) \<and> 1 \<le> length (md_businessNameBn dto)"

definition MerchantOnboardingController_create ::
  "gate \<Rightarrow> formats \<Rightarrow> create_merchant_dto \<Rightarrow> ('z world_scheme, string) act" where
  "MerchantOnboardingController_create g F dto =
     route g False (create_merchant_dto_valid F dto) (with_caller (\<lambda>caller.
       createMerchant \<lparr>cm_userId = ca_userId caller, cm_pickupLocationId = md_pickupLocationId dto,
         cm_businessNameBn = md_businessNameBn dto, cm_businessNameEn = md_businessNameEn dto\<rparr>))"

record submit_kyc_dto =
  kd_nidNumber :: string
  kd_documentUrls :: "string list"

definition submit_kyc_dto_valid :: "formats \<Rightarrow> submit_kyc_dto \<Rightarrow> bool" where
  "submit_kyc_dto_valid F dto \<longleftrightarrow> length_between 10 20 (kd_nidNumber dto) \<and>
     length_between 1 3 (kd_documentUrls dto) \<and> list_all (fm_isHttpsUrl F) (kd_documentUrls dto)"

definition KycController_submit :: "gate \<Rightarrow> formats \<Rightarrow> submit_kyc_dto \<Rightarrow> ('z world_scheme, unit) act" where
  "KycController_submit g F dto =
     route g False (submit_kyc_dto_valid F dto) (with_caller (\<lambda>caller.
       submit \<lparr>ky_userId = ca_userId caller, ky_activeRoleId = ca_activeRoleId caller,
         ky_nidNumber = kd_nidNumber dto, ky_documentUrls = kd_documentUrls dto\<rparr>))"

section \<open>Addresses and listings\<close>

record create_location_dto =
  ld_division :: string
  ld_district :: string
  ld_upazilaThana :: string
  ld_unionWard :: "string option"
  ld_villageMohalla :: "string option"
  ld_addressLine :: "string option"
  ld_lat :: "number optional"
  ld_lng :: "number optional"

definition optionally :: "('a \<Rightarrow> bool) \<Rightarrow> 'a option \<Rightarrow> bool" where
  "optionally p x = (case x of None \<Rightarrow> True | Some a \<Rightarrow> p a)"

definition create_location_dto_valid :: "formats \<Rightarrow> create_location_dto \<Rightarrow> bool" where
  "create_location_dto_valid F dto \<longleftrightarrow> 1 \<le> length (ld_division dto) \<and> 1 \<le> length (ld_district dto) \<and>
     1 \<le> length (ld_upazilaThana dto) \<and> optionally (fm_isLatitude F) (nullish (ld_lat dto)) \<and>
     optionally (fm_isLongitude F) (nullish (ld_lng dto))"

definition LocationController_create ::
  "gate \<Rightarrow> formats \<Rightarrow> create_location_dto \<Rightarrow> ('z world_scheme, string) act" where
  "LocationController_create g F dto =
     route g False (create_location_dto_valid F dto) (\<lambda>_.
       on_pool (createLocation
         \<lparr>cl_division = ld_division dto, cl_district = ld_district dto, cl_upazilaThana = ld_upazilaThana dto,
          cl_unionWard = ld_unionWard dto, cl_villageMohalla = ld_villageMohalla dto,
          cl_addressLine = ld_addressLine dto, cl_lat = ld_lat dto, cl_lng = ld_lng dto\<rparr>))"

record create_listing_dto =
  gd_type :: listing_type
  gd_categoryId :: string
  gd_titleBn :: string
  gd_titleEn :: "string option"
  gd_descriptionBn :: "string option"
  gd_descriptionEn :: "string option"
  gd_priceBdtPoisha :: number
  gd_readyToShip :: bool
  gd_stockQty :: "number option"

definition create_listing_dto_valid :: "formats \<Rightarrow> create_listing_dto \<Rightarrow> bool" where
  "create_listing_dto_valid F dto \<longleftrightarrow> fm_isUUID F (gd_categoryId dto) \<and> 1 \<le> length (gd_titleBn dto) \<and>
     whole_from 0 (gd_priceBdtPoisha dto) \<and> optionally (whole_from 0) (gd_stockQty dto)"

definition CatalogController_create ::
  "gate \<Rightarrow> formats \<Rightarrow> create_listing_dto \<Rightarrow> ('z world_scheme, string) act" where
  "CatalogController_create g F dto =
     route g False (create_listing_dto_valid F dto) (with_caller (\<lambda>caller.
       createListing
         \<lparr>cg_ownerRoleId = ca_activeRoleId caller, cg_type = gd_type dto, cg_categoryId = gd_categoryId dto,
          cg_titleBn = gd_titleBn dto, cg_titleEn = gd_titleEn dto, cg_descriptionBn = gd_descriptionBn dto,
          cg_descriptionEn = gd_descriptionEn dto, cg_priceBdtPoisha = gd_priceBdtPoisha dto,
          cg_readyToShip = gd_readyToShip dto, cg_stockQty = gd_stockQty dto\<rparr>))"

record search_listings_dto =
  hd_lat :: number
  hd_lng :: number
  hd_radiusKm :: number

definition search_listings_dto_valid :: "formats \<Rightarrow> search_listings_dto \<Rightarrow> bool" where
  "search_listings_dto_valid F dto \<longleftrightarrow> fm_isLatitude F (hd_lat dto) \<and> fm_isLongitude F (hd_lng dto) \<and>
     1 \<le> hd_radiusKm dto \<and> hd_radiusKm dto \<le> 10"

definition CatalogController_nearby ::
  "gate \<Rightarrow> formats \<Rightarrow> (point \<Rightarrow> point \<Rightarrow> number) \<Rightarrow> (point \<Rightarrow> point \<Rightarrow> number \<Rightarrow> bool) \<Rightarrow> search_listings_dto \<Rightarrow>
   ('z world_scheme, nearby_listing list) act" where
  "CatalogController_nearby g F ST_Distance ST_DWithin dto =
     route g True (search_listings_dto_valid F dto) (\<lambda>_.
       on_pool (searchNearby ST_Distance ST_DWithin (hd_lat dto) (hd_lng dto) (hd_radiusKm dto)))"

section \<open>Orders and settlements\<close>

record create_order_line_dto =
  od_listingId :: string
  od_quantity :: number

record create_order_dto =
  od_merchantRoleId :: string
  od_deliveryLocationId :: string
  od_paymentMethod :: payment_method
  od_lines :: "create_order_line_dto list"
  od_requestedAdvancePoisha :: number

definition create_order_line_dto_valid :: "formats \<Rightarrow> create_order_line_dto \<Rightarrow> bool" where
  "create_order_line_dto_valid F line \<longleftrightarrow> fm_isUUID F (od_listingId line) \<and> whole_from 1 (od_quantity line)"

definition create_order_dto_valid :: "formats \<Rightarrow> create_order_dto \<Rightarrow> bool" where
  "create_order_dto_valid F dto \<longleftrightarrow> fm_isUUID F (od_merchantRoleId dto) \<and> fm_isUUID F (od_deliveryLocationId dto) \<and>
     length_between 1 50 (od_lines dto) \<and> list_all (create_order_line_dto_valid F) (od_lines dto) \<and>
     whole_from 0 (od_requestedAdvancePoisha dto)"

definition order_command :: "authenticated_caller \<Rightarrow> create_order_dto \<Rightarrow> create_order_command" where
  "order_command caller dto =
     \<lparr>co_customerUserId = ca_userId caller, co_merchantRoleId = od_merchantRoleId dto,
      co_deliveryLocationId = od_deliveryLocationId dto, co_paymentMethod = od_paymentMethod dto,
      co_lines = map (\<lambda>l. \<lparr>rl_listingId = od_listingId l, rl_quantity = od_quantity l\<rparr>) (od_lines dto),
      co_requestedAdvance = od_requestedAdvancePoisha dto, co_deliveryFee = 0\<rparr>"

definition OrderController_create ::
  "gate \<Rightarrow> formats \<Rightarrow> string option \<Rightarrow> create_order_dto \<Rightarrow> ('z world_scheme, created_order) act" where
  "OrderController_create g F ESCROW_ENABLED dto =
     route g False (create_order_dto_valid F dto) (with_caller (\<lambda>caller.
       createOrder checkout_wiring ESCROW_ENABLED (order_command caller dto)))"

definition PaymentController_handle ::
  "gate \<Rightarrow> formats \<Rightarrow> (string \<Rightarrow> string \<Rightarrow> string) \<Rightarrow> (string \<Rightarrow> date) \<Rightarrow> string option \<Rightarrow>
   string option \<Rightarrow> aggregator_webhook_dto \<Rightarrow> string option \<Rightarrow> ('z world_scheme, settlement_result) act" where
  "PaymentController_handle g F hmac parse_date secret rawBody dto signature =
     route g True (webhook_dto_valid (fm_isUUID F) (fm_isISO8601 F) dto) (\<lambda>_.
       handle settlement_wiring hmac parse_date secret rawBody dto signature)"

section \<open>What a protected route requires\<close>

lemma session_known: "session_of g False w \<noteq> Inr None"
  by (auto simp: session_of_def canActivate_def sum_bind_def split: option.splits token_verification.splits sum.splits)

lemma session_public [simp]: "session_of g True w = Inr None"
  by (simp add: session_of_def canActivate_def)

lemma route_public: "route g True valid handler w =
    (if valid then handler None w else (Inl (BadRequestException ''Bad Request Exception''), w))"
  by (simp add: route_def)

lemma route_protected:
  "route g False valid handler w =
     (case session_of g False w of Inl e \<Rightarrow> (Inl e, w)
      | Inr caller \<Rightarrow> if valid then handler caller w else (Inl (BadRequestException ''Bad Request Exception''), w))"
  by (simp add: route_def)

lemma with_caller_Some [simp]: "with_caller handler (Some c) w = handler c w"
  by (simp add: with_caller_def Caller_def)

text \<open>A protected route either leaves the world alone or runs its handler for the session's caller.\<close>

lemma protected_cases:
  assumes "route g False valid (with_caller handler) w = (r, w')"
  obtains (refused) e where "r = Inl e" "w' = w"
  | (admitted) c where "session_of g False w = Inr (Some c)" "valid" "handler c w = (r, w')"
proof (cases "session_of g False w")
  case (Inl e)
  then show thesis using assms refused by (auto simp: route_protected)
next
  case (Inr caller)
  then obtain c where "session_of g False w = Inr (Some c)" using session_known[of g w] by (cases caller) auto
  then show thesis using assms refused admitted by (auto simp: route_protected split: if_splits)
qed

lemma protected_Inr:
  assumes "route g False valid (with_caller handler) w = (Inr x, w')"
  obtains c where "session_of g False w = Inr (Some c)" "valid" "handler c w = (Inr x, w')"
  using assms by (cases rule: protected_cases) auto

section \<open>Properties\<close>

text \<open>
  A request without a valid session changes nothing: on every route that is not marked public
  (roles, role switching, merchant registration, KYC, addresses, listings, orders) it gets the
  guard's refusal, whatever its body, and the world is as before.
\<close>

theorem no_session_no_effect:
  assumes "session_of g False w = Inl e"
  shows "AuthController_listRoles g w = (Inl e, w) \<and> AuthController_switchRole g F sr w = (Inl e, w) \<and>
    MerchantOnboardingController_create g F m w = (Inl e, w) \<and> KycController_submit g F k w = (Inl e, w) \<and>
    LocationController_create g F l w = (Inl e, w) \<and> CatalogController_create g F ls w = (Inl e, w) \<and>
    OrderController_create g F env ord w = (Inl e, w)"
  using assms
  by (simp add: AuthController_listRoles_def AuthController_switchRole_def MerchantOnboardingController_create_def
      KycController_submit_def LocationController_create_def CatalogController_create_def OrderController_create_def
      route_protected)

text \<open>The routes of the small world: a session for the customer and one for the merchant.\<close>

definition sample_formats :: formats where
  "sample_formats = \<lparr>fm_isUUID = (\<lambda>t. t \<noteq> []), fm_isHttpsUrl = (\<lambda>t. t \<noteq> []), fm_isLatitude = (\<lambda>x. \<bar>x\<bar> \<le> 90),
     fm_isLongitude = (\<lambda>x. \<bar>x\<bar> \<le> 180), fm_isISO8601 = (\<lambda>t. t \<noteq> [])\<rparr>"

definition sample_gate :: "string option \<Rightarrow> gate" where
  "sample_gate header = \<lparr>gt_hmac = pad_hmac, gt_json = Map.empty, gt_secret = Some ''secret'', gt_authorization = header\<rparr>"

definition sample_order_dto :: create_order_dto where
  "sample_order_dto = \<lparr>od_merchantRoleId = ''shop'', od_deliveryLocationId = ''away'', od_paymentMethod = Bkash,
     od_lines = map (\<lambda>l. \<lparr>od_listingId = rl_listingId l, od_quantity = rl_quantity l\<rparr>) sample_lines,
     od_requestedAdvancePoisha = 4000\<rparr>"

theorem no_session_no_effect_witness:
  "OrderController_create (sample_gate None) sample_formats None sample_order_dto sample_world =
     (Inl (UnauthorizedException ''error.auth.missing_token''), sample_world)"
proof -
  have s: "session_of (sample_gate None) False sample_world = Inl (UnauthorizedException ''error.auth.missing_token'')"
    by (simp add: session_of_def canActivate_def sample_gate_def)
  show ?thesis by (simp only: no_session_no_effect[OF s])
qed

lemma sample_session:
  "\<exists>token. session_of (sample_gate (Some (''Bearer '' @ token))) False sample_world =
     Inr (Some \<lparr>ca_userId = ''buyer'', ca_activeRoleId = None\<rparr>)"
proof -
  obtain token where t: "issueSessionToken pad_hmac ''buyer'' None ''secret'' 1000 = Inr token"
    by (simp add: issueSessionToken_def Let_def)
  show ?thesis
    using verify_issued[OF t, of Map.empty 1000]
    by (intro exI[of _ token])
       (simp add: session_of_def canActivate_def sample_gate_def startsWith_def payload_at_def SESSION_TTL_SECONDS_def
         MAX_TIME_def)
qed

lemma sample_ordered:
  "order_command \<lparr>ca_userId = ''buyer'', ca_activeRoleId = r\<rparr> sample_order_dto = sample_order_command Bkash 4000"
  by (simp add: order_command_def sample_order_dto_def sample_order_command_def sample_lines_def)

lemma sample_order_valid: "create_order_dto_valid sample_formats sample_order_dto"
  by (simp add: create_order_dto_valid_def sample_order_dto_def sample_formats_def sample_lines_def length_between_def
      create_order_line_dto_valid_def whole_from_def)

text \<open>
  C19. An order belongs to the session that placed it: whenever the order endpoint succeeds, the
  request carried a valid session, the body passed its validators (one to fifty lines of whole
  positive quantities, a whole non-negative advance), and the one order appended is the session
  user's, at the merchant, delivery address and payment method of the body, with a delivery fee
  of zero.
\<close>

theorem orders_belong_to_session:
  assumes "inflight w = None" "OrderController_create g F env dto w = (Inr x, w')"
  shows "\<exists>caller o1. session_of g False w = Inr (Some caller) \<and> create_order_dto_valid F dto \<and>
    orders (committed w') = orders (committed w) @ [o1] \<and> o_id o1 = cr_orderId x \<and>
    o_customer_user_id o1 = ca_userId caller \<and> o_merchant_role_id o1 = od_merchantRoleId dto \<and>
    o_delivery_location_id o1 = od_deliveryLocationId dto \<and> o_payment_method o1 = od_paymentMethod dto \<and>
    o_delivery_fee_bdt o1 = 0 \<and> of_int (o_advance_amount_bdt o1) = od_requestedAdvancePoisha dto"
proof -
  obtain c where c: "session_of g False w = Inr (Some c)" "create_order_dto_valid F dto"
    and placed: "createOrder checkout_wiring env (order_command c dto) w = (Inr x, w')"
    using assms(2) unfolding OrderController_create_def by (rule protected_Inr)
  show ?thesis
    using assms(1) placed
  proof (rule placed_order_rows, goal_cases)
    case (1 resolved p m pk pickup delivery subtotal fee total_bdt advance cap items t)
    note rec = orderRecord_Inr[OF 1(11)]
    have "fee = 0" "od_requestedAdvancePoisha dto = of_int advance"
      using poishaToTaka_numeric[OF rec(2), of fee] poishaToTaka_numeric[OF rec(4), of advance] 1(13,15)
      by (simp_all add: order_command_def)
    then show ?case
      using c 1(20) rec(7-10)
      by (intro exI[of _ c] exI[of _ "order_of (cr_orderId x) (pp_record p) subtotal fee total_bdt advance cap"])
         (simp add: order_of_def order_command_def)
  qed
qed

theorem orders_belong_to_session_witness:
  "\<exists>token x w'. OrderController_create (sample_gate (Some (''Bearer '' @ token))) sample_formats None sample_order_dto
      sample_world = (Inr x, w') \<and> map o_customer_user_id (orders (committed w')) = [''buyer'']"
proof -
  obtain token where s: "session_of (sample_gate (Some (''Bearer '' @ token))) False sample_world =
     Inr (Some \<lparr>ca_userId = ''buyer'', ca_activeRoleId = None\<rparr>)" using sample_session by blast
  obtain x w' where p: "createOrder checkout_wiring None (sample_order_command Bkash 4000) sample_world = (Inr x, w')"
    using sample_placed[where m = Bkash and a = 4000 and env = None] by auto
  have o: "OrderController_create (sample_gate (Some (''Bearer '' @ token))) sample_formats None sample_order_dto
      sample_world = (Inr x, w')"
    using s p by (simp add: OrderController_create_def route_protected sample_order_valid sample_ordered)
  have "orders sample_db = []" by (simp add: sample_db_def)
  then have "map o_customer_user_id (orders (committed w')) = [''buyer'']"
    using orders_belong_to_session[OF _ o] s by auto
  with o show ?thesis by (intro exI conjI)
qed

end
