(* ===== verification/Refinement.thy ===== *)
theory Refinement
  imports Platform Endpoints
begin

text \<open>
  The endpoints and the dispatcher implement the state machine of theory \<open>Platform\<close>: whatever
  they answer, and whatever fails on the way, what they did to the committed tables is a sequence
  of its steps. The locale \<open>state_contract\<close> carries a relation between the tables before and
  after through the combinators the services are written with, and \<open>service_contract\<close> through
  every service of the system, from what the writing statements do.
\<close>

section \<open>Contracts on actions\<close>

text \<open>
  From an idle world whose tables satisfy \<open>pre\<close>, the action leaves an idle world, and the
  committed tables before and after are related, whether it returns or throws.
\<close>

definition fulfils :: "(db \<Rightarrow> bool) \<Rightarrow> (db \<Rightarrow> db \<Rightarrow> bool) \<Rightarrow> ('z world_scheme, 'a) act \<Rightarrow> bool" where
  "fulfils pre rel act \<longleftrightarrow> (\<forall>w r w'. inflight w = None \<longrightarrow> pre (committed w) \<longrightarrow> act w = (r, w') \<longrightarrow>
     inflight w' = None \<and> rel (committed w) (committed w'))"

lemma fulfilsI:
  "(\<And>w r w'. inflight w = None \<Longrightarrow> pre (committed w) \<Longrightarrow> act w = (r, w') \<Longrightarrow>
     inflight w' = None \<and> rel (committed w) (committed w')) \<Longrightarrow> fulfils pre rel act"
  unfolding fulfils_def by blast

lemma fulfilsD:
  assumes "fulfils pre rel act" "act w = (r, w')" "inflight w = None" "pre (committed w)"
  shows "inflight w' = None \<and> rel (committed w) (committed w')"
  using assms unfolding fulfils_def by blast

locale state_contract =
  fixes pre :: "db \<Rightarrow> bool" and rel :: "db \<Rightarrow> db \<Rightarrow> bool"
  assumes refl: "rel d d"
    and trans: "rel a b \<Longrightarrow> rel b c \<Longrightarrow> rel a c"
    and keeps: "rel d d' \<Longrightarrow> pre d \<Longrightarrow> pre d'"
    and now: "rel d (d\<lparr>now_ts := t\<rparr>)"
begin

lemma to_start: "rel (committed w) (started w)"
  by (simp add: started_def now)

lemma bind:
  assumes m: "fulfils pre rel m" and k: "\<And>a. fulfils pre rel (k a)"
  shows "fulfils pre rel (act_bind m k)"
proof (rule fulfilsI)
  fix w r w' assume w: "inflight w = None" "pre (committed w)" and b: "act_bind m k w = (r, w')"
  obtain s w1 where s: "m w = (s, w1)" by (cases "m w")
  note 1 = fulfilsD[OF m s w]
  show "inflight w' = None \<and> rel (committed w) (committed w')"
  proof (cases s)
    case (Inl e)
    then show ?thesis using b s 1 by simp
  next
    case (Inr a)
    then have "k a w1 = (r, w')" using b s by simp
    then show ?thesis using fulfilsD[OF k] 1 keeps[OF _ w(2)] trans by blast
  qed
qed

lemma catch_all:
  assumes m: "fulfils pre rel m" and h: "\<And>e. fulfils pre rel (h e)"
  shows "fulfils pre rel (act_catch m h)"
proof (rule fulfilsI)
  fix w r w' assume w: "inflight w = None" "pre (committed w)" and b: "act_catch m h w = (r, w')"
  obtain s w1 where s: "m w = (s, w1)" by (cases "m w")
  note 1 = fulfilsD[OF m s w]
  show "inflight w' = None \<and> rel (committed w) (committed w')"
  proof (cases s)
    case (Inr a)
    then show ?thesis using b s 1 by simp
  next
    case (Inl e)
    then have "h e w1 = (r, w')" using b s by simp
    then show ?thesis using fulfilsD[OF h] 1 keeps[OF _ w(2)] trans by blast
  qed
qed

lemma pure:
  "fulfils pre rel (act_return a)" "fulfils pre rel (act_throw e)" "fulfils pre rel (act_lift x)"
  by (auto simp: fulfils_def refl)

text \<open>A computation that reads the clock.\<close>

lemma lift_here:
  assumes "\<And>v x. fulfils pre rel (k v x)"
  shows "fulfils pre rel (\<lambda>w. act_bind (act_lift (f w)) (k w) w)"
proof (rule fulfilsI)
  fix w r w' assume w: "inflight w = None" "pre (committed w)" and b: "act_bind (act_lift (f w)) (k w) w = (r, w')"
  show "inflight w' = None \<and> rel (committed w) (committed w')"
    using fulfilsD[OF bind[OF pure(3) assms] b w] .
qed

lemma in_transaction:
  assumes "\<And>d a d'. pre d \<Longrightarrow> m d = Inr (a, d') \<Longrightarrow> rel d d'"
  shows "fulfils pre rel (transact m)"
proof (rule fulfilsI)
  fix w r w' assume w: "inflight w = None" "pre (committed w)" and b: "transact m w = (r, w')"
  have "rel (committed w) (committed w')"
    using pg.all_or_nothing[OF w(1) b] assms keeps[OF to_start w(2)] refl trans[OF to_start] by metis
  then show "inflight w' = None \<and> rel (committed w) (committed w')" using pg.stays_idle[OF w(1) b] by simp
qed

lemma in_pool:
  assumes "\<And>d a d'. pre d \<Longrightarrow> m d = Inr (a, d') \<Longrightarrow> rel d d'"
  shows "fulfils pre rel (on_pool m)"
proof (rule fulfilsI)
  fix w r w' assume w: "inflight w = None" "pre (committed w)" and b: "on_pool m w = (r, w')"
  show "inflight w' = None \<and> rel (committed w) (committed w')"
  proof (cases r)
    case (Inl e)
    then show ?thesis using b w refl by (simp add: on_pool_Inl_iff)
  next
    case (Inr a)
    then obtain d' where "m (started w) = Inr (a, d')" "w' = w\<lparr>committed := d'\<rparr>" using b by (auto simp: on_pool_Inr_iff)
    then have "rel (started w) d'" using assms keeps[OF to_start w(2)] by blast
    then show ?thesis using trans[OF to_start] \<open>w' = _\<close> w(1) by simp
  qed
qed

lemma in_redis: "fulfils pre rel (on_redis c)"
  by (auto simp: fulfils_def on_redis_def refl split: prod.splits)

lemma limited: "fulfils pre rel (hit R key limit window)"
proof (rule fulfilsI)
  fix w r w' assume w: "inflight w = None" and h: "hit R key limit window w = (r, w')"
  obtain d s where "hit R key limit window w = (Inr d, w\<lparr>rw_redis := s\<rparr>)" using hit_total by metis
  then show "inflight w' = None \<and> rel (committed w) (committed w')" using w h refl by auto
qed

lemma otp_store:
  "fulfils pre rel (save R phone ch)" "fulfils pre rel (load R phone)" "fulfils pre rel (recordAttempt R phone ch)"
  "fulfils pre rel (consume R phone)"
  unfolding save_def load_def recordAttempt_def consume_def
  by (auto intro!: bind pure in_redis split: option.splits redis_value.splits)

lemma routed:
  assumes "\<And>caller. fulfils pre rel (handler caller)"
  shows "fulfils pre rel (route g isPublic valid handler)"
proof (rule fulfilsI)
  fix w r w' assume w: "inflight w = None" "pre (committed w)" and b: "route g isPublic valid handler w = (r, w')"
  then show "inflight w' = None \<and> rel (committed w) (committed w')"
    using fulfilsD[OF assms _ w] refl by (auto simp: route_def split: sum.splits if_splits)
qed

lemma for_caller:
  "(\<And>caller. fulfils pre rel (handler caller)) \<Longrightarrow> fulfils pre rel (with_caller handler caller)"
  unfolding with_caller_def by (intro bind pure)

text \<open>The services that only read.\<close>

lemma reading:
  assumes "\<And>d a d'. m d = Inr (a, d') \<Longrightarrow> d' = d"
  shows "fulfils pre rel (transact m)" "fulfils pre rel (on_pool m)"
  using assms refl by (blast intro: in_transaction in_pool)+

lemma login: "fulfils pre rel (verifyOtp_svc R hmac secret sessionKey rawPhone submitted)"
  unfolding verifyOtp_svc_def checkCode_def completeLogin_def
  by (intro bind limited otp_store pure lift_here reading(1) |
      auto simp: findByPhone_def intro!: bind limited otp_store pure lift_here reading(1)
        split: option.splits verify_outcome.splits if_splits)+

lemma roles_read:
  "fulfils pre rel (listRoles u)" "fulfils pre rel (switchRole hmac key u i)"
  unfolding listRoles_def switchRole_def
  by (auto simp: findRoles_eq intro!: bind pure lift_here reading(1) split: option.splits)

lemma otp_requested:
  assumes "\<And>phone code t d i d'. pre d \<Longrightarrow> otp_work notify phone code t d = Inr (i, d') \<Longrightarrow> rel d d'"
  shows "fulfils pre rel (requestOtp R hmac notify secret draw rawPhone)"
  unfolding requestOtp_def issueAndSend_def
  by (auto intro!: bind limited otp_store pure lift_here in_transaction assms split: option.splits)

end

section \<open>The system\<close>

text \<open>
  One request, webhook or pass of the dispatcher, from any idle world with the given tables: at
  any time, with any connection failures to come, any configuration, any answers of the
  external services. \<open>R\<close> is the Redis client; nothing is assumed about it. Reads and writes of
  a checkout or a publication may be apart: the last two rules are the writes of one that was
  prepared in another state, with anything served in between.
\<close>

inductive serves :: "'r redis_client \<Rightarrow> db \<Rightarrow> db \<Rightarrow> bool" for R where
  otp_request: "AuthController_requestOtp g R hmac secret draw dto w = (answer, w') \<Longrightarrow> inflight w = None \<Longrightarrow>
    serves R (committed (w :: 'r redis_world)) (committed w')"
| otp_verify: "AuthController_verifyOtp g R hmac secret dto w = (answer, w') \<Longrightarrow> inflight w = None \<Longrightarrow>
    serves R (committed (w :: 'r redis_world)) (committed w')"
| roles: "AuthController_listRoles g w = (answer, w') \<Longrightarrow> inflight w = None \<Longrightarrow>
    serves R (committed (w :: world)) (committed w')"
| switch: "AuthController_switchRole g F dto w = (answer, w') \<Longrightarrow> inflight w = None \<Longrightarrow>
    serves R (committed (w :: world)) (committed w')"
| merchant: "MerchantOnboardingController_create g F dto w = (answer, w') \<Longrightarrow> inflight w = None \<Longrightarrow>
    serves R (committed (w :: world)) (committed w')"
| kyc: "KycController_submit g F dto w = (answer, w') \<Longrightarrow> inflight w = None \<Longrightarrow>
    serves R (committed (w :: world)) (committed w')"
| location: "LocationController_create g F dto w = (answer, w') \<Longrightarrow> inflight w = None \<Longrightarrow>
    serves R (committed (w :: world)) (committed w')"
| listing: "CatalogController_create g F dto w = (answer, w') \<Longrightarrow> inflight w = None \<Longrightarrow>
    serves R (committed (w :: world)) (committed w')"
| nearby: "CatalogController_nearby g F ST_Distance ST_DWithin dto w = (answer, w') \<Longrightarrow> inflight w = None \<Longrightarrow>
    serves R (committed (w :: world)) (committed w')"
| order: "OrderController_create g F ESCROW_ENABLED dto w = (answer, w') \<Longrightarrow> inflight w = None \<Longrightarrow>
    serves R (committed (w :: world)) (committed w')"
| webhook: "PaymentController_handle g F hmac parse_date secret rawBody dto signature w = (answer, w') \<Longrightarrow>
    inflight w = None \<Longrightarrow> serves R (committed (w :: world)) (committed w')"
| dispatch: "dispatchBatch dp locked limit w = (summary, w') \<Longrightarrow> inflight w = None \<Longrightarrow>
    serves R (committed w) (committed w')"
| late_order: "prepareOrder checkout_wiring ESCROW_ENABLED (order_command caller dto) (w0 :: world) = (Inr p, w1) \<Longrightarrow>
    prices_ok (committed w0) \<Longrightarrow>
    transact (writeOrder checkout_wiring (order_command caller dto) (pc_total (pp_priced p)) (pp_record p)) w = (answer, w') \<Longrightarrow>
    inflight w = None \<Longrightarrow> serves R (committed (w :: world)) (committed w')"
| late_listing: "poishaToTaka (cg_priceBdtPoisha command) = Inr price \<Longrightarrow>
    on_pool (insertListing (listing_record command role p price pickup)) w = (answer, w') \<Longrightarrow>
    inflight w = None \<Longrightarrow> serves R (committed (w :: world)) (committed w')"

section \<open>The services\<close>

lemma createListing_Inl:
  assumes "createListing command w = (Inl e, w')"
  shows "inflight w' = inflight w \<and> (committed w' = committed w \<or> committed w' = started w)"
  using assms
  by (auto simp: createListing_def publishListing_def Let_def act_bind_Inl_iff act_bind_Inr_iff pool_reads
      on_pool_Inl_iff act_lift_iff split: if_splits option.splits)

text \<open>
  A contract that every writing statement keeps is kept by every service of the system: what
  has to be shown of a contract is what the statements do, and the endpoints follow. A
  checkout or a publication may have been prepared in other tables than those it writes to.
\<close>

locale service_contract = state_contract +
  assumes otp_write: "pre d \<Longrightarrow> otp_work enqueue phone code t d = Inr (i, d') \<Longrightarrow> rel d d'"
    and role_write: "pre d \<Longrightarrow> createMerchantRole u pk pf d = Inr (r, d') \<Longrightarrow> rel d d'"
    and kyc_write: "pre d \<Longrightarrow> kyc_work request i nid d = Inr (x, d') \<Longrightarrow> rel d d'"
    and address_write: "pre d \<Longrightarrow> createLocation place d = Inr (i, d') \<Longrightarrow> rel d d'"
    and listing_write: "pre d \<Longrightarrow> poishaToTaka (cg_priceBdtPoisha goods) = Inr price \<Longrightarrow>
      insertListing (listing_record goods role pk price pickup) d = Inr (i, d') \<Longrightarrow> rel d d'"
    and order_write: "pre d \<Longrightarrow> pre (committed (w :: world)) \<Longrightarrow>
      prepareOrder checkout_wiring env command w = (Inr p, w1) \<Longrightarrow>
      writeOrder checkout_wiring command (pc_total (pp_priced p)) (pp_record p) d = Inr (i, d') \<Longrightarrow> rel d d'"
    and settlement_write: "pre d \<Longrightarrow> settlementWork settlement_wiring notice d = Inr (res, d') \<Longrightarrow> rel d d'"
    and sent_write: "pre d \<Longrightarrow> markSent i d = Inr (x, d') \<Longrightarrow> rel d d'"
    and failed_write: "pre d \<Longrightarrow> markFailed i e MAX_ATTEMPTS d = Inr (x, d') \<Longrightarrow> rel d d'"
    and of_prices: "prices_ok d \<Longrightarrow> pre d"
begin

lemma requests_code: "fulfils pre rel (requestOtp R hmac enqueue secret draw rawPhone)"
  by (rule otp_requested) (rule otp_write)

lemma registers: "fulfils pre rel (createMerchant command)"
  unfolding createMerchant_def
  by (auto intro!: bind catch_all pure in_transaction role_write split: option.splits)

lemma submits: "fulfils pre rel (submit command)"
  unfolding submit_def by (auto intro!: pure in_transaction kyc_write split: option.splits)

lemma locates: "fulfils pre rel (on_pool (createLocation command))"
  by (rule in_pool) (rule address_write)

lemma searches: "fulfils pre rel (on_pool (searchNearby ST_Distance ST_DWithin lat lng km))"
  by (rule reading(2))
     (auto simp: searchNearby_def stmt_bind_Inr_iff stmt_lift_Inr_iff searchNearby_rows_def split: if_splits)

lemma publishes: "fulfils pre rel (createListing command)"
proof (rule fulfilsI)
  fix w r w' assume w: "inflight w = None" "pre (committed w)" and c: "createListing command w = (r, w')"
  show "inflight w' = None \<and> rel (committed w) (committed w')"
  proof (cases r)
    case (Inl e)
    then show ?thesis using createListing_Inl[of command w e w'] c w to_start[of w] refl by auto
  next
    case (Inr i)
    have "inflight w' = inflight w"
      using c Inr
      by (auto simp: createListing_def publishListing_def Let_def act_bind_Inr_iff pool_reads act_lift_iff
          on_pool_Inr_iff split: if_splits option.splits)
    moreover have "createListing command w = (Inr i, w')" using c Inr by simp
    then have "rel (committed w) (committed w')"
    proof (rule createListing_Inr, goal_cases)
      case (1 role m c p pickup price d')
      show ?case using trans[OF to_start listing_write[OF keeps[OF to_start w(2)] 1(10,11)]] 1(12) by simp
    qed
    ultimately show ?thesis using w by simp
  qed
qed

lemma orders: "fulfils pre rel (createOrder checkout_wiring env command :: (unit world_scheme, created_order) act)"
proof (rule fulfilsI)
  fix w :: world and r w' assume w: "inflight w = None" "pre (committed w)"
    and c: "createOrder checkout_wiring env command w = (r, w')"
  show "inflight w' = None \<and> rel (committed w) (committed w')"
  proof (cases r)
    case (Inl e)
    then have "inflight w' = None" "committed w' = committed w \<or> committed w' = started w"
      using wired.refused[OF w(1)] c by simp_all
    then show ?thesis using to_start[of w] refl by (elim disjE) simp_all
  next
    case (Inr x)
    have cx: "createOrder checkout_wiring env command w = (Inr x, w')" using c Inr by simp
    obtain p where p: "prepareOrder checkout_wiring env command w = (Inr p, at_now w)"
      and wr: "writeOrder checkout_wiring command (pc_total (pp_priced p)) (pp_record p) (started w) =
        Inr (cr_orderId x, committed w')"
      using wired.placed[OF w(1) cx] by metis
    obtain i where "transact (writeOrder checkout_wiring command (pc_total (pp_priced p)) (pp_record p)) (at_now w) = (Inr i, w')"
      using cx p by (auto simp: createOrder_def act_bind_Inr_iff act_lift_iff)
    then have "inflight w' = None" using pg.stays_idle[of "at_now w"] w(1) by simp
    then show ?thesis using trans[OF to_start order_write[OF keeps[OF to_start w(2)] w(2) p wr]] by simp
  qed
qed

lemma settles: "fulfils pre rel (handle settlement_wiring hmac parse_date secret rawBody dto signature)"
proof (rule fulfilsI)
  fix w r w' assume w: "inflight w = None" "pre (committed w)"
    and h: "handle settlement_wiring hmac parse_date secret rawBody dto signature w = (r, w')"
  have a: "fulfils pre rel (applySettlement settlement_wiring n)" for n
    unfolding applySettlement_def by (rule in_transaction) (rule settlement_write)
  show "inflight w' = None \<and> rel (committed w) (committed w')"
    using fulfilsD[OF a _ w] h w refl by (auto simp: handle_def split: option.splits if_splits)
qed

lemma delivers: "fulfils pre rel (Dispatcher.deliver dp row)"
proof (rule fulfilsI)
  fix w r w' assume w: "inflight w = None" "pre (committed w)" and dl: "Dispatcher.deliver dp row w = (r, w')"
  have "inflight w' = None \<and> (rel (committed w) (committed w') \<and> pre (committed w'))"
  proof (rule deliver_keeps[OF w(1) dl, where P = "\<lambda>d. rel (committed w) d \<and> pre d"])
    show "rel (committed w) (committed w) \<and> pre (committed w)" using w(2) refl by simp
    have "rel (committed w) d' \<and> pre d'" if "rel (committed w) d \<and> pre d" "rel d d'" for d d'
      using that trans[of "committed w" d d'] keeps[of d d'] by simp
    note chain = this
    show "rel (committed w) (d\<lparr>now_ts := t\<rparr>) \<and> pre (d\<lparr>now_ts := t\<rparr>)" if "rel (committed w) d \<and> pre d" for d t
      using chain[OF that now] .
    show "rel (committed w) d' \<and> pre d'" if "rel (committed w) d \<and> pre d" "markSent (n_id row) d = Inr (x, d')" for d x d'
      using chain[OF that(1) sent_write[OF _ that(2)]] that(1) by simp
    show "rel (committed w) d' \<and> pre d'" if "rel (committed w) d \<and> pre d"
      "markFailed (n_id row) e MAX_ATTEMPTS d = Inr (x, d')" for d e x d'
      using chain[OF that(1) failed_write[OF _ that(2)]] that(1) by simp
  qed
  then show "inflight w' = None \<and> rel (committed w) (committed w')" by blast
qed

lemma dispatches_rows: "fulfils pre rel (dispatch_rows dp rows summary)"
  by (induction rows arbitrary: summary) (auto intro!: pure bind delivers)

lemma dispatches: "fulfils pre rel (dispatchBatch dp locked limit)"
  unfolding dispatchBatch_def by (intro bind reading(1) dispatches_rows) (rule outbox_ok_claim)

text \<open>Every endpoint, and the writes of what was prepared before.\<close>

lemma endpoints:
  "fulfils pre rel (AuthController_requestOtp g R hmac secret draw dto1)"
  "fulfils pre rel (AuthController_verifyOtp g R hmac secret dto2)"
  "fulfils pre rel (AuthController_listRoles g)"
  "fulfils pre rel (AuthController_switchRole g F dto3)"
  "fulfils pre rel (MerchantOnboardingController_create g F dto4)"
  "fulfils pre rel (KycController_submit g F dto5)"
  "fulfils pre rel (LocationController_create g F dto6)"
  "fulfils pre rel (CatalogController_create g F dto7)"
  "fulfils pre rel (CatalogController_nearby g F ST_Distance ST_DWithin dto8)"
  "fulfils pre rel (OrderController_create g F env dto9 :: (unit world_scheme, created_order) act)"
  "fulfils pre rel (PaymentController_handle g F hmac parse_date secret rawBody dto10 signature)"
  unfolding AuthController_requestOtp_def AuthController_verifyOtp_def AuthController_listRoles_def
    AuthController_switchRole_def MerchantOnboardingController_create_def KycController_submit_def
    LocationController_create_def CatalogController_create_def CatalogController_nearby_def
    OrderController_create_def PaymentController_handle_def
  by (intro routed for_caller requests_code login roles_read registers submits locates publishes searches
      orders settles)+

lemma late_writes:
  "pre (committed w0) \<Longrightarrow> prepareOrder checkout_wiring env command (w0 :: world) = (Inr p, w1) \<Longrightarrow>
     fulfils pre rel (transact (writeOrder checkout_wiring command (pc_total (pp_priced p)) (pp_record p)))"
  "poishaToTaka (cg_priceBdtPoisha c) = Inr price \<Longrightarrow>
     fulfils pre rel (on_pool (insertListing (listing_record c role pk price pickup)))"
  using order_write listing_write by (blast intro: in_transaction in_pool)+

lemma served:
  assumes "serves R d d'" "pre d"
  shows "rel d d'"
  using assms(1)
proof (cases rule: serves.cases)
  case otp_request
  then show ?thesis using fulfilsD[OF endpoints(1) otp_request(3,4)] assms(2) by simp
next
  case otp_verify
  then show ?thesis using fulfilsD[OF endpoints(2) otp_verify(3,4)] assms(2) by simp
next
  case roles
  then show ?thesis using fulfilsD[OF endpoints(3) roles(3,4)] assms(2) by simp
next
  case switch
  then show ?thesis using fulfilsD[OF endpoints(4) switch(3,4)] assms(2) by simp
next
  case merchant
  then show ?thesis using fulfilsD[OF endpoints(5) merchant(3,4)] assms(2) by simp
next
  case kyc
  then show ?thesis using fulfilsD[OF endpoints(6) kyc(3,4)] assms(2) by simp
next
  case location
  then show ?thesis using fulfilsD[OF endpoints(7) location(3,4)] assms(2) by simp
next
  case listing
  then show ?thesis using fulfilsD[OF endpoints(8) listing(3,4)] assms(2) by simp
next
  case nearby
  then show ?thesis using fulfilsD[OF endpoints(9) nearby(3,4)] assms(2) by simp
next
  case order
  then show ?thesis using fulfilsD[OF endpoints(10) order(3,4)] assms(2) by simp
next
  case webhook
  then show ?thesis using fulfilsD[OF endpoints(11) webhook(3,4)] assms(2) by simp
next
  case dispatch
  then show ?thesis using fulfilsD[OF dispatches dispatch(3,4)] assms(2) by simp
next
  case late_order
  then show ?thesis using fulfilsD[OF late_writes(1)[OF of_prices[OF late_order(4)] late_order(3)] late_order(5,6)] assms(2) by simp
next
  case late_listing
  then show ?thesis using fulfilsD[OF late_writes(2)[OF late_listing(3)] late_listing(4,5)] assms(2) by simp
qed

lemma history:
  assumes "(serves R)\<^sup>*\<^sup>* d d'" "pre d"
  shows "rel d d'"
  using assms(1)
proof (induction rule: rtranclp_induct)
  case (step d1 d2)
  then show ?case using served[OF step(2)] keeps[OF step(3) assms(2)] trans by blast
qed (rule refl)

end

section \<open>What each statement does to the tables\<close>

lemma outbox_grows_step: "outbox_grows d d' \<Longrightarrow> platform_step d d'"
  by (rule notify) (auto simp: frames mail_queued_def outbox_grows_def)

lemma findOrCreate_step:
  assumes "findOrCreateByPhone phone d = Inr (i, d')"
  shows "platform_step d d'"
  using findOrCreate_Inr[OF assms]
proof (elim disjE exE conjE)
  assume "d' = d"
  then show ?thesis by (intro tick) (simp_all add: frames)
next
  assume new: "find (\<lambda>u. u_phone_e164 u = phone) (users d) = None" "i \<notin> u_id ` set (users d)"
    and d': "d' = d\<lparr>uuid_n := Suc (uuid_n d), users := users d @ [new_user i phone]\<rparr>"
  have "phone \<notin> u_phone_e164 ` set (users d)" using new(1) by (auto simp: find_None_all)
  then show ?thesis using new(2) by (rule register) (simp_all add: d' frames)
qed

lemma otp_work_steps: "otp_work enqueue phone code t d = Inr (i, d') \<Longrightarrow> platform_steps d d'"
proof -
  assume "otp_work enqueue phone code t d = Inr (i, d')"
  then obtain d1 where "platform_step d d1" "platform_step d1 d'"
    by (auto simp: otp_work_def stmt_bind_Inr_iff dest!: findOrCreate_step enqueue_grows outbox_grows_step)
  then show ?thesis by simp
qed

lemma createMerchantRole_steps:
  assumes "createMerchantRole u p pf d = Inr (x, d')"
  shows "platform_steps d d'"
  using createMerchantRole_Inr[OF assms]
proof (elim disjE exE conjE)
  fix i assume i: "i \<notin> r_id ` set (roles d)" "\<forall>x\<in>set (roles d). \<not> (r_user_id x = u \<and> r_type x = Merchant)"
    and d': "d' = d\<lparr>uuid_n := Suc (uuid_n d), roles := roles d @ [new_merchant_role i u p pf]\<rparr>"
  have "platform_step d d'" by (rule enrol[OF i]) (simp_all add: d' frames)
  then show ?thesis by simp
qed simp

lemma kyc_work_steps:
  assumes "kyc_work command rid nid d = Inr (x, d')"
  shows "platform_steps d d'"
proof -
  obtain k where d': "d' = d\<lparr>users := update_rows (\<lambda>w. u_id w = ky_userId command) (nid_row nid) (users d),
     roles := update_rows (\<lambda>w. r_id w = rid) pending_role (roles d), uuid_n := Suc (uuid_n d),
     kyc_submissions := kyc_submissions d @ [k]\<rparr>"
    using kyc_work_Inr[OF assms] by blast
  have "platform_step d d'"
    by (rule submit_kyc[where u = "ky_userId command" and nid = nid and i = rid and k = k]) (simp_all add: d' frames)
  then show ?thesis by simp
qed

lemma createLocation_Inr:
  assumes "createLocation command d = Inr (i, d')"
  obtains row where "d' = d\<lparr>uuid_n := Suc (uuid_n d), locations := locations d @ [row]\<rparr>"
  using assms by (auto simp: createLocation_def insertLocation_def stmt_bind_Inr_iff split: if_splits)

lemma createLocation_steps:
  assumes "createLocation command d = Inr (i, d')"
  shows "platform_steps d d'"
proof -
  obtain row where d': "d' = d\<lparr>uuid_n := Suc (uuid_n d), locations := locations d @ [row]\<rparr>"
    using assms by (rule createLocation_Inr)
  have "platform_step d d'" by (rule address[where l = row]) (simp_all add: d' frames)
  then show ?thesis by simp
qed

lemma insertListing_step:
  assumes price: "poishaToTaka (cg_priceBdtPoisha command) = Inr price"
    and ins: "insertListing (listing_record command role p price pickup) d = Inr (i, d')"
  shows "platform_step d d'"
proof -
  let ?r = "listing_record command role p price pickup"
  obtain n stock where n: "numeric_in price = Inr n" "0 \<le> n"
    and d': "d' = d\<lparr>uuid_n := Suc (uuid_n d), listings := listings d @ [new_listing_row i n stock ?r]\<rparr>"
    using ins by (rule insertListing_Inr) (rule that, simp_all add: listing_record_def)
  have "n < 10 ^ 12" using price n(1) by (auto simp: poishaToTaka_Inr_iff numeric_in_money_text)
  then show ?thesis
    using n(2) by (intro publish[where l = "new_listing_row i n stock ?r"]) (simp_all add: d' frames new_listing_row_def)
qed

text \<open>
  The writes of a checkout are one step of the platform, whenever they run after the checkout was
  prepared: the prices and rules it applied are those it read.
\<close>

lemma writeOrder_step:
  assumes prices: "prices_ok (committed w)" and p: "prepareOrder checkout_wiring env command w = (Inr p, w1)"
    and wr: "writeOrder checkout_wiring command (pc_total (pp_priced p)) (pp_record p) d = Inr (i, d')"
  shows "platform_step d d'"
proof -
  obtain resolved where rs: "resolveCartLines (co_lines command) (started w) = Inr (resolved, started w)"
    and ok: "\<forall>line\<in>set resolved. orderable (co_merchantRoleId command) line"
    and pc: "priceCart env command resolved = Inr (pp_priced p)"
    and rec: "orderRecord command resolved (pp_sameCity p) (pp_priced p) = Inr (pp_record p)"
    using wired.prepare_Inr[OF p] unfolding checkout_wiring_simps by metis
  have src: "\<exists>l. resolved_from (started w) line l" if "line \<in> set resolved" for line
    using catalog.faithful[OF rs that] .
  have started_prices: "prices_ok (started w)" using prices by simp
  have pos: "\<forall>line\<in>set resolved. 0 \<le> rs_unitPrice line \<and> 1 \<le> rs_quantity line"
    using ok src resolved_price[OF started_prices] started_prices
    by (fastforce simp: orderable_def prices_ok_def resolved_from_def)
  show ?thesis
    using wr
  proof (rule wired.write_Inr, goal_cases)
    case (1 subtotal fee total_bdt advance cap items ev t amount)
    let ?o1 = "order_of i (pp_record p) subtotal fee total_bdt advance cap"
    note o1 = orderRecord_Inr[OF rec]
    have snap: "list_all2 snapshot resolved items" by (rule snapshot_items[OF o1(6) 1(14)])
    note exact = priced_exact[OF pc rec snap pos 1(3-7,9)]
    have cod: "co_paymentMethod command = Cod \<Longrightarrow> advance = 0" using priceCart_Inr(7)[OF pc] exact(4) by simp
    have wf: "order_wf ?o1 items"
      using exact 1(10,11) o1(10) cod by (simp add: order_wf_def order_of_def)
    have pay: "payment_of ?o1 t"
      using 1(20,21,23,26,27) exact(4,8) o1(10) by (auto simp: payment_of_def order_of_def poishaToTaka_numeric split: if_splits)
    have mine: "\<forall>row\<in>set items. oi_order_id row = i"
      using list_all2_in2[OF 1(14)] by (force simp: item_written_def)
    show ?case
      by (rule place[OF wf _ _ _ _ 1(12) _ 1(13) pay 1(22,36,19,15)])
         (use mine 1(2,29-35) in \<open>simp_all add: order_of_def frames mail_queued_def\<close>)
  qed
qed

lemma settlementWork_steps:
  assumes "settlementWork settlement_wiring notice d = Inr (res, d')"
  shows "platform_steps d d'"
  using assms
proof (cases rule: paid.work_Inr)
  case (failed p)
  have "platform_step d d'"
    using failed(5)
  proof (rule paid.recordFailure_Inr, goal_cases)
    case (1 o1 e)
    show ?case by (rule refuse[OF failed(1,2) 1(3,4,5,10)]) (use 1 in \<open>simp_all add: frames mail_queued_def\<close>)
  qed
  then show ?thesis by simp
next
  case (settled p)
  have "platform_step d d'"
    using settled(5)
  proof (rule paid.settle_Inr, goal_cases)
    case (1 t o1 e)
    show ?case by (rule settle[OF 1(1) settled(1,2) 1(3,4,5,6,11)]) (use 1 in \<open>simp_all add: frames mail_queued_def\<close>)
  qed
  then show ?thesis by simp
qed simp_all

lemma mark_steps:
  "markSent i d = Inr (x, d') \<Longrightarrow> platform_steps d d'"
  "markFailed i e MAX_ATTEMPTS d = Inr (x, d') \<Longrightarrow> platform_steps d d'"
proof -
  assume "markSent i d = Inr (x, d')"
  then have "platform_step d d'"
    by (intro deliver[where f = "sent_row (now_ts d)" and i = i]) (auto simp: markSent_def frames)
  then show "platform_steps d d'" by simp
next
  assume "markFailed i e MAX_ATTEMPTS d = Inr (x, d')"
  then have "platform_step d d'"
    by (intro deliver[where f = "failed_row e MAX_ATTEMPTS" and i = i]) (auto simp: markFailed_def frames)
  then show "platform_steps d d'" by simp
qed

section \<open>The platform as a contract\<close>

lemma tick_now: "platform_step d (d\<lparr>now_ts := t\<rparr>)"
  by (rule tick) (simp_all add: frames)

interpretation platform: service_contract prices_ok platform_steps
proof unfold_locales
  show "platform_steps d d' \<Longrightarrow> prices_ok d \<Longrightarrow> prices_ok d'" for d d'
    by (induction rule: rtranclp_induct) (auto intro: prices_ok_step)
  show "platform_steps d (d\<lparr>now_ts := t\<rparr>)" for d t using tick_now by (rule r_into_rtranclp)
  show "platform_steps d d'" if "poishaToTaka (cg_priceBdtPoisha goods) = Inr price"
    "insertListing (listing_record goods role pk price pickup) d = Inr (i, d')" for d goods price role pk pickup i d'
    using insertListing_step[OF that] by (rule r_into_rtranclp)
  show "platform_steps d d'" if "prices_ok (committed w)" "prepareOrder checkout_wiring env command w = (Inr p, w1)"
    "writeOrder checkout_wiring command (pc_total (pp_priced p)) (pp_record p) d = Inr (i, d')"
    for d env command p i d' and w w1 :: world
    using writeOrder_step[OF that] by (rule r_into_rtranclp)
  show "platform_steps a c" if "platform_steps a b" "platform_steps b c" for a b c
    using that by (rule rtranclp_trans)
qed (rule rtranclp.rtrancl_refl | assumption | (erule otp_work_steps createMerchantRole_steps kyc_work_steps
     createLocation_steps settlementWork_steps mark_steps))+

lemma history_steps:
  assumes "(serves R)\<^sup>*\<^sup>* d d'" "prices_ok d"
  shows "platform_steps d d'"
  using assms by (rule platform.history)

end
