(* ===== verification/Bundles.thy ===== *)
theory Bundles
  imports Render ChannelPolicy
begin

text \<open>
  The two locale bundles of the repository, \<open>locales/bn/notification.json\<close> and
  \<open>locales/en/notification.json\<close>, as \<open>render.ts\<close> loads them, and what they cover: which
  parameters each template of the channel policy needs. HOL's characters end at 255, so a
  Bangla text is held as the bytes of its UTF-8 encoding, which is how the file stores it; the
  keys and the placeholders are ASCII, and no byte of a multi-byte code is.
\<close>

section \<open>Bangla text\<close>

text \<open>The three bytes of a code point from 2048 to 65535; the Bangla block is within.\<close>

definition utf8_char :: "nat \<Rightarrow> string" where
  "utf8_char c = [char_of (224 + c div 4096), char_of (128 + c div 64 mod 64), char_of (128 + c mod 64)]"

definition utf8 :: "nat list \<Rightarrow> string" where
  "utf8 cs = concat (map utf8_char cs)"

section \<open>The files\<close>

text \<open>The two files have one shape; \<open>texts\<close> are the title and body at each place.\<close>

type_synonym texts = "(string \<times> template) list"

definition message_at :: "texts \<Rightarrow> string \<Rightarrow> json" where
  "message_at texts place =
     (let t = the (map_of texts place) in JObj [(''title'', JStr (tp_title t)), (''body'', JStr (tp_body t))])"

definition bundle_of :: "texts \<Rightarrow> (string \<times> json) list" where
  "bundle_of texts =
     [(''otp'', message_at texts ''otp''),
      (''order'', JObj [(''confirmed'', message_at texts ''order.confirmed'')]),
      (''payment'', JObj
         [(''received'', message_at texts ''payment.received''),
          (''failed'', message_at texts ''payment.failed'')]),
      (''delivery'', JObj
         [(''out_for_delivery'', message_at texts ''delivery.out_for_delivery''),
          (''delivered'', message_at texts ''delivery.delivered'')])]"

definition texts_bn :: texts where
  "texts_bn =
    [(''otp'',
       \<lparr>tp_title = utf8 [2453, 2507, 2465],
        tp_body = utf8 [2438, 2474, 2472, 2494, 2480] @ '' '' @ utf8 [2453, 2507, 2465] @ '' {code}'' @
                   utf8 [2404] @ '' '' @ utf8 [2453, 2494, 2441, 2453, 2503] @ '' '' @
                   utf8 [2476, 2482, 2476, 2503, 2472] @ '' '' @ utf8 [2472, 2494, 2404]\<rparr>),
     (''order.confirmed'',
       \<lparr>tp_title = utf8 [2437, 2480, 2509, 2465, 2494, 2480] @ '' '' @
                    utf8 [2489, 2479, 2492, 2503, 2459, 2503],
        tp_body = utf8 [2437, 2480, 2509, 2465, 2494, 2480] @ '' {orderRef} '' @
                   utf8 [2472, 2503, 2451, 2479, 2492, 2494] @ '' '' @
                   utf8 [2489, 2479, 2492, 2503, 2459, 2503, 2404]\<rparr>),
     (''payment.received'',
       \<lparr>tp_title = utf8 [2474, 2503, 2478, 2503, 2472, 2509, 2463] @ '' '' @
                    utf8 [2474, 2503, 2479, 2492, 2503, 2459, 2495],
        tp_body = ''{amount} '' @ utf8 [2463, 2494, 2453, 2494] @ '' '' @
                   utf8 [2474, 2503, 2479, 2492, 2503, 2459, 2495, 2404] @ '' '' @
                   utf8 [2437, 2480, 2509, 2465, 2494, 2480] @ '' {orderRef} '' @
                   utf8 [2472, 2495, 2486, 2509, 2458, 2495, 2468, 2404]\<rparr>),
     (''payment.failed'',
       \<lparr>tp_title = utf8 [2474, 2503, 2478, 2503, 2472, 2509, 2463] @ '' '' @
                    utf8 [2489, 2479, 2492, 2472, 2495],
        tp_body = utf8 [2437, 2480, 2509, 2465, 2494, 2480] @ '' {orderRef} '' @ utf8 [2447, 2480] @
                   '' '' @ utf8 [2474, 2503, 2478, 2503, 2472, 2509, 2463] @ '' '' @
                   utf8 [2489, 2479, 2492, 2472, 2495, 2404]\<rparr>),
     (''delivery.out_for_delivery'',
       \<lparr>tp_title = utf8 [2474, 2469, 2503] @ '' '' @ utf8 [2438, 2459, 2503],
        tp_body = utf8 [2437, 2480, 2509, 2465, 2494, 2480] @ '' {orderRef} '' @ utf8 [2474, 2469, 2503] @
                   '' '' @ utf8 [2438, 2459, 2503, 2404]\<rparr>),
     (''delivery.delivered'',
       \<lparr>tp_title = utf8 [2474, 2508, 2433, 2459, 2503, 2459, 2503],
        tp_body = utf8 [2437, 2480, 2509, 2465, 2494, 2480] @ '' {orderRef} '' @
                   utf8 [2474, 2508, 2433, 2459, 2503] @ '' '' @ utf8 [2455, 2503, 2459, 2503, 2404]\<rparr>)]"

definition texts_en :: texts where
  "texts_en =
    [(''otp'',
       \<lparr>tp_title = ''Code'',
        tp_body = ''Your code is {code}. Do not share it.''\<rparr>),
     (''order.confirmed'',
       \<lparr>tp_title = ''Order placed'',
        tp_body = ''Order {orderRef} received.''\<rparr>),
     (''payment.received'',
       \<lparr>tp_title = ''Payment received'',
        tp_body = ''Received {amount} BDT. Order {orderRef} confirmed.''\<rparr>),
     (''payment.failed'',
       \<lparr>tp_title = ''Payment failed'',
        tp_body = ''Payment for order {orderRef} failed.''\<rparr>),
     (''delivery.out_for_delivery'',
       \<lparr>tp_title = ''On the way'',
        tp_body = ''Order {orderRef} is on the way.''\<rparr>),
     (''delivery.delivered'',
       \<lparr>tp_title = ''Delivered'',
        tp_body = ''Order {orderRef} delivered.''\<rparr>)]"

definition bundle_files :: "string \<Rightarrow> (string \<times> json) list option" where
  "bundle_files locale =
     (if locale = ''bn'' then Some (bundle_of texts_bn)
      else if locale = ''en'' then Some (bundle_of texts_en) else None)"

definition TEMPLATES :: templates where
  "TEMPLATES = (case loadTemplates bundle_files of Inl e \<Rightarrow> [] | Inr ts \<Rightarrow> ts)"

section \<open>Placeholders of Bangla text\<close>

lemma no_brace: "128 \<le> n \<Longrightarrow> n < 256 \<Longrightarrow> char_of (n :: nat) \<noteq> CHR ''{''"
  by (auto dest: arg_cong[where f = "of_char :: char \<Rightarrow> nat"])

lemma placeholders_utf8_char:
  assumes "2048 \<le> c" "c < 65536"
  shows "placeholders (utf8_char c @ s) = placeholders s"
proof -
  have n: "128 \<le> 224 + c div 4096" "224 + c div 4096 < 256" "128 \<le> 128 + c div 64 mod 64" "128 + c div 64 mod 64 < 256"
    "128 \<le> 128 + c mod 64" "128 + c mod 64 < 256"
    using assms(2) by (simp_all add: less_mult_imp_div_less less_trans[of _ 64 128])
  show ?thesis using no_brace[OF n(1,2)] no_brace[OF n(3,4)] no_brace[OF n(5,6)] by (simp add: utf8_char_def)
qed

lemma placeholders_utf8:
  "\<forall>c\<in>set cs. 2048 \<le> c \<and> c < 65536 \<Longrightarrow> placeholders (utf8 cs @ s) = placeholders s"
  by (induction cs) (simp_all add: utf8_def placeholders_utf8_char)

lemma placeholders_utf8_all: "\<forall>c\<in>set cs. 2048 \<le> c \<and> c < 65536 \<Longrightarrow> placeholders (utf8 cs) = []"
  using placeholders_utf8[of cs "[]"] by simp

section \<open>Loading\<close>

definition lookup_template :: "templates \<Rightarrow> string \<Rightarrow> string \<Rightarrow> template option" where
  "lookup_template ts key locale = (case map_of ts key of None \<Rightarrow> None | Some by_locale \<Rightarrow> map_of by_locale locale)"

definition one_line :: "string \<Rightarrow> bool" where
  "one_line s \<longleftrightarrow> (\<forall>c\<in>set s. of_char c \<noteq> (10::nat) \<and> of_char c \<noteq> (13::nat))"

lemma match_field_of:
  assumes "one_line p"
  shows "match_field (p @ ''.title'') = Some (p, True)" "match_field (p @ ''.body'') = Some (p, False)"
proof -
  show "match_field (p @ ''.title'') = Some (p, True)"
    using assms by (simp add: match_field_def one_line_def Let_def)
  have "drop (length p - 1) (p @ ''.body'') \<noteq> ''.title''"
    by (auto dest: arg_cong[where f = last])
  then show "match_field (p @ ''.body'') = Some (p, False)"
    using assms by (auto simp: match_field_def one_line_def Let_def)
qed

text \<open>The two entries of a message, and what reading them adds.\<close>

definition entries_at :: "texts \<Rightarrow> string \<Rightarrow> (string \<times> json) list" where
  "entries_at texts p =
     (let t = the (map_of texts p) in [(p @ ''.title'', JStr (tp_title t)), (p @ ''.body'', JStr (tp_body t))])"

lemma lookup_entries:
  assumes "one_line p"
  shows "lookup_template (foldl (add_entry locale) ts (entries_at texts p)) key l =
    (if key = ''notification.'' @ p \<and> l = locale then Some (the (map_of texts p)) else lookup_template ts key l)"
  using assms
  by (auto simp: entries_at_def Let_def add_entry_def match_field_of lookup_template_def empty_template_def
      split: option.splits)

lemma lookup_all_entries:
  assumes "\<forall>p\<in>set ps. one_line p"
  shows "lookup_template (foldl (add_entry locale) ts (concat (map (entries_at texts) ps))) key l =
    (if (\<exists>p\<in>set ps. key = ''notification.'' @ p) \<and> l = locale then Some (the (map_of texts (drop 13 key)))
     else lookup_template ts key l)"
  using assms
proof (induction ps arbitrary: ts)
  case (Cons p ps)
  then show ?case
    unfolding list.map concat.simps foldl_append
    by (subst Cons.IH) (auto simp: lookup_entries)
qed simp

definition places :: "string list" where
  "places = [''otp'', ''order.confirmed'', ''payment.received'', ''payment.failed'',
     ''delivery.out_for_delivery'', ''delivery.delivered'']"

lemma places_one_line: "\<forall>p\<in>set places. one_line p"
  by (simp add: places_def one_line_def)

lemma flatten_bundle: "flatten (bundle_of texts) '''' [] = concat (map (entries_at texts) places)"
  by (simp add: bundle_of_def message_at_def entries_at_def places_def Let_def)

lemma lookup_TEMPLATES:
  assumes "p \<in> set places"
  shows "lookup_template TEMPLATES (''notification.'' @ p) ''bn'' = Some (the (map_of texts_bn p))"
    "lookup_template TEMPLATES (''notification.'' @ p) ''en'' = Some (the (map_of texts_en p))"
proof -
  have ts: "TEMPLATES = foldl (add_entry ''en'') (foldl (add_entry ''bn'') [] (concat (map (entries_at texts_bn) places)))
      (concat (map (entries_at texts_en) places))"
    by (simp add: TEMPLATES_def loadTemplates_def LOCALES_def SOURCE_LOCALE_def bundle_files_def flatten_bundle)
  show "lookup_template TEMPLATES (''notification.'' @ p) ''bn'' = Some (the (map_of texts_bn p))"
    "lookup_template TEMPLATES (''notification.'' @ p) ''en'' = Some (the (map_of texts_en p))"
    unfolding ts lookup_all_entries[OF places_one_line] using assms by simp_all
qed

section \<open>What the messages need\<close>

definition event_params :: "string \<Rightarrow> string list" where
  "event_params event =
     (if event = ''otp'' then [''code'']
      else if event = ''payment_received'' then [''orderRef'', ''amount''] else [''orderRef''])"

definition params_at :: "string \<Rightarrow> string set" where
  "params_at p =
     (if p = ''otp'' then {''code''} else if p = ''payment.received'' then {''orderRef'', ''amount''} else {''orderRef''})"

definition names_in :: "template \<Rightarrow> string set" where
  "names_in t = set (placeholders (tp_title t)) \<union> set (placeholders (tp_body t))"

lemma placeholder_literals:
  "placeholder_at (''code}'' @ s) = Some (''code'', s)"
  "placeholder_at (''orderRef}'' @ s) = Some (''orderRef'', s)"
  "placeholder_at (''amount}'' @ s) = Some (''amount'', s)"
  by (simp_all add: placeholder_at_def is_word_char_def is_digit_def)

lemmas scan = names_in_def placeholders_utf8 placeholders_utf8_all placeholder_literals[simplified]

lemma names_bn:
  "names_in (the (map_of texts_bn ''otp'')) = {''code''}"
  "names_in (the (map_of texts_bn ''order.confirmed'')) = {''orderRef''}"
  "names_in (the (map_of texts_bn ''payment.received'')) = {''orderRef'', ''amount''}"
  "names_in (the (map_of texts_bn ''payment.failed'')) = {''orderRef''}"
  "names_in (the (map_of texts_bn ''delivery.out_for_delivery'')) = {''orderRef''}"
  "names_in (the (map_of texts_bn ''delivery.delivered'')) = {''orderRef''}"
  by (simp add: texts_bn_def scan insert_commute; fail)+

lemma names_en:
  "names_in (the (map_of texts_en ''otp'')) = {''code''}"
  "names_in (the (map_of texts_en ''order.confirmed'')) = {''orderRef''}"
  "names_in (the (map_of texts_en ''payment.received'')) = {''orderRef'', ''amount''}"
  "names_in (the (map_of texts_en ''payment.failed'')) = {''orderRef''}"
  "names_in (the (map_of texts_en ''delivery.out_for_delivery'')) = {''orderRef''}"
  "names_in (the (map_of texts_en ''delivery.delivered'')) = {''orderRef''}"
  by (simp add: texts_en_def scan insert_commute; fail)+

text \<open>The place of each template of the policy, and the parameters its event needs.\<close>

definition event_place :: "string \<Rightarrow> string" where
  "event_place event =
     (if event = ''otp'' then ''otp'' else if event = ''order_confirmed'' then ''order.confirmed''
      else if event = ''payment_received'' then ''payment.received''
      else if event = ''payment_failed'' then ''payment.failed''
      else if event = ''out_for_delivery'' then ''delivery.out_for_delivery'' else ''delivery.delivered'')"

lemma policy_events:
  assumes "templateKeyFor event = Inr key"
  shows "event \<in> {''otp'', ''order_confirmed'', ''payment_received'', ''payment_failed'', ''out_for_delivery'', ''delivered''}"
proof -
  have "event \<in> fst ` set POLICIES"
    using assms by (auto simp: templateKeyFor_def dest!: map_of_SomeD split: option.splits intro: rev_image_eqI)
  then show ?thesis unfolding POLICIES_def by simp
qed

lemma event_place_key:
  assumes "templateKeyFor event = Inr key"
  shows "key = ''notification.'' @ event_place event" "event_place event \<in> set places"
    "names_in (the (map_of texts_bn (event_place event))) = set (event_params event)"
    "names_in (the (map_of texts_en (event_place event))) = set (event_params event)"
proof -
  have names: "e \<in> {''otp'', ''order_confirmed'', ''payment_received'', ''payment_failed'', ''out_for_delivery'', ''delivered''} \<Longrightarrow>
    templateKeyFor e = Inr (''notification.'' @ event_place e) \<and> event_place e \<in> set places \<and>
    names_in (the (map_of texts_bn (event_place e))) = set (event_params e) \<and>
    names_in (the (map_of texts_en (event_place e))) = set (event_params e)" for e
    unfolding insert_iff empty_iff
    by (elim disjE FalseE;
        simp add: templateKeyFor_def POLICIES_def places_def event_params_def event_place_def names_bn names_en)
  show "key = ''notification.'' @ event_place event" "event_place event \<in> set places"
    "names_in (the (map_of texts_bn (event_place event))) = set (event_params event)"
    "names_in (the (map_of texts_en (event_place event))) = set (event_params event)"
    using names[OF policy_events[OF assms]] assms by simp_all
qed

text \<open>
  The bundles cover the channel policy: in both languages a message of an event is produced
  exactly when the event's parameters are given, and they are the same in both.
\<close>

lemma bundles_cover_policy:
  assumes "templateKeyFor event = Inr key" "lang = ''bn'' \<or> lang = ''en''"
  shows "(\<exists>m. renderTemplate TEMPLATES key lang params = Inr m) \<longleftrightarrow> set (event_params event) \<subseteq> dom (map_of params)"
proof -
  note place = event_place_key[OF assms(1)]
  obtain t where t: "lookup_template TEMPLATES key lang = Some t" "names_in t = set (event_params event)"
    using lookup_TEMPLATES[OF place(2)] place assms(2) by metis
  then obtain by_locale where "map_of TEMPLATES key = Some by_locale" "map_of by_locale lang = Some t"
    by (auto simp: lookup_template_def split: option.splits)
  then show ?thesis
    unfolding renderTemplate_total_iff by (simp flip: t(2) add: names_in_def)
qed

end
