(* ===== verification/Drain.thy ===== *)
theory Drain
  imports Dispatcher
begin

text \<open>
  What repeated passes of the dispatcher do to the outbox when the database answers: every
  message leaves the queue, whatever the gateways do, and gateways that accept get each message
  once, the oldest first. One pass is described by the function it applies to the rows
  (\<open>pass_effect\<close>); the passes compose these functions.
\<close>

section \<open>Messages and the queue\<close>

text \<open>
  The queue is what \<open>claimPending\<close> reads without its limit: the pending rows by creation
  time, rows created in the same instant in the order they were inserted.
\<close>

definition waiting :: "outbox_row \<Rightarrow> bool" where
  "waiting r \<longleftrightarrow> n_status r = N_Pending"

definition queue :: "db \<Rightarrow> outbox_row list" where
  "queue d = sort_key n_created_at (filter waiting (outbox d))"

definition rendered :: "dispatcher \<Rightarrow> outbox_row \<Rightarrow> err + template" where
  "rendered dp r = renderTemplate (dp_templates dp) (n_template_key r) (n_language r) (n_params r)"

definition sendable :: "dispatcher \<Rightarrow> outbox_row \<Rightarrow> bool" where
  "sendable dp r \<longleftrightarrow> (case rendered dp r of Inl _ \<Rightarrow> False | Inr _ \<Rightarrow> True)"

definition message_of :: "dispatcher \<Rightarrow> outbox_row \<Rightarrow> template" where
  "message_of dp r = (case rendered dp r of Inl _ \<Rightarrow> \<lparr>tp_title = [], tp_body = []\<rparr> | Inr m \<Rightarrow> m)"

definition sms_of :: "dispatcher \<Rightarrow> outbox_row \<Rightarrow> string \<times> string" where
  "sms_of dp r = (n_phone_e164 r, tp_body (message_of dp r))"

definition push_of :: "dispatcher \<Rightarrow> outbox_row \<Rightarrow> string \<times> string \<times> string" where
  "push_of dp r = (n_user_id r, tp_title (message_of dp r), tp_body (message_of dp r))"

text \<open>The gateways accept whatever they are given; the message of a row was handed over.\<close>

definition accepting :: "dispatcher \<Rightarrow> bool" where
  "accepting dp \<longleftrightarrow> (\<forall>n p b. dp_sms dp n p b = None) \<and> (\<forall>n u t b. dp_push dp n u t b = None)"

definition handed_over :: "dispatcher \<Rightarrow> gateway_world \<Rightarrow> outbox_row \<Rightarrow> bool" where
  "handed_over dp w r \<longleftrightarrow> sendable dp r \<and>
     (if n_channel r = Sms then sms_of dp r \<in> set (sms_log w) else push_of dp r \<in> set (push_log w))"

text \<open>The database answers, and no two rows share an id.\<close>

definition answering :: "gateway_world \<Rightarrow> bool" where
  "answering w \<longleftrightarrow> inflight w = None \<and> tx_faults w = [] \<and> distinct (map n_id (outbox (committed w)))"

lemma answeringD:
  "answering w \<Longrightarrow> inflight w = None" "answering w \<Longrightarrow> tx_faults w = []"
  "answering w \<Longrightarrow> distinct (map n_id (outbox (committed w)))"
  by (simp_all add: answering_def)

lemma same_id_same_row:
  "answering w \<Longrightarrow> r \<in> set (outbox (committed w)) \<Longrightarrow> s \<in> set (outbox (committed w)) \<Longrightarrow> n_id r = n_id s \<Longrightarrow> r = s"
  by (auto simp: answering_def distinct_map dest: inj_onD)

section \<open>One delivery\<close>

text \<open>\<open>handled dp r r'\<close>: one delivery of \<open>r\<close> left \<open>r'\<close>.\<close>

definition handled :: "dispatcher \<Rightarrow> outbox_row \<Rightarrow> outbox_row \<Rightarrow> bool" where
  "handled dp r r' \<longleftrightarrow> (\<exists>t. r' = sent_row t r \<and> sendable dp r) \<or> (\<exists>e. r' = failed_row e MAX_ATTEMPTS r)"

lemma row_marks [simp]:
  "n_status (sent_row t r) = N_Sent" "n_id (sent_row t r) = n_id r"
  "n_status (failed_row e k r) \<noteq> N_Sent" "n_id (failed_row e k r) = n_id r"
  by (simp_all add: sent_row_def failed_row_def)

lemma handled_id: "handled dp r r' \<Longrightarrow> n_id r' = n_id r"
  by (auto simp: handled_def)

lemma handled_sent: "handled dp r r' \<Longrightarrow> n_status r' = N_Sent \<Longrightarrow> sendable dp r"
  by (auto simp: handled_def)

definition sms_part :: "dispatcher \<Rightarrow> outbox_row list \<Rightarrow> (string \<times> string) list" where
  "sms_part dp rows = map (sms_of dp) (filter (\<lambda>r. n_channel r = Sms) rows)"

definition push_part :: "dispatcher \<Rightarrow> outbox_row list \<Rightarrow> (string \<times> string \<times> string) list" where
  "push_part dp rows = map (push_of dp) (filter (\<lambda>r. n_channel r \<noteq> Sms) rows)"

lemma parts_append:
  "sms_part dp (xs @ ys) = sms_part dp xs @ sms_part dp ys"
  "push_part dp (xs @ ys) = push_part dp xs @ push_part dp ys"
  by (simp_all add: sms_part_def push_part_def)

lemma parts_Nil [simp]: "sms_part dp [] = []" "push_part dp [] = []"
  by (simp_all add: sms_part_def push_part_def)

lemma deliver_unrendered:
  assumes "answering w" "rendered dp row = Inl e"
  shows "deliver dp row w = (Inr Delivery_Failed, w\<lparr>committed := (started w)\<lparr>outbox :=
    update_rows (\<lambda>r. n_id r = n_id row) (failed_row (dp_message dp e) MAX_ATTEMPTS) (outbox (committed w))\<rparr>\<rparr>)"
  using assms by (simp add: deliver_def rendered_def transact_mark answeringD)

lemma deliver_rendered:
  assumes "answering w" "rendered dp row = Inr m"
  obtains (accepted) "deliver dp row w = (Inr Delivery_Sent, w\<lparr>gateway_calls := Suc (gateway_calls w),
      sms_log := sms_log w @ sms_part dp [row], push_log := push_log w @ push_part dp [row],
      committed := (started w)\<lparr>outbox :=
        update_rows (\<lambda>r. n_id r = n_id row) (sent_row (clock w)) (outbox (committed w))\<rparr>\<rparr>)"
  | (refused) e where "\<not> accepting dp"
      "deliver dp row w = (Inr Delivery_Failed, w\<lparr>gateway_calls := Suc (gateway_calls w),
        committed := (started w)\<lparr>outbox :=
          update_rows (\<lambda>r. n_id r = n_id row) (failed_row e MAX_ATTEMPTS) (outbox (committed w))\<rparr>\<rparr>)"
proof -
  let ?answer = "if n_channel row = Sms then dp_sms dp (gateway_calls w) (n_phone_e164 row) (tp_body m)
    else dp_push dp (gateway_calls w) (n_user_id row) (tp_title m) (tp_body m)"
  note d = deliver_def transact_mark answeringD[OF assms(1)] assms(2)[unfolded rendered_def] started_def
  show thesis
  proof (cases ?answer)
    case None
    then show thesis
      by (intro accepted, cases "n_channel row")
         (simp_all add: d sms_send_def push_send_def Let_def sms_part_def push_part_def sms_of_def push_of_def
           message_of_def assms(2))
  next
    case (Some msg)
    then have "\<not> accepting dp" by (auto simp: accepting_def split: if_splits)
    moreover have "deliver dp row w = (Inr Delivery_Failed, w\<lparr>gateway_calls := Suc (gateway_calls w),
        committed := (started w)\<lparr>outbox := update_rows (\<lambda>r. n_id r = n_id row)
          (failed_row (dp_message dp (PlainError msg)) MAX_ATTEMPTS) (outbox (committed w))\<rparr>\<rparr>)"
      using Some by (cases "n_channel row") (simp_all add: d sms_send_def push_send_def Let_def)
    ultimately show thesis by (rule refused)
  qed
qed

section \<open>One pass\<close>

text \<open>
  \<open>pass_effect dp rows w w' g\<close>: delivering \<open>rows\<close> one after the other led from \<open>w\<close> to
  \<open>w'\<close>, each row of the outbox became its image under \<open>g\<close>, and the gateways got exactly the
  messages of the rows that ended as sent, in this order.
\<close>

definition sent_by :: "(outbox_row \<Rightarrow> outbox_row) \<Rightarrow> outbox_row list \<Rightarrow> outbox_row list" where
  "sent_by g rows = filter (\<lambda>r. n_status (g r) = N_Sent) rows"

lemma sent_by_append: "sent_by g (xs @ ys) = sent_by g xs @ sent_by g ys"
  by (simp add: sent_by_def)

lemma sent_by_cong: "(\<And>r. r \<in> set rows \<Longrightarrow> f r = g r) \<Longrightarrow> sent_by f rows = sent_by g rows"
  unfolding sent_by_def by (rule filter_cong) simp_all

definition pass_effect ::
  "dispatcher \<Rightarrow> outbox_row list \<Rightarrow> gateway_world \<Rightarrow> gateway_world \<Rightarrow> (outbox_row \<Rightarrow> outbox_row) \<Rightarrow> bool" where
  "pass_effect dp rows w w' g \<longleftrightarrow>
     outbox (committed w') = map g (outbox (committed w)) \<and>
     (\<forall>r\<in>set (outbox (committed w)). if r \<in> set rows then handled dp r (g r) else g r = r) \<and>
     sms_log w' = sms_log w @ sms_part dp (sent_by g rows) \<and>
     push_log w' = push_log w @ push_part dp (sent_by g rows) \<and>
     (accepting dp \<longrightarrow> (\<forall>r\<in>set rows. sendable dp r \<longrightarrow> n_status (g r) = N_Sent))"

lemma pass_effect_row:
  "pass_effect dp rows w w' g \<Longrightarrow> r \<in> set (outbox (committed w)) \<Longrightarrow>
     if r \<in> set rows then handled dp r (g r) else g r = r"
  by (simp add: pass_effect_def)

lemma pass_effect_keeps_ids:
  assumes "pass_effect dp rows w w' g" "r \<in> set (outbox (committed w))"
  shows "n_id (g r) = n_id r"
  using pass_effect_row[OF assms] by (auto simp: handled_id split: if_splits)

lemma pass_effect_answering:
  assumes "pass_effect dp rows w w' g" "answering w" "inflight w' = None" "tx_faults w' = []"
  shows "answering w'"
proof -
  have "map n_id (outbox (committed w')) = map n_id (outbox (committed w))"
    using assms(1) pass_effect_keeps_ids[OF assms(1)] by (simp add: pass_effect_def)
  then show ?thesis using assms(2-4) by (simp add: answering_def)
qed

text \<open>A delivery is the pass over one row.\<close>

lemma one_row_effect:
  assumes "answering w" "row \<in> set (outbox (committed w))"
    and "outbox (committed w') = update_rows (\<lambda>r. n_id r = n_id row) f (outbox (committed w))"
    and "handled dp row (f row)"
    and "sms_log w' = sms_log w @ sms_part dp (sent_by f [row])" "push_log w' = push_log w @ push_part dp (sent_by f [row])"
    and "accepting dp \<Longrightarrow> sendable dp row \<Longrightarrow> n_status (f row) = N_Sent"
  shows "pass_effect dp [row] w w' (\<lambda>r. if n_id r = n_id row then f r else r)"
proof -
  let ?g = "\<lambda>r. if n_id r = n_id row then f r else r"
  have eq: "n_id r = n_id row \<longleftrightarrow> r = row" if "r \<in> set (outbox (committed w))" for r
    using same_id_same_row[OF assms(1) that assms(2)] by blast
  have "sent_by ?g [row] = sent_by f [row]" by (rule sent_by_cong) simp
  moreover have "if r \<in> set [row] then handled dp r (?g r) else ?g r = r" if "r \<in> set (outbox (committed w))" for r
    using assms(4) eq[OF that] by (cases "r = row") simp_all
  ultimately show ?thesis
    unfolding pass_effect_def using assms(3-7) by (simp add: update_rows_def)
qed

lemma deliver_effect:
  assumes "answering w" "row \<in> set (outbox (committed w))"
  shows "\<exists>s w' g. deliver dp row w = (Inr s, w') \<and> answering w' \<and> pass_effect dp [row] w w' g"
proof (cases "rendered dp row")
  case (Inl e)
  let ?f = "failed_row (dp_message dp e) MAX_ATTEMPTS"
  let ?w = "w\<lparr>committed := (started w)\<lparr>outbox := update_rows (\<lambda>r. n_id r = n_id row) ?f (outbox (committed w))\<rparr>\<rparr>"
  have "pass_effect dp [row] w ?w (\<lambda>r. if n_id r = n_id row then ?f r else r)"
    using Inl by (intro one_row_effect[OF assms]) (auto simp: handled_def sent_by_def sendable_def)
  then show ?thesis
    using pass_effect_answering[OF _ assms(1)] deliver_unrendered[OF assms(1) Inl] answeringD[OF assms(1)] by fastforce
next
  case (Inr m)
  show ?thesis
  proof (cases rule: deliver_rendered[OF assms(1) Inr])
    case 1
    let ?w = "w\<lparr>gateway_calls := Suc (gateway_calls w),
      sms_log := sms_log w @ sms_part dp [row], push_log := push_log w @ push_part dp [row],
      committed := (started w)\<lparr>outbox := update_rows (\<lambda>r. n_id r = n_id row) (sent_row (clock w)) (outbox (committed w))\<rparr>\<rparr>"
    have "pass_effect dp [row] w ?w (\<lambda>r. if n_id r = n_id row then sent_row (clock w) r else r)"
      using Inr by (intro one_row_effect[OF assms]) (auto simp: handled_def sent_by_def sendable_def)
    then show ?thesis
      using pass_effect_answering[OF _ assms(1)] 1 answeringD[OF assms(1)] by fastforce
  next
    case (2 e)
    let ?w = "w\<lparr>gateway_calls := Suc (gateway_calls w), committed := (started w)\<lparr>outbox :=
      update_rows (\<lambda>r. n_id r = n_id row) (failed_row e MAX_ATTEMPTS) (outbox (committed w))\<rparr>\<rparr>"
    have "pass_effect dp [row] w ?w (\<lambda>r. if n_id r = n_id row then failed_row e MAX_ATTEMPTS r else r)"
      using 2(1) by (intro one_row_effect[OF assms]) (auto simp: handled_def sent_by_def)
    then show ?thesis
      using pass_effect_answering[OF _ assms(1)] 2(2) answeringD[OF assms(1)] by fastforce
  qed
qed

text \<open>Passes over different rows compose.\<close>

lemma pass_effect_append:
  assumes 1: "pass_effect dp xs w w1 g" and 2: "pass_effect dp ys w1 w2 h"
    and sub: "set xs \<subseteq> set (outbox (committed w))" "set ys \<subseteq> set (outbox (committed w))"
    and ids: "n_id ` set xs \<inter> n_id ` set ys = {}"
  shows "pass_effect dp (xs @ ys) w w2 (h \<circ> g)"
proof -
  have g_ys: "g r = r" if "r \<in> set ys" for r
    using 1 that sub(2) ids by (auto simp: pass_effect_def dest!: bspec split: if_splits)
  have h_xs: "h (g r) = g r" if "r \<in> set xs" for r
  proof -
    have "g r \<in> set (outbox (committed w1))" using 1 that sub(1) by (auto simp: pass_effect_def)
    moreover have "g r \<notin> set ys"
      using pass_effect_keeps_ids[OF 1] that sub(1) ids by (metis disjoint_iff image_eqI subsetD)
    ultimately show ?thesis using 2 by (auto simp: pass_effect_def dest!: bspec split: if_splits)
  qed
  have "sent_by (h \<circ> g) (xs @ ys) = sent_by g xs @ sent_by h ys"
    unfolding sent_by_append using g_ys h_xs by (intro arg_cong2[of _ _ _ _ "(@)"] sent_by_cong) simp_all
  moreover have "if r \<in> set (xs @ ys) then handled dp r ((h \<circ> g) r) else (h \<circ> g) r = r"
    if r: "r \<in> set (outbox (committed w))" for r
  proof (cases "r \<in> set xs")
    case True
    then show ?thesis using 1 r h_xs by (auto simp: pass_effect_def)
  next
    case False
    then have "g r = r" using pass_effect_row[OF 1 r] by simp
    moreover have "g r \<in> set (outbox (committed w1))" using 1 r by (simp add: pass_effect_def)
    ultimately show ?thesis using pass_effect_row[OF 2, of r] False by simp
  qed
  ultimately show ?thesis using 1 2 g_ys h_xs by (auto simp: pass_effect_def parts_append)
qed

lemma no_rows_effect [simp]: "outbox (committed w') = outbox (committed w) \<Longrightarrow> sms_log w' = sms_log w \<Longrightarrow>
  push_log w' = push_log w \<Longrightarrow> pass_effect dp [] w w' (\<lambda>r. r)"
  by (simp add: pass_effect_def sent_by_def)

lemma dispatch_rows_effect:
  assumes "answering w" "set rows \<subseteq> set (outbox (committed w))" "distinct (map n_id rows)"
  shows "\<exists>s w' g. dispatch_rows dp rows summary w = (Inr s, w') \<and> answering w' \<and> pass_effect dp rows w w' g"
  using assms
proof (induction rows arbitrary: w summary)
  case Nil
  then show ?case by (auto intro: no_rows_effect)
next
  case (Cons row rows)
  obtain s w1 g where 1: "deliver dp row w = (Inr s, w1)" "answering w1" "pass_effect dp [row] w w1 g"
    using deliver_effect[OF Cons.prems(1), of row dp] Cons.prems(2) by auto
  have "set rows \<subseteq> set (outbox (committed w1))"
  proof
    fix r assume r: "r \<in> set rows"
    then have "r \<in> set (outbox (committed w))" "r \<noteq> row" using Cons.prems by auto
    then have "g r = r" using pass_effect_row[OF 1(3), of r] by simp
    then show "r \<in> set (outbox (committed w1))"
      using 1(3) \<open>r \<in> set (outbox (committed w))\<close> by (metis pass_effect_def image_eqI set_map)
  qed
  moreover have "distinct (map n_id rows)" using Cons.prems(3) by simp
  ultimately obtain t w2 h where
    2: "dispatch_rows dp rows (if s = Delivery_Sent then summary\<lparr>ds_sent := ds_sent summary + 1\<rparr>
          else summary\<lparr>ds_failed := ds_failed summary + 1\<rparr>) w1 = (Inr t, w2)" "answering w2"
      "pass_effect dp rows w1 w2 h"
    using Cons.IH[OF 1(2)] by blast
  have "pass_effect dp ([row] @ rows) w w2 (h \<circ> g)"
    by (rule pass_effect_append[OF 1(3) 2(3)]) (use Cons.prems in auto)
  then show ?case using 1(1) 2 by auto
qed

text \<open>A batch is the pass over the head of the queue.\<close>

lemma claimed_batch:
  assumes "answering w"
  shows "transact (claimPending (\<lambda>i. False) limit) w =
    (Inr (take limit (queue (committed w))), w\<lparr>committed := started w\<rparr>)"
  using assms by (simp add: transact_no_fault answeringD claimPending_def queue_def waiting_def[abs_def] started_def)

lemma queue_rows: "set (queue d) = {r \<in> set (outbox d). waiting r}"
  by (auto simp: queue_def)

lemma queue_ids: "distinct (map n_id (outbox d)) \<Longrightarrow> distinct (map n_id (queue d))"
  by (auto simp: queue_def distinct_map intro: inj_on_subset)

lemma dispatchBatch_effect:
  assumes "answering w"
  shows "\<exists>s w' g. dispatchBatch dp (\<lambda>i. False) limit w = (Inr s, w') \<and> answering w' \<and>
    pass_effect dp (take limit (queue (committed w))) w w' g"
proof -
  let ?w = "w\<lparr>committed := started w\<rparr>"
  have eq: "outbox (committed ?w) = outbox (committed w)" by (simp add: started_def)
  have "answering ?w" using assms unfolding answering_def eq by simp
  moreover have "set (take limit (queue (committed w))) \<subseteq> set (outbox (committed ?w))"
    unfolding eq using queue_rows[of "committed w"] by (auto dest: in_set_takeD)
  moreover have "distinct (map n_id (take limit (queue (committed w))))"
    using queue_ids[OF answeringD(3)[OF assms]] by (simp add: take_map[symmetric] distinct_take)
  ultimately obtain s w' g where "dispatch_rows dp (take limit (queue (committed w)))
      \<lparr>ds_claimed = length (take limit (queue (committed w))), ds_sent = 0, ds_failed = 0\<rparr> ?w = (Inr s, w')"
      "answering w'" "pass_effect dp (take limit (queue (committed w))) ?w w' g"
    using dispatch_rows_effect by meson
  moreover from this(3) have "pass_effect dp (take limit (queue (committed w))) w w' g"
    unfolding pass_effect_def eq by simp
  ultimately show ?thesis using claimed_batch[OF assms, of limit] by (auto simp: dispatchBatch_def)
qed

lemma next_pass:
  assumes "answering (dispatch_passes dp n w)"
  obtains g where "answering (dispatch_passes dp (Suc n) w)"
    "pass_effect dp (take BATCH_SIZE (queue (committed (dispatch_passes dp n w))))
      (dispatch_passes dp n w) (dispatch_passes dp (Suc n) w) g"
  using dispatchBatch_effect[OF assms, of dp BATCH_SIZE] by auto

lemma passes_answering: "answering w \<Longrightarrow> answering (dispatch_passes dp n w)"
  by (induction n) (auto elim: next_pass simp del: dispatch_passes.simps(2))

section \<open>Gateways that accept\<close>

text \<open>
  When every claimed row is marked as sent, the rest of the queue is what the next pass reads.
\<close>

lemma queue_after:
  assumes "pass_effect dp (take k (queue (committed w))) w w' g" "answering w"
    and "\<And>r. r \<in> set (take k (queue (committed w))) \<Longrightarrow> n_status (g r) = N_Sent"
  shows "queue (committed w') = drop k (queue (committed w))"
proof -
  let ?q = "queue (committed w)" and ?ob = "outbox (committed w)"
  have d: "distinct ?q" using queue_ids[OF answeringD(3)[OF assms(2)]] by (simp add: distinct_map)
  have g: "waiting (g r) \<longleftrightarrow> waiting r \<and> r \<notin> set (take k ?q)" "waiting (g r) \<Longrightarrow> g r = r" if "r \<in> set ?ob" for r
    using pass_effect_row[OF assms(1) that] assms(3)[of r] by (auto simp: waiting_def split: if_splits)
  have "filter waiting (map g ?ob) = map g (filter (\<lambda>r. waiting r \<and> r \<notin> set (take k ?q)) ?ob)"
    unfolding filter_map o_def using g(1) by (intro arg_cong[of _ _ "map g"] filter_cong) auto
  also have "\<dots> = filter (\<lambda>r. waiting r \<and> r \<notin> set (take k ?q)) ?ob"
    using g by (intro map_idI) auto
  finally have "queue (committed w') = filter (\<lambda>r. r \<notin> set (take k ?q)) ?q"
    using assms(1) by (simp add: queue_def pass_effect_def filter_sort[symmetric] conj_commute)
  also have "\<dots> = filter (\<lambda>r. r \<notin> set (take k ?q)) (take k ?q) @ filter (\<lambda>r. r \<notin> set (take k ?q)) (drop k ?q)"
    by (metis append_take_drop_id filter_append)
  also have "\<dots> = drop k ?q"
    using set_take_disj_set_drop_if_distinct[OF d le_refl, of k] by (auto simp: filter_empty_conv filter_id_conv)
  finally show ?thesis .
qed

text \<open>
  Gateways that accept get every waiting message once, in the order of the queue: after
  \<open>n\<close> passes the first \<open>50 * n\<close> waiting rows have been handed over, nothing else was, and the
  rest of the queue still waits in the same order.
\<close>

lemma passes_deliver:
  assumes "answering w" "accepting dp" "\<forall>r\<in>set (queue (committed w)). sendable dp r"
  shows "queue (committed (dispatch_passes dp n w)) = drop (n * 50) (queue (committed w)) \<and>
     sms_log (dispatch_passes dp n w) = sms_log w @ sms_part dp (take (n * 50) (queue (committed w))) \<and>
     push_log (dispatch_passes dp n w) = push_log w @ push_part dp (take (n * 50) (queue (committed w)))"
proof (induction n)
  case (Suc n)
  let ?w = "dispatch_passes dp n w" and ?q = "queue (committed w)"
  let ?rows = "take BATCH_SIZE (queue (committed ?w))"
  note ans = passes_answering[OF assms(1), of dp n]
  obtain g where g: "pass_effect dp ?rows ?w (dispatch_passes dp (Suc n) w) g"
    using next_pass[OF ans] by blast
  have rows: "?rows = take 50 (drop (n * 50) ?q)" using Suc by (simp add: BATCH_SIZE_def)
  have sent: "n_status (g r) = N_Sent" if "r \<in> set ?rows" for r
  proof -
    have "r \<in> set ?q" using that unfolding rows by (meson in_set_takeD in_set_dropD)
    then show ?thesis using g assms(2,3) that by (auto simp: pass_effect_def)
  qed
  have "sent_by g ?rows = ?rows" using sent by (simp add: sent_by_def filter_id_conv)
  moreover have "take (Suc n * 50) ?q = take (n * 50) ?q @ ?rows"
    unfolding rows by (simp add: take_add[symmetric] add.commute)
  moreover have "queue (committed (dispatch_passes dp (Suc n) w)) = drop (Suc n * 50) ?q"
    using queue_after[OF g ans sent] Suc by (simp add: BATCH_SIZE_def add.commute)
  ultimately show ?case
    using g Suc by (simp add: pass_effect_def parts_append del: dispatch_passes.simps(2))
qed simp

lemma sample_queue:
  "answering sample_outbox_world" "queue (committed sample_outbox_world) = [sample_entry]"
  "rendered (sample_dispatcher gw) sample_entry = Inr \<lparr>tp_title = ''Order'', tp_body = ''Order 77 placed''\<rparr>"
proof -
  show "answering sample_outbox_world" "queue (committed sample_outbox_world) = [sample_entry]"
    by (simp_all add: answering_def sample_outbox_world_def queue_def waiting_def sample_entry_def)
  have "renderTemplate sample_templates ''order.placed'' ''en'' [(''order'', ''77'')] =
      Inr \<lparr>tp_title = ''Order'', tp_body = ''Order 77 placed''\<rparr>"
    by code_simp
  then show "rendered (sample_dispatcher gw) sample_entry = Inr \<lparr>tp_title = ''Order'', tp_body = ''Order 77 placed''\<rparr>"
    by (simp add: rendered_def sample_dispatcher_def sample_entry_def)
qed

section \<open>Any gateways\<close>

text \<open>
  A row that waits has a number of attempts left; a pass uses up at least one of them, so the
  attempts left over the whole outbox bound the number of passes.
\<close>

definition attempts_left :: "outbox_row \<Rightarrow> nat" where
  "attempts_left r = (if waiting r then nat (MAX_ATTEMPTS - n_attempts r) else 0)"

definition budget :: "db \<Rightarrow> nat" where
  "budget d = sum_list (map attempts_left (outbox d))"

lemma attempts_left_pos: "attempts_ok r \<Longrightarrow> waiting r \<longleftrightarrow> 0 < attempts_left r"
  by (auto simp: attempts_ok_def attempts_left_def waiting_def)

lemma handled_uses_attempt:
  assumes "handled dp r r'" "attempts_ok r" "waiting r"
  shows "attempts_left r' < attempts_left r" and "attempts_ok r'"
proof -
  show "attempts_ok r'" using assms(1,2) by (auto simp: handled_def intro: attempts_ok_sent attempts_ok_failed)
  show "attempts_left r' < attempts_left r"
    using assms by (auto simp: handled_def attempts_left_def attempts_ok_def waiting_def sent_row_def failed_row_def)
qed

lemma sum_list_less:
  fixes f g :: "'a \<Rightarrow> nat"
  shows "(\<And>x. x \<in> set xs \<Longrightarrow> f x \<le> g x) \<Longrightarrow> y \<in> set xs \<Longrightarrow> f y < g y \<Longrightarrow> sum_list (map f xs) < sum_list (map g xs)"
proof (induction xs)
  case (Cons x xs)
  have le: "sum_list (map f xs) \<le> sum_list (map g xs)" by (rule sum_list_mono) (simp add: Cons.prems)
  show ?case
  proof (cases "y = x")
    case True
    then show ?thesis using le Cons.prems(3) by simp
  next
    case False
    then show ?thesis using Cons.IH Cons.prems by (simp add: add_le_less_mono)
  qed
qed simp

lemma sum_list_pending: "sum_list (map (\<lambda>r. if P r then k else 0) rows) = k * length (filter P rows)"
  by (induction rows) auto

lemma budget_bound:
  assumes "outbox_ok d"
  shows "budget d \<le> 5 * length (filter waiting (outbox d))"
proof -
  have "attempts_left r \<le> (if waiting r then 5 else 0)" if "r \<in> set (outbox d)" for r
    using assms that by (auto simp: attempts_left_def outbox_ok_def attempts_ok_def MAX_ATTEMPTS_def)
  then have "budget d \<le> sum_list (map (\<lambda>r. if waiting r then 5 else 0) (outbox d))"
    unfolding budget_def by (intro sum_list_mono) simp
  also have "\<dots> = 5 * length (filter waiting (outbox d))" by (rule sum_list_pending)
  finally show ?thesis .
qed

lemma budget_zero:
  assumes "outbox_ok d"
  shows "budget d = 0 \<longleftrightarrow> (\<forall>r\<in>set (outbox d). \<not> waiting r)"
  using assms by (auto simp: budget_def outbox_ok_def attempts_left_pos)

lemma pass_outbox_ok:
  assumes "pass_effect dp (take k (queue (committed w))) w w' g" "outbox_ok (committed w)"
  shows "outbox_ok (committed w')"
proof -
  have "attempts_ok (g r)" if "r \<in> set (outbox (committed w))" for r
    using pass_effect_row[OF assms(1) that] assms(2) that handled_uses_attempt(2)[of dp r "g r"]
      set_take_subset[of k "queue (committed w)"] queue_rows[of "committed w"]
    by (auto simp: outbox_ok_def split: if_splits)
  then show ?thesis using assms(1) by (auto simp: outbox_ok_def pass_effect_def)
qed

lemma pass_uses_budget:
  assumes "pass_effect dp (take BATCH_SIZE (queue (committed w))) w w' g" "outbox_ok (committed w)"
  shows "budget (committed w') \<le> budget (committed w) - 1"
proof -
  let ?ob = "outbox (committed w)" and ?rows = "take BATCH_SIZE (queue (committed w))"
  have claimed: "attempts_left (g r) < attempts_left r" if "r \<in> set ?rows" for r
  proof -
    have r: "r \<in> set ?ob" "waiting r" using that queue_rows[of "committed w"] by (auto dest: in_set_takeD)
    then show ?thesis
      using pass_effect_row[OF assms(1) r(1)] that assms(2) handled_uses_attempt(1) by (auto simp: outbox_ok_def)
  qed
  then have le: "attempts_left (g r) \<le> attempts_left r" if "r \<in> set ?ob" for r
    using pass_effect_row[OF assms(1) that] by (cases "r \<in> set ?rows") (auto intro: less_imp_le)
  have b: "budget (committed w') = sum_list (map (attempts_left \<circ> g) ?ob)"
    using assms(1) by (simp add: budget_def pass_effect_def)
  show ?thesis
  proof (cases "queue (committed w)")
    case Nil
    then have "budget (committed w) = 0"
      using budget_zero[OF assms(2)] queue_rows[of "committed w"] by auto
    moreover have "budget (committed w') \<le> budget (committed w)"
      unfolding b unfolding budget_def using le by (intro sum_list_mono) simp
    ultimately show ?thesis by simp
  next
    case (Cons r rs)
    then have r: "r \<in> set ?rows" "r \<in> set ?ob" using queue_rows[of "committed w"] by (auto simp: BATCH_SIZE_def)
    have "budget (committed w') < budget (committed w)"
      unfolding b unfolding budget_def using le claimed[OF r(1)] by (intro sum_list_less[OF _ r(2)]) simp_all
    then show ?thesis by simp
  qed
qed

lemma passes_use_budget:
  assumes "answering w" "outbox_ok (committed w)"
  shows "outbox_ok (committed (dispatch_passes dp n w)) \<and>
     budget (committed (dispatch_passes dp n w)) \<le> budget (committed w) - n"
proof (induction n)
  case (Suc n)
  obtain g where g: "pass_effect dp (take BATCH_SIZE (queue (committed (dispatch_passes dp n w))))
      (dispatch_passes dp n w) (dispatch_passes dp (Suc n) w) g"
    using next_pass[OF passes_answering[OF assms(1)]] by blast
  show ?case
    using pass_outbox_ok[OF g] pass_uses_budget[OF g] Suc by linarith
qed (simp add: assms)

text \<open>
  \<open>fate dp w' r r'\<close>: a row that was waiting as \<open>r\<close> and is now \<open>r'\<close> is the same message, and
  it still waits, or was handed over, or was given up after the last attempt; other rows are
  left alone.
\<close>

definition same_message :: "outbox_row \<Rightarrow> outbox_row \<Rightarrow> bool" where
  "same_message r r' \<longleftrightarrow> n_id r' = n_id r \<and> n_user_id r' = n_user_id r \<and> n_phone_e164 r' = n_phone_e164 r \<and>
     n_language r' = n_language r \<and> n_channel r' = n_channel r \<and> n_template_key r' = n_template_key r \<and>
     n_params r' = n_params r \<and> n_order_id r' = n_order_id r \<and> n_created_at r' = n_created_at r \<and>
     n_dedupe_key r' = n_dedupe_key r"

definition fate :: "dispatcher \<Rightarrow> gateway_world \<Rightarrow> outbox_row \<Rightarrow> outbox_row \<Rightarrow> bool" where
  "fate dp w' r r' \<longleftrightarrow>
     (if waiting r then same_message r r' \<and>
        (waiting r' \<or> n_status r' = N_Sent \<and> handed_over dp w' r \<or>
         n_status r' = N_Abandoned \<and> n_attempts r' = MAX_ATTEMPTS)
      else r' = r)"

lemma same_messageI [intro]:
  "same_message r (sent_row t r)" "same_message r (failed_row e k r)" "same_message r r"
  by (simp_all add: same_message_def sent_row_def failed_row_def)

lemma same_message_trans: "same_message a b \<Longrightarrow> same_message b c \<Longrightarrow> same_message a c"
  by (simp add: same_message_def)

lemma same_message_handed_over: "same_message r r' \<Longrightarrow> handed_over dp w r' = handed_over dp w r"
  by (auto simp: same_message_def handed_over_def sendable_def rendered_def sms_of_def push_of_def message_of_def)

lemma handed_over_later:
  "pass_effect dp rows w w' g \<Longrightarrow> handed_over dp w r \<Longrightarrow> handed_over dp w' r"
  by (auto simp: handed_over_def pass_effect_def)

lemma pass_hands_over:
  assumes "pass_effect dp rows w w' g" "r \<in> set rows" "sendable dp r" "n_status (g r) = N_Sent"
  shows "handed_over dp w' r"
  using assms by (auto simp: handed_over_def pass_effect_def sent_by_def sms_part_def push_part_def)

lemma pass_fate:
  assumes p: "pass_effect dp (take k (queue (committed w))) w w' g" and ok: "outbox_ok (committed w)"
    and r: "r \<in> set (outbox (committed w))"
  shows "fate dp w' r (g r)"
proof (cases "r \<in> set (take k (queue (committed w)))")
  case True
  then have w: "waiting r" using queue_rows[of "committed w"] by (auto dest: in_set_takeD)
  have "handled dp r (g r)" using pass_effect_row[OF p r] True by simp
  then show ?thesis
    unfolding handled_def
  proof (elim disjE exE conjE)
    fix t assume t: "g r = sent_row t r" "sendable dp r"
    then have "handed_over dp w' r" by (intro pass_hands_over[OF p True]) simp_all
    then show ?thesis using w t(1) by (auto simp: fate_def)
  next
    fix e assume e: "g r = failed_row e MAX_ATTEMPTS r"
    have "n_attempts r < MAX_ATTEMPTS" using ok r w by (auto simp: outbox_ok_def attempts_ok_def waiting_def)
    then have "waiting (g r) \<or> n_status (g r) = N_Abandoned \<and> n_attempts (g r) = MAX_ATTEMPTS"
      by (auto simp: e failed_row_def waiting_def)
    then show ?thesis using w e by (auto simp: fate_def)
  qed
next
  case False
  then show ?thesis using pass_effect_row[OF p r] by (auto simp: fate_def)
qed

lemma fate_trans:
  assumes "fate dp w1 r r1" "fate dp w2 r1 r2" "handed_over dp w1 r \<Longrightarrow> handed_over dp w2 r"
  shows "fate dp w2 r r2"
proof (cases "waiting r")
  case w: True
  note 1 = assms(1)[unfolded fate_def, simplified w if_True]
  show ?thesis
  proof (cases "waiting r1")
    case True
    note 2 = assms(2)[unfolded fate_def, simplified True if_True]
    have "same_message r r2" using 1 2 same_message_trans by blast
    then show ?thesis using w 1 2 same_message_handed_over[of r r1] by (auto simp: fate_def)
  next
    case False
    then have "r2 = r1" using assms(2) by (simp add: fate_def)
    then show ?thesis using w 1 assms(3) False by (auto simp: fate_def)
  qed
next
  case False
  then show ?thesis using assms by (simp add: fate_def)
qed

lemma passes_fate:
  assumes "answering w" "outbox_ok (committed w)"
  shows "\<exists>g. outbox (committed (dispatch_passes dp n w)) = map g (outbox (committed w)) \<and>
    (\<forall>r\<in>set (outbox (committed w)). fate dp (dispatch_passes dp n w) r (g r))"
proof (induction n)
  case 0
  have "fate dp w r r" for r by (auto simp: fate_def)
  then show ?case by (intro exI[of _ "\<lambda>r. r"]) simp
next
  case (Suc n)
  let ?w = "dispatch_passes dp n w" and ?w' = "dispatch_passes dp (Suc n) w"
  obtain g where g: "outbox (committed ?w) = map g (outbox (committed w))"
      "\<forall>r\<in>set (outbox (committed w)). fate dp ?w r (g r)"
    using Suc by blast
  obtain h where h: "pass_effect dp (take BATCH_SIZE (queue (committed ?w))) ?w ?w' h"
    using next_pass[OF passes_answering[OF assms(1)]] by blast
  have ok: "outbox_ok (committed ?w)" using passes_use_budget[OF assms] by blast
  have "fate dp ?w' r (h (g r))" if r: "r \<in> set (outbox (committed w))" for r
  proof (rule fate_trans)
    show "fate dp ?w r (g r)" using g(2) r by blast
    show "fate dp ?w' (g r) (h (g r))" using pass_fate[OF h ok, of "g r"] g(1) r by simp
  qed (rule handed_over_later[OF h])
  moreover have "outbox (committed ?w') = map (h \<circ> g) (outbox (committed w))"
    using h g(1) by (simp add: pass_effect_def)
  ultimately show ?case by (metis comp_apply)
qed

text \<open>
  C30. The outbox drains, whatever the gateways answer and whether or not the rows render: five
  passes for every waiting row are enough (the database answering) to leave no row waiting.
  Each row that waited has then either been handed over with its own text and is marked sent,
  or was given up after exactly five attempts; its recipient, text and keys are as they were
  queued, and the rows that did not wait are untouched.
\<close>

theorem outbox_drains:
  assumes "answering w" "outbox_ok (committed w)"
    and "5 * length (filter waiting (outbox (committed w))) \<le> n"
  shows "\<exists>g. outbox (committed (dispatch_passes dp n w)) = map g (outbox (committed w)) \<and>
    (\<forall>r\<in>set (outbox (committed w)).
       if waiting r then same_message r (g r) \<and>
         (n_status (g r) = N_Sent \<and> handed_over dp (dispatch_passes dp n w) r \<or>
          n_status (g r) = N_Abandoned \<and> n_attempts (g r) = 5)
       else g r = r)"
proof -
  obtain g where g: "outbox (committed (dispatch_passes dp n w)) = map g (outbox (committed w))"
      "\<forall>r\<in>set (outbox (committed w)). fate dp (dispatch_passes dp n w) r (g r)"
    using passes_fate[OF assms(1,2)] by blast
  have "outbox_ok (committed (dispatch_passes dp n w))" "budget (committed (dispatch_passes dp n w)) = 0"
    using passes_use_budget[OF assms(1,2), of dp n] budget_bound[OF assms(2)] assms(3) by simp_all
  then have "\<not> waiting (g r)" if "r \<in> set (outbox (committed w))" for r
    using budget_zero g(1) that by simp
  then show ?thesis
    using g by (intro exI[of _ g]) (auto simp: fate_def MAX_ATTEMPTS_def)
qed

theorem outbox_drains_witness:
  "\<exists>r. outbox (committed (dispatch_passes (sample_dispatcher (\<lambda>n p b. if n < 2 then Some ''busy'' else None))
      5 sample_outbox_world)) = [r] \<and> n_dedupe_key r = ''order.placed:77:sms'' \<and> n_status r \<noteq> N_Pending"
proof -
  have ob: "outbox (committed sample_outbox_world) = [sample_entry]" "waiting sample_entry"
      "outbox_ok (committed sample_outbox_world)" "n_dedupe_key sample_entry = ''order.placed:77:sms''"
    by (simp_all add: sample_outbox_world_def sample_entry_def waiting_def outbox_ok_def attempts_ok_def MAX_ATTEMPTS_def)
  then have "5 * length (filter waiting (outbox (committed sample_outbox_world))) \<le> 5" by simp
  from outbox_drains[OF sample_queue(1) ob(3) this,
      of "sample_dispatcher (\<lambda>n p b. if n < 2 then Some ''busy'' else None)"]
  show ?thesis using ob by (auto simp: same_message_def)
qed

end
