(* ===== verification/Mail.thy ===== *)
theory Mail
  imports Refinement Bundles Drain
begin

text \<open>
  Every message the system queues can be rendered from the bundles of the repository: a second
  contract of the services (beside \<open>platform\<close> of theory \<open>Refinement\<close>), which follows the
  parameters from the callers of the notification port to the outbox. The contract also keeps what
  the dispatcher needs to work the outbox off (theory \<open>Drain\<close>).
\<close>

section \<open>Rows that render\<close>

definition renders :: "outbox_row \<Rightarrow> bool" where
  "renders r \<longleftrightarrow> (\<exists>m. renderTemplate TEMPLATES (n_template_key r) (n_language r) (n_params r) = Inr m)"

definition mail_ok :: "db \<Rightarrow> bool" where
  "mail_ok d \<longleftrightarrow> (\<forall>r\<in>set (outbox d). renders r)"

text \<open>The outbox is fit for the dispatcher: ids are unique, attempt counts in bounds.\<close>

definition queue_ok :: "db \<Rightarrow> bool" where
  "queue_ok d \<longleftrightarrow> distinct (map n_id (outbox d)) \<and> outbox_ok d"

definition mail_kept :: "db \<Rightarrow> db \<Rightarrow> bool" where
  "mail_kept d d' \<longleftrightarrow> (mail_ok d \<longrightarrow> mail_ok d') \<and> (queue_ok d \<longrightarrow> queue_ok d')"

lemma mail_kept_same: "outbox d' = outbox d \<Longrightarrow> mail_kept d d'"
  by (simp add: mail_kept_def mail_ok_def queue_ok_def outbox_ok_def)

lemma mail_kept_trans: "mail_kept a b \<Longrightarrow> mail_kept b c \<Longrightarrow> mail_kept a c"
  by (simp add: mail_kept_def)

lemma mail_kept_update:
  assumes "\<And>r. renders (f r) = renders r" "\<And>r. n_id (f r) = n_id r" "\<And>r. attempts_ok r \<Longrightarrow> attempts_ok (f r)"
    and "outbox d' = update_rows P f (outbox d)"
  shows "mail_kept d d'"
  using assms update_rows_map[of P n_id f "outbox d"]
  by (auto simp: mail_kept_def mail_ok_def queue_ok_def outbox_ok_def in_update_rows)

lemma renders_marked [simp]: "renders (sent_row t r) = renders r" "renders (failed_row e n r) = renders r"
  by (simp_all add: renders_def sent_row_def failed_row_def)

section \<open>Queueing\<close>

text \<open>A request that names the parameters of its event.\<close>

definition complete :: "notification_request \<Rightarrow> bool" where
  "complete rq \<longleftrightarrow> set (event_params (rq_event rq)) \<subseteq> dom (map_of (rq_params rq))"

lemma enqueue_entry_mail:
  assumes "enqueue_entry (entry_for rq u key c) d = Inr (x, d')" "complete rq" "templateKeyFor (rq_event rq) = Inr key"
  shows "mail_kept d d'"
proof -
  have "language_ok (u_language_preference u)"
    using enqueue_entry_language[OF assms(1)] by (simp add: entry_for_def)
  then have "renders (new_outbox_row i t (entry_for rq u key c))" for i t
    using assms(2) bundles_cover_policy[OF assms(3), of "u_language_preference u" "rq_params rq"]
    by (simp add: renders_def new_outbox_row_def entry_for_def complete_def language_ok_def)
  then show ?thesis
    using enqueue_entry_Inr[OF assms(1)]
    by (auto simp: mail_kept_def mail_ok_def queue_ok_def outbox_ok_def attempts_ok_new) (auto simp: new_outbox_row_def)
qed

lemma enqueue_mail:
  assumes "enqueue rq d = Inr (x, d')" "complete rq"
  shows "mail_kept d d'"
proof -
  obtain u key cs where key: "templateKeyFor (rq_event rq) = Inr key"
    and loop: "stmt_for cs (\<lambda>c. enqueue_entry (entry_for rq u key c)) d = Inr (x, d')"
    using assms(1) by (auto simp: enqueue_Inr_iff)
  from loop show ?thesis
    by (rule stmt_for_preserves)
       (use enqueue_entry_mail[OF _ assms(2) key] mail_kept_trans mail_kept_same in blast)+
qed

lemma complete_requests [simp]:
  "complete (otp_request i phone code t)"
  "complete \<lparr>rq_userId = u, rq_event = ''order_confirmed'', rq_params = [(''orderRef'', r)], rq_orderId = oid, rq_dedupeKey = k\<rparr>"
  "event = ''payment_received'' \<or> event = ''payment_failed'' \<Longrightarrow>
   complete \<lparr>rq_userId = u, rq_event = event, rq_params = [(''orderRef'', r), (''amount'', a)], rq_orderId = oid, rq_dedupeKey = k\<rparr>"
  by (auto simp: complete_def otp_request_def event_params_def)

section \<open>What each statement does to the outbox\<close>

lemma otp_work_mail:
  assumes "otp_work enqueue phone code t d = Inr (i, d')"
  shows "mail_kept d d'"
proof -
  obtain d1 x where 1: "findOrCreateByPhone phone d = Inr (i, d1)" and 2: "enqueue (otp_request i phone code t) d1 = Inr (x, d')"
    using assms by (auto simp: otp_work_def stmt_bind_Inr_iff)
  have "outbox d1 = outbox d" using findOrCreate_Inr[OF 1] by auto
  then show ?thesis using mail_kept_trans[OF mail_kept_same enqueue_mail[OF 2]] by simp
qed

lemma writeOrder_queues:
  assumes "writeOrder checkout_wiring command total_amount r d = Inr (i, d')"
  obtains d1 x where "outbox d1 = outbox d"
    "enqueue \<lparr>rq_userId = co_customerUserId command, rq_event = ''order_confirmed'',
       rq_params = [(''orderRef'', take 8 i)], rq_orderId = Some i,
       rq_dedupeKey = ''order-created:'' @ i\<rparr> d1 = Inr (x, d')"
proof -
  obtain d1 d2 d3 amount d4 x1 x2 x3 x4 where 1: "insertOrder r d = Inr (i, d1)"
    and 2: "insertItems i (nr_items r) d1 = Inr (x1, d2)"
    and 3: "recordStatusEvent \<lparr>ev_orderId = i, ev_fromStatus = None, ev_toStatus = Created, ev_actorRoleId = None,
          ev_noteKey = Some ''order.event.created''\<rparr> d2 = Inr (x2, d3)"
    and 4: "insertPendingTransaction \<lparr>pt_orderId = i, pt_method = co_paymentMethod command, pt_amountBdt = amount,
          pt_isAdvance = (co_paymentMethod command \<noteq> Cod)\<rparr> d3 = Inr (x3, d4)"
    and 5: "enqueue \<lparr>rq_userId = co_customerUserId command, rq_event = ''order_confirmed'',
          rq_params = [(''orderRef'', take 8 i)], rq_orderId = Some i,
          rq_dedupeKey = ''order-created:'' @ i\<rparr> d4 = Inr (x4, d')"
    using assms by (auto simp: writeOrder_def stmt_bind_Inr_iff stmt_lift_Inr_iff checkout_wiring_def)
  have "outbox d2 = outbox d1"
    using 2 unfolding insertItems_def
    by (rule stmt_for_preserves[where R = "\<lambda>a b. outbox b = outbox a"]) (auto elim: insertItem_Inr)
  moreover have "outbox d1 = outbox d" by (rule insertOrder_Inr[OF 1]) simp
  moreover have "outbox d3 = outbox d2" using recordStatusEvent_Inr[OF 3] by simp
  moreover have "outbox d4 = outbox d3" by (rule insertPendingTransaction_Inr[OF 4]) simp
  ultimately show thesis using that[OF _ 5] by simp
qed

lemma writeOrder_mail:
  assumes "writeOrder checkout_wiring command total_amount r d = Inr (i, d')"
  shows "mail_kept d d'"
proof -
  obtain d1 x where "outbox d1 = outbox d" and e: "enqueue \<lparr>rq_userId = co_customerUserId command,
      rq_event = ''order_confirmed'', rq_params = [(''orderRef'', take 8 i)], rq_orderId = Some i,
      rq_dedupeKey = ''order-created:'' @ i\<rparr> d1 = Inr (x, d')"
    using writeOrder_queues[OF assms] .
  then show ?thesis using mail_kept_trans[OF mail_kept_same enqueue_mail[OF e]] by simp
qed

text \<open>A placed order has queued a message.\<close>

lemma enqueue_not_empty:
  assumes "enqueue rq d = Inr (x, d')"
  shows "outbox d' \<noteq> []"
proof -
  obtain u key cs where "channelsFor (rq_event rq) = Inr cs"
    and loop: "stmt_for cs (\<lambda>c. enqueue_entry (entry_for rq u key c)) d = Inr (x, d')"
    using assms by (auto simp: enqueue_Inr_iff)
  then show ?thesis using enqueue_loop_keys[OF loop channelsFor_sms(1)] by auto
qed

lemma placed_not_empty:
  assumes "inflight (w :: world) = None" "createOrder checkout_wiring env command w = (Inr x, w')"
  shows "outbox (committed w') \<noteq> []"
proof -
  obtain p where wr: "prepareOrder checkout_wiring env command w = (Inr p, at_now w)"
    "writeOrder checkout_wiring command (pc_total (pp_priced p)) (pp_record p) (started w) =
      Inr (cr_orderId x, committed w')"
    using wired.placed[OF assms] by metis
  show ?thesis by (rule writeOrder_queues[OF wr(2)]) (rule enqueue_not_empty)
qed

lemma notifyCustomer_mail:
  assumes "notifyCustomer settlement_wiring notice event d = Inr (x, d')" "event = ''payment_received'' \<or> event = ''payment_failed''"
  shows "mail_kept d d'"
  using assms
  by (auto simp: notifyCustomer_def stmt_bind_Inr_iff stmt_lift_Inr_iff settlement_wiring_simps findCustomer_def
      split: option.splits intro: mail_kept_same enqueue_mail)

lemma recordFailure_mail:
  assumes "recordFailure settlement_wiring notice p d = Inr (res, d')"
  shows "mail_kept d d'"
proof -
  obtain d1 d2 x1 x2 x3 where
    1: "markPaymentFailed (t_id p) (sn_aggregator notice) (sn_aggregatorRef notice) d = Inr (x1, d1)"
    and 2: "transitionStatus (sn_orderId notice) Awaiting_Payment ''order.event.payment_failed'' d1 = Inr (x2, d2)"
    and 3: "notifyCustomer settlement_wiring notice ''payment_failed'' d2 = Inr (x3, d')"
    using assms by (auto simp: recordFailure_def stmt_bind_Inr_iff settlement_wiring_simps)
  have "outbox d2 = outbox d" using 1 2 by (auto simp: markPaymentFailed_Inr transitionStatus_def stmt_bind_Inr_iff dest: recordStatusEvent_Inr)
  then show ?thesis using mail_kept_trans[OF mail_kept_same notifyCustomer_mail[OF 3]] by simp
qed

lemma settle_mail:
  assumes "settle settlement_wiring notice p d = Inr (res, d')"
  shows "mail_kept d d'"
proof -
  obtain d1 d2 d3 x1 x2 x3 where
    1: "markSettled (t_id p) (sn_aggregator notice) (sn_aggregatorRef notice) (sn_occurredAt notice) d = Inr (x1, d1)"
    and 2: "transitionStatus (sn_orderId notice) Confirmed ''order.event.payment_received'' d1 = Inr (x2, d2)"
    and 3: "notifyCustomer settlement_wiring notice ''payment_received'' d2 = Inr (x3, d3)"
    and 4: "runClock settlement_wiring notice p d3 = Inr (res, d')"
    using assms by (auto simp: settle_def stmt_bind_Inr_iff settlement_wiring_simps)
  have "outbox d2 = outbox d" using 1 2 by (auto simp: markSettled_Inr transitionStatus_def stmt_bind_Inr_iff dest: recordStatusEvent_Inr)
  moreover have "outbox d' = outbox d3"
    using 4 by (auto simp: runClock_def stmt_bind_Inr_iff stmt_lift_Inr_iff settlement_wiring_simps findForSettlement_def
        startDeliveryClock_def stampDeliveryClock_Inr split: if_splits option.splits)
  ultimately show ?thesis
    using mail_kept_trans[OF mail_kept_same mail_kept_trans[OF notifyCustomer_mail[OF 3] mail_kept_same]] by simp
qed

lemma applyToPending_mail:
  assumes "applyToPending settlement_wiring notice p d = Inr (res, d')"
  shows "mail_kept d d'"
  using assms
  by (auto simp: applyToPending_def stmt_bind_Inr_iff stmt_lift_Inr_iff split: if_splits
      intro: recordFailure_mail settle_mail mail_kept_same)

lemma settlementWork_mail:
  assumes "settlementWork settlement_wiring notice d = Inr (res, d')"
  shows "mail_kept d d'"
  using assms by (cases rule: paid.work_Inr) (simp_all add: recordFailure_mail settle_mail mail_kept_same)

section \<open>The dispatcher as deployed\<close>

text \<open>\<open>NotificationModule\<close> binds the two logging gateways, which accept everything.\<close>

definition notification_wiring :: "(err \<Rightarrow> string) \<Rightarrow> dispatcher" where
  "notification_wiring message =
     \<lparr>dp_templates = TEMPLATES, dp_sms = LoggingSmsGateway, dp_push = LoggingPushGateway, dp_message = message\<rparr>"

lemma notification_wiring_accepts:
  "dp_templates (notification_wiring message) = TEMPLATES" "accepting (notification_wiring message)"
  by (simp_all add: notification_wiring_def accepting_def LoggingSmsGateway_def LoggingPushGateway_def)

section \<open>The contract\<close>

interpretation mail: service_contract "\<lambda>_. True" mail_kept
proof unfold_locales
  show "mail_kept a c" if "mail_kept a b" "mail_kept b c" for a b c using that by (rule mail_kept_trans)
  show "mail_kept d d'" if "createMerchantRole u pk pf d = Inr (r, d')" for u pk pf r d d'
    using createMerchantRole_Inr[OF that] by (auto intro: mail_kept_same)
  show "mail_kept d d'" if "kyc_work request i nid d = Inr (x, d')" for request i nid x d d'
    using kyc_work_Inr[OF that] by (auto intro: mail_kept_same)
  show "mail_kept d d'" if "createLocation place d = Inr (i, d')" for place i d d'
    using that by (rule createLocation_Inr) (simp add: mail_kept_same)
  show "mail_kept d d'" if "poishaToTaka (cg_priceBdtPoisha goods) = Inr price"
    "insertListing (listing_record goods role pk price pickup) d = Inr (i, d')" for goods price role pk pickup i d d'
    using that(2) by (auto simp: insertListing_def stmt_bind_Inr_iff stmt_lift_Inr_iff intro: mail_kept_same split: if_splits)
  show "mail_kept d d'" if "markSent i d = Inr (x, d')" for i x d d'
    using that by (auto simp: markSent_def intro!: mail_kept_update[OF renders_marked(1)] attempts_ok_sent)
  show "mail_kept d d'" if "markFailed i e MAX_ATTEMPTS d = Inr (x, d')" for i e x d d'
    using that by (auto simp: markFailed_def intro!: mail_kept_update[OF renders_marked(2)] attempts_ok_failed)
qed (auto intro: mail_kept_same otp_work_mail writeOrder_mail settlementWork_mail)

end
