(* ===== verification/Progress.thy ===== *)
theory Progress
  imports Payment
begin

text \<open>
  That a genuine settlement goes through: with fresh ids, a known customer and no failure of the
  connection, the transaction of \<open>payment.service.ts\<close> cannot get stuck at any of its statements.
\<close>

section \<open>Fresh ids\<close>

text \<open>What \<open>gen_random_uuid()\<close> is relied on for: the ids to come are new and differ.\<close>

definition ids_fresh :: "db \<Rightarrow> bool" where
  "ids_fresh d \<longleftrightarrow> inj (uuids d) \<and>
     (\<forall>n\<ge>uuid_n d. uuids d n \<notin> n_id ` set (outbox d) \<and> uuids d n \<notin> se_id ` set (status_events d))"

lemma ids_fresh_next:
  assumes "ids_fresh d"
  shows "uuids d (uuid_n d) \<notin> n_id ` set (outbox d)" "uuids d (uuid_n d) \<notin> se_id ` set (status_events d)"
  using assms by (simp_all add: ids_fresh_def)

lemma ids_fresh_event:
  assumes "ids_fresh d" "uuids d' = uuids d" "uuid_n d' = Suc (uuid_n d)" "outbox d' = outbox d"
    "status_events d' = status_events d @ [e]" "se_id e = uuids d (uuid_n d)"
  shows "ids_fresh d'"
  using assms by (auto simp: ids_fresh_def inj_eq)

lemma ids_fresh_mail:
  assumes "ids_fresh d" "uuids d' = uuids d" "uuid_n d' = Suc (uuid_n d)" "status_events d' = status_events d"
    "outbox d' = outbox d @ [r]" "n_id r = uuids d (uuid_n d)"
  shows "ids_fresh d'"
  using assms by (auto simp: ids_fresh_def inj_eq)

lemma sample_ids: "inj (uuids sample_db)"
proof (rule injI)
  fix m n :: nat
  assume "uuids sample_db m = uuids sample_db n"
  then show "m = n" by (simp add: sample_db_def)
qed

section \<open>Queueing\<close>

lemma enqueue_entry_proceeds:
  assumes "ids_fresh d" "language_ok (en_language e)" "en_userId e \<in> u_id ` set (users d)"
    and "\<forall>i. en_orderId e = Some i \<longrightarrow> i \<in> o_id ` set (orders d)"
  shows "\<exists>d'. enqueue_entry e d = Inr ((), d') \<and> ids_fresh d' \<and> users d' = users d \<and> orders d' = orders d"
proof (cases "en_dedupeKey e \<in> n_dedupe_key ` set (outbox d)")
  case True
  then show ?thesis using assms(1,2) by (simp add: enqueue_entry_def)
next
  case False
  let ?row = "new_outbox_row (uuids d (uuid_n d)) (now_ts d) e"
  let ?d = "d\<lparr>uuid_n := Suc (uuid_n d), outbox := outbox d @ [?row]\<rparr>"
  have "enqueue_entry e d = Inr ((), ?d)"
    using False assms(2-4) ids_fresh_next[OF assms(1)]
    by (simp add: enqueue_entry_def stmt_bind_def split: option.split)
  moreover have "ids_fresh ?d" by (rule ids_fresh_mail[OF assms(1), where r = ?row]) (simp_all add: new_outbox_row_def)
  ultimately show ?thesis by simp
qed

lemma enqueue_loop_proceeds:
  assumes "ids_fresh d" "language_ok (u_language_preference u)" "rq_userId rq \<in> u_id ` set (users d)"
    and "\<forall>i. rq_orderId rq = Some i \<longrightarrow> i \<in> o_id ` set (orders d)"
  shows "\<exists>d'. stmt_for cs (\<lambda>c. enqueue_entry (entry_for rq u key c)) d = Inr ((), d') \<and> ids_fresh d'"
  using assms(1,3,4)
proof (induction cs arbitrary: d)
  case (Cons c cs)
  obtain d1 where 1: "enqueue_entry (entry_for rq u key c) d = Inr ((), d1)" "ids_fresh d1" "users d1 = users d" "orders d1 = orders d"
    using enqueue_entry_proceeds[of d "entry_for rq u key c"] Cons.prems assms(2) by (auto simp: entry_for_def)
  then show ?case using Cons.IH[of d1] Cons.prems by (simp add: stmt_bind_def)
qed simp

lemma enqueue_proceeds:
  assumes "ids_fresh d" "find (\<lambda>u. u_id u = rq_userId rq) (users d) = Some u" "language_ok (u_language_preference u)"
    and "\<forall>i. rq_orderId rq = Some i \<longrightarrow> i \<in> o_id ` set (orders d)"
    and "rq_event rq \<in> {''order_confirmed'', ''payment_received'', ''payment_failed''}"
  shows "\<exists>d'. enqueue rq d = Inr ((), d') \<and> ids_fresh d'"
proof -
  have known: "rq_userId rq \<in> u_id ` set (users d)" using find_Some_in[OF assms(2)] by (metis imageI)
  obtain key cs where k: "templateKeyFor (rq_event rq) = Inr key" "channelsFor (rq_event rq) = Inr cs"
    using assms(5) by (auto simp: templateKeyFor_def channelsFor_def POLICIES_def)
  show ?thesis
    using enqueue_loop_proceeds[OF assms(1,3) known assms(4)] assms(2) k by (auto simp: enqueue_Inr_iff)
qed

section \<open>The statements of a settlement\<close>

text \<open>The order of the notice is there, and its customer can be notified.\<close>

definition order_known :: "db \<Rightarrow> string \<Rightarrow> order_row \<Rightarrow> bool" where
  "order_known d i o1 \<longleftrightarrow> find_order i d = Some o1 \<and>
     (\<exists>u. find (\<lambda>u. u_id u = o_customer_user_id o1) (users d) = Some u \<and> language_ok (u_language_preference u))"

lemma transition_proceeds:
  assumes "ids_fresh d" "order_known d i o1"
  shows "\<exists>d'. transitionStatus i s key d = Inr ((), d') \<and> ids_fresh d' \<and> order_known d' i (o1\<lparr>o_status := s\<rparr>)"
proof -
  have found: "find_order i d = Some o1" using assms(2) by (simp add: order_known_def)
  then have "i \<in> o_id ` set (orders d)" using find_order_None[of i d] by auto
  let ?ev = "event_of (uuids d (uuid_n d)) \<lparr>ev_orderId = i, ev_fromStatus = map_option o_status (find_order i d),
          ev_toStatus = s, ev_actorRoleId = None, ev_noteKey = Some key\<rparr> (now_ts d)"
  let ?d = "d\<lparr>uuid_n := Suc (uuid_n d), status_events := status_events d @ [?ev], orders := set_status i s (orders d)\<rparr>"
  have "transitionStatus i s key d = Inr ((), ?d)"
    using \<open>i \<in> _\<close> ids_fresh_next(2)[OF assms(1)] by (simp add: transitionStatus_def recordStatusEvent_def stmt_bind_def)
  moreover have "ids_fresh ?d" by (rule ids_fresh_event[OF assms(1), where e = ?ev]) (simp_all add: event_of_def)
  moreover have "order_known ?d i (o1\<lparr>o_status := s\<rparr>)"
    using assms(2) unfolding order_known_def find_order_eq set_status_def by (simp add: find_update_rows)
  ultimately show ?thesis by blast
qed

lemma notify_proceeds:
  assumes "ids_fresh d" "order_known d (sn_orderId notice) o1" "poishaToTaka (sn_amount notice) = Inr amount"
    and "event \<in> {''payment_received'', ''payment_failed''}"
  shows "\<exists>d'. notifyCustomer settlement_wiring notice event d = Inr ((), d') \<and> ids_fresh d' \<and>
    order_known d' (sn_orderId notice) o1"
proof -
  have found: "find_order (sn_orderId notice) d = Some o1" using assms(2) by (simp add: order_known_def)
  obtain u where u: "find (\<lambda>u. u_id u = o_customer_user_id o1) (users d) = Some u" "language_ok (u_language_preference u)"
    using assms(2) by (auto simp: order_known_def)
  have known: "sn_orderId notice \<in> o_id ` set (orders d)" using found find_order_None[of "sn_orderId notice" d] by auto
  let ?rq = "\<lparr>rq_userId = o_customer_user_id o1, rq_event = event,
              rq_params = [(''orderRef'', take 8 (sn_orderId notice)), (''amount'', amount)],
              rq_orderId = Some (sn_orderId notice),
              rq_dedupeKey = ''settle:'' @ sn_aggregator notice @ '':'' @ sn_aggregatorRef notice @ '':'' @ event\<rparr>"
  obtain d' where q: "enqueue ?rq d = Inr ((), d')" "ids_fresh d'"
    using enqueue_proceeds[of d ?rq u] assms(1,4) u known by auto
  have "notifyCustomer settlement_wiring notice event d = Inr ((), d')"
    using q(1) found assms(3) by (simp add: notifyCustomer_def findCustomer_def stmt_bind_def)
  moreover have "order_known d' (sn_orderId notice) o1"
    using assms(2) outbox_grows_same(1,5)[OF enqueue_grows[OF q(1)]] by (simp add: order_known_def find_order_def)
  ultimately show ?thesis using q(2) by blast
qed

lemma clock_proceeds:
  assumes "ids_fresh d" "order_known d (sn_orderId notice) o1" "sn_occurredAt notice = Some t"
    and "mk_date (t + deliveryWindowDays (o_is_same_city o1) * MS_PER_DAY) \<noteq> None"
  shows "\<exists>due d' o2. runClock settlement_wiring notice p d = Inr (Applied (sn_orderId notice) due, d') \<and>
    ids_fresh d' \<and> order_known d' (sn_orderId notice) o2"
proof -
  have found: "find_order (sn_orderId notice) d = Some o1" using assms(2) by (simp add: order_known_def)
  obtain at_due where due: "mk_date (t + deliveryWindowDays (o_is_same_city o1) * MS_PER_DAY) = Some at_due" using assms(4) by blast
  let ?stamped = "d\<lparr>orders := update_rows (\<lambda>o1. o_id o1 = sn_orderId notice) (stamp_row t at_due) (orders d)\<rparr>"
  have "ids_fresh ?stamped" using assms(1) by (simp add: ids_fresh_def)
  moreover have "order_known ?stamped (sn_orderId notice) (stamp_row t at_due o1)"
    using assms(2) find_update_rows[of o_id "stamp_row t at_due" "sn_orderId notice" "sn_orderId notice" "orders d"]
    by (simp add: order_known_def find_order_eq stamp_row_def)
  moreover have "runClock settlement_wiring notice p d = Inr (Applied (sn_orderId notice) None, d) \<or>
      runClock settlement_wiring notice p d = Inr (Applied (sn_orderId notice) (Some (Some at_due)), ?stamped)"
    using found due assms(3)
    by (cases "t_is_advance p"; cases "o_advance_paid_at o1")
       (simp_all add: runClock_def findForSettlement_def stmt_bind_def computeDeliveryDeadline_def Let_def
        startDeliveryClock_def stampDeliveryClock_def timestamptz_in_def)
  ultimately show ?thesis using assms(1,2) by blast
qed

lemma settle_proceeds:
  assumes "ids_fresh d" "order_known d (sn_orderId notice) o1" "sn_occurredAt notice = Some t"
    and "mk_date (t + deliveryWindowDays (o_is_same_city o1) * MS_PER_DAY) \<noteq> None"
    and "poishaToTaka (sn_amount notice) = Inr amount"
    and "ref_free (t_id p) (sn_aggregator notice) (sn_aggregatorRef notice) d"
  shows "\<exists>due d' o2. settle settlement_wiring notice p d = Inr (Applied (sn_orderId notice) due, d') \<and>
    ids_fresh d' \<and> order_known d' (sn_orderId notice) o2"
proof -
  let ?i = "sn_orderId notice"
  let ?d1 = "d\<lparr>transactions := update_rows (\<lambda>t1. t_id t1 = t_id p)
      (settled_row (sn_aggregator notice) (sn_aggregatorRef notice) t) (transactions d)\<rparr>"
  have mark: "markSettled (t_id p) (sn_aggregator notice) (sn_aggregatorRef notice) (sn_occurredAt notice) d = Inr ((), ?d1)"
    using assms(3,6) by (simp add: markSettled_Inr)
  have known1: "ids_fresh ?d1" "order_known ?d1 ?i o1"
    using assms(1,2) by (simp_all add: ids_fresh_def order_known_def find_order_def)
  obtain d2 where tr: "transitionStatus ?i Confirmed ''order.event.payment_received'' ?d1 = Inr ((), d2)"
    and known2: "ids_fresh d2" "order_known d2 ?i (o1\<lparr>o_status := Confirmed\<rparr>)"
    using transition_proceeds[OF known1] by blast
  obtain d3 where n: "notifyCustomer settlement_wiring notice ''payment_received'' d2 = Inr ((), d3)"
    and known3: "ids_fresh d3" "order_known d3 ?i (o1\<lparr>o_status := Confirmed\<rparr>)"
    using notify_proceeds[OF known2 assms(5), of "''payment_received''"] by auto
  have same_city: "mk_date (t + deliveryWindowDays (o_is_same_city (o1\<lparr>o_status := Confirmed\<rparr>)) * MS_PER_DAY) \<noteq> None"
    using assms(4) by simp
  obtain due d4 o2 where c: "runClock settlement_wiring notice p d3 = Inr (Applied ?i due, d4)" "ids_fresh d4" "order_known d4 ?i o2"
    using clock_proceeds[OF known3 assms(3) same_city, of p] by blast
  have "settle settlement_wiring notice p d = Inr (Applied ?i due, d4)"
    using mark tr n c(1) by (simp add: settle_def stmt_bind_def)
  then show ?thesis using c(2,3) by blast
qed

lemma failure_proceeds:
  assumes "ids_fresh d" "order_known d (sn_orderId notice) o1"
    and "poishaToTaka (sn_amount notice) = Inr amount"
    and "ref_free (t_id p) (sn_aggregator notice) (sn_aggregatorRef notice) d"
  shows "\<exists>d'. recordFailure settlement_wiring notice p d = Inr (Applied (sn_orderId notice) None, d')"
proof -
  let ?i = "sn_orderId notice"
  let ?d1 = "d\<lparr>transactions := update_rows (\<lambda>t1. t_id t1 = t_id p)
      (refused_row (sn_aggregator notice) (sn_aggregatorRef notice)) (transactions d)\<rparr>"
  have mark: "markPaymentFailed (t_id p) (sn_aggregator notice) (sn_aggregatorRef notice) d = Inr ((), ?d1)"
    using assms(4) by (simp add: markPaymentFailed_Inr)
  have known1: "ids_fresh ?d1" "order_known ?d1 ?i o1"
    using assms(1,2) by (simp_all add: ids_fresh_def order_known_def find_order_def)
  obtain d2 where tr: "transitionStatus ?i Awaiting_Payment ''order.event.payment_failed'' ?d1 = Inr ((), d2)"
    and known2: "ids_fresh d2" "order_known d2 ?i (o1\<lparr>o_status := Awaiting_Payment\<rparr>)"
    using transition_proceeds[OF known1] by blast
  obtain d3 where "notifyCustomer settlement_wiring notice ''payment_failed'' d2 = Inr ((), d3)"
    using notify_proceeds[OF known2 assms(3), of "''payment_failed''"] by auto
  then show ?thesis using mark tr by (simp add: recordFailure_def stmt_bind_def)
qed

section \<open>A genuine notice\<close>

lemma settlement_proceeds:
  assumes "inflight w = None" "tx_faults w = []" "ids_fresh (committed w)"
    and "sn_outcome notice = Outcome_Settled" "sn_occurredAt notice = Some t"
    and p: "p \<in> set (transactions (committed w))" "pending_for (sn_orderId notice) p"
      "\<forall>q\<in>set (transactions (committed w)). pending_for (sn_orderId notice) q \<longrightarrow> q = p"
    and "\<forall>q\<in>set (transactions (committed w)). \<not> carries_ref (sn_aggregator notice) (sn_aggregatorRef notice) q"
    and amount: "sn_amount notice = of_int (t_amount_bdt p)" "\<bar>t_amount_bdt p\<bar> < 10 ^ 12"
    and "order_known (committed w) (sn_orderId notice) o1"
    and "mk_date (t + deliveryWindowDays (o_is_same_city o1) * MS_PER_DAY) \<noteq> None"
  shows "\<exists>due d'. applySettlement settlement_wiring notice w = (Inr (Applied (sn_orderId notice) due), w\<lparr>committed := d'\<rparr>) \<and>
    settle settlement_wiring notice p (started w) = Inr (Applied (sn_orderId notice) due, d')"
proof -
  let ?d = "started w" and ?i = "sn_orderId notice"
  have ref: "find (carries_ref (sn_aggregator notice) (sn_aggregatorRef notice)) (transactions ?d) = None"
    using assms(9) by (simp add: find_None_all)
  have pending: "first_row (sort_key t_occurred_at (filter (pending_for ?i) (transactions ?d))) = Some p"
  proof (cases "first_row (sort_key t_occurred_at (filter (pending_for ?i) (transactions ?d)))")
    case None
    then show ?thesis using p(1,2) by (simp add: no_first_pending)
  next
    case (Some q)
    then show ?thesis using first_pending[OF Some] p(3) by simp
  qed
  have small: "\<bar>t_amount_bdt p\<bar> < 2 ^ 53" "\<bar>t_amount_bdt p\<bar> \<le> 999999999999" using amount(2) by simp_all
  have taka: "takaToPoisha (numeric_out (t_amount_bdt p)) = Inr (sn_amount notice)"
    using takaToPoisha_money_text[OF small(1)] amount(1) by (simp add: numeric_out_def)
  have text_of: "poishaToTaka (sn_amount notice) = Inr (money_text (t_amount_bdt p))"
    using poishaToTaka_of_int[OF small(2)] amount(1) by simp
  have free: "ref_free (t_id p) (sn_aggregator notice) (sn_aggregatorRef notice) ?d"
    using assms(9) by (simp add: ref_free_def)
  have known: "ids_fresh ?d" "order_known ?d ?i o1"
    using assms(3,12) by (simp_all add: ids_fresh_def order_known_def find_order_def started_def)
  obtain due d4 where st: "settle settlement_wiring notice p ?d = Inr (Applied ?i due, d4)"
    using settle_proceeds[OF known assms(5,13) text_of free] by blast
  have "settlementWork settlement_wiring notice ?d = Inr (Applied ?i due, d4)"
    using ref pending taka st assms(4)
    by (simp add: settlementWork_def findByAggregatorRef_eq findPendingForOrder_eq applyToPending_def stmt_bind_def)
  then show ?thesis using assms(1,2) st by (simp add: applySettlement_def transact_no_fault)
qed

text \<open>
  C13. A genuine settlement goes through: when exactly one payment is pending for the order, the
  notice carries its amount and a reference not seen before, the time of payment and the deadline
  are representable dates, the customer is known with a supported language, and neither the
  connection nor the id generator fails, the answer is \<open>applied\<close>: no statement of the
  transaction can fail and no check can reject it.
\<close>

theorem genuine_settlement_applies:
  assumes "inflight w = None" "tx_faults w = []" "ids_fresh (committed w)"
    and "sn_outcome notice = Outcome_Settled" "sn_occurredAt notice = Some t"
    and p: "p \<in> set (transactions (committed w))" "pending_for (sn_orderId notice) p"
      "\<forall>q\<in>set (transactions (committed w)). pending_for (sn_orderId notice) q \<longrightarrow> q = p"
    and "\<forall>q\<in>set (transactions (committed w)). \<not> carries_ref (sn_aggregator notice) (sn_aggregatorRef notice) q"
    and amount: "sn_amount notice = of_int (t_amount_bdt p)" "\<bar>t_amount_bdt p\<bar> < 10 ^ 12"
    and "order_known (committed w) (sn_orderId notice) o1"
    and "mk_date (t + deliveryWindowDays (o_is_same_city o1) * MS_PER_DAY) \<noteq> None"
  shows "\<exists>due w'. applySettlement settlement_wiring notice w = (Inr (Applied (sn_orderId notice) due), w')"
  using settlement_proceeds[OF assms] by blast

theorem genuine_settlement_applies_witness:
  "\<exists>due w'. applySettlement settlement_wiring (sample_notice Outcome_Settled) sample_paid_world = (Inr (Applied ''order1'' due), w')"
proof -
  have fresh: "ids_fresh (committed sample_paid_world)"
    using sample_ids by (simp add: ids_fresh_def sample_paid_world_def) (simp add: sample_db_def)
  have known: "order_known (committed sample_paid_world) (sn_orderId (sample_notice Outcome_Settled)) sample_order"
    by (simp add: order_known_def find_order_eq sample_paid_world_def sample_notice_def)
       (simp add: sample_order_def sample_db_def language_ok_def)
  have "\<exists>due w'. applySettlement settlement_wiring (sample_notice Outcome_Settled) sample_paid_world =
      (Inr (Applied (sn_orderId (sample_notice Outcome_Settled)) due), w')"
    by (rule genuine_settlement_applies[OF _ _ fresh _ _ _ _ _ _ _ _ known, where t = 5000 and p = sample_payment])
       (simp_all add: sample_paid_world_def sample_notice_def sample_payment_def pending_for_def carries_ref_def
         mk_date_def MAX_TIME_def sample_order_def deliveryWindowDays_def DIFFERENT_CITY_DELIVERY_DAYS_def MS_PER_DAY_def)
  then show ?thesis by (simp add: sample_notice_def)
qed

end
