(* ===== verification/Overlap.thy ===== *)
theory Overlap
  imports Races Mail Progress
begin

text \<open>
  Histories in which transactions overlap. Under \<open>READ COMMITTED\<close> every statement sees what is
  committed when it runs, so a transaction may read at one time and write at another. Its writes
  are taken together: the first of them locks the row the others hang on (the payment, the role,
  the outbox row), and a statement that is one atomic write (\<open>ON CONFLICT\<close>) is as before.
\<close>

section \<open>The histories\<close>

text \<open>
  The committed tables over time, the latest first. A request may be served at once (\<open>serves\<close>,
  which has the late writes of a checkout and of a publication). A settlement may have looked up
  its reference and found its payment pending at earlier times; a KYC submission may have checked the
  role at an earlier time; a dispatcher may deliver a row it claimed at an earlier time.
\<close>

inductive overlaps :: "'r redis_client \<Rightarrow> db list \<Rightarrow> bool" for R where
  start: "overlaps R [d]"
| at_once: "overlaps R (d # ds) \<Longrightarrow> serves R d d' \<Longrightarrow> overlaps R (d' # d # ds)"
| late_settlement: "overlaps R (committed w # ds) \<Longrightarrow> d1 \<in> set (committed w # ds) \<Longrightarrow> d2 \<in> set (committed w # ds) \<Longrightarrow>
    findByAggregatorRef (sn_aggregator notice) (sn_aggregatorRef notice) d1 = Inr (None, d1) \<Longrightarrow>
    findPendingForOrder (sn_orderId notice) d2 = Inr (Some p, d2) \<Longrightarrow>
    transact (applyToPending settlement_wiring notice p) (w :: world) = (result, w') \<Longrightarrow> inflight w = None \<Longrightarrow>
    overlaps R (committed w' # committed w # ds)"
| late_submission: "overlaps R (committed w # ds) \<Longrightarrow> d1 \<in> set (committed w # ds) \<Longrightarrow>
    findRoles (ky_userId (command :: submit_kyc_command)) d1 = Inr (held, d1) \<Longrightarrow> find (\<lambda>r. ar_id r = activeRoleId) held = Some role \<Longrightarrow>
    \<not> ar_kycVerified role \<Longrightarrow>
    transact (submitKyc (ky_userId command) (ar_id role) nid (ky_documentUrls command)) (w :: world) = (answer, w') \<Longrightarrow>
    inflight w = None \<Longrightarrow> overlaps R (committed w' # committed w # ds)"
| late_delivery: "overlaps R (committed w # ds) \<Longrightarrow> d1 \<in> set (committed w # ds) \<Longrightarrow>
    claimPending locked limit d1 = Inr (rows, d1) \<Longrightarrow> row \<in> set rows \<Longrightarrow>
    Dispatcher.deliver dp row w = (delivery, w') \<Longrightarrow> inflight w = None \<Longrightarrow>
    overlaps R (committed w' # committed w # ds)"

section \<open>Contracts on overlapping histories\<close>

lemma found_pending:
  assumes "findPendingForOrder i d = Inr (Some p, d1)"
  shows "p \<in> set (transactions d)" "t_order_id p = i"
proof -
  have "first_row (sort_key t_occurred_at (filter (pending_for i) (transactions d))) = Some p"
    using assms unfolding findPendingForOrder_eq sum.inject prod.inject by (rule conjunct1)
  then have "p \<in> set (transactions d) \<and> pending_for i p" by (rule first_pending)
  then show "p \<in> set (transactions d)" "t_order_id p = i" using pending_order by blast+
qed

text \<open>A late write may rely on what an earlier state, related to the present one, held.\<close>

locale overlap_contract = service_contract +
  assumes late_settlement_write: "pre d \<Longrightarrow> p \<in> set (transactions d0) \<Longrightarrow> t_order_id p = sn_orderId notice \<Longrightarrow> rel d0 d \<Longrightarrow>
      applyToPending settlement_wiring notice p d = Inr (res, d') \<Longrightarrow> rel d d'"
    and late_submission_write: "pre d \<Longrightarrow> submitKyc u i nid urls d = Inr (x, d') \<Longrightarrow> rel d d'"
begin

text \<open>A late write extends a history in which every state is related to the latest.\<close>

lemma extend:
  assumes "\<forall>d\<in>set (d1 # ds). pre d \<and> rel d d1" "rel d1 d2"
  shows "\<forall>d\<in>set (d2 # d1 # ds). pre d \<and> rel d d2"
proof
  fix d assume d: "d \<in> set (d2 # d1 # ds)"
  show "pre d \<and> rel d d2"
  proof (cases "d = d2")
    case True
    have "pre d1" using assms(1) by simp
    then show ?thesis using True keeps[OF assms(2)] refl by simp
  next
    case False
    then have "pre d \<and> rel d d1" using d assms(1) by auto
    then show ?thesis using trans[of d d1 d2] assms(2) by simp
  qed
qed

lemma latest: "\<forall>d\<in>set (d1 # ds). pre d \<and> rel d d1 \<Longrightarrow> pre d1"
  by simp

lemma related: "\<forall>d\<in>set (d1 # ds). pre d \<and> rel d d1 \<Longrightarrow> d \<in> set (d1 # ds) \<Longrightarrow> rel d d1"
  by (drule (1) bspec) (rule conjunct2)

lemma overlapped:
  assumes "overlaps R ds" "pre (last ds)"
  shows "ds \<noteq> [] \<and> (\<forall>d\<in>set ds. pre d \<and> rel d (hd ds))"
  using assms
proof (induction rule: overlaps.induct)
  case (start d)
  then show ?case by (simp add: refl)
next
  case (at_once d ds d')
  have "pre (last (d # ds))" using at_once.prems unfolding last_ConsR[OF list.distinct(2)] .
  from at_once.IH[OF this] have all: "\<forall>d1\<in>set (d # ds). pre d1 \<and> rel d1 d" unfolding list.sel(1) by (rule conjunct2)
  have "pre d" using all by (rule latest)
  show ?case unfolding list.sel(1) by (rule conjI[OF list.distinct(2) extend[OF all served[OF at_once.hyps(2) \<open>pre d\<close>]]])
next
  case (late_settlement w ds d1 d2 notice p result w')
  have "pre (last (committed w # ds))" using late_settlement.prems unfolding last_ConsR[OF list.distinct(2)] .
  from late_settlement.IH[OF this] have all: "\<forall>d\<in>set (committed w # ds). pre d \<and> rel d (committed w)"
    unfolding list.sel(1) by (rule conjunct2)
  have w: "pre (committed w)" using all by (rule latest)
  have d2: "rel d2 (committed w)" using all late_settlement.hyps(3) by (rule related)
  note p = found_pending[OF late_settlement.hyps(5)]
  have "rel (committed w) (committed w')"
    using pg.all_or_nothing[OF late_settlement.hyps(7,6)]
  proof (elim disjE exE conjE)
    fix a assume m: "applyToPending settlement_wiring notice p (started w) = Inr (a, committed w')"
    have "rel (started w) (committed w')"
      by (rule late_settlement_write[OF keeps[OF to_start w] p trans[OF d2 to_start] m])
    then show ?thesis by (rule trans[OF to_start])
  next
    assume "committed w' = committed w"
    then show ?thesis using refl by simp
  qed
  then show ?case unfolding list.sel(1) by (rule conjI[OF list.distinct(2) extend[OF all]])
next
  case (late_submission w ds d1 command held activeRoleId role nid answer w')
  have "pre (last (committed w # ds))" using late_submission.prems unfolding last_ConsR[OF list.distinct(2)] .
  from late_submission.IH[OF this] have all: "\<forall>d\<in>set (committed w # ds). pre d \<and> rel d (committed w)"
    unfolding list.sel(1) by (rule conjunct2)
  have w: "pre (committed w)" using all by (rule latest)
  have "fulfils pre rel (transact (submitKyc (ky_userId command) (ar_id role) nid (ky_documentUrls command)))"
    by (rule in_transaction) (rule late_submission_write)
  note written = fulfilsD[OF this late_submission.hyps(6,7) w]
  show ?case unfolding list.sel(1) by (rule conjI[OF list.distinct(2) extend[OF all conjunct2[OF written]]])
next
  case (late_delivery w ds d1 locked limit rows row dp delivery w')
  have "pre (last (committed w # ds))" using late_delivery.prems unfolding last_ConsR[OF list.distinct(2)] .
  from late_delivery.IH[OF this] have all: "\<forall>d\<in>set (committed w # ds). pre d \<and> rel d (committed w)"
    unfolding list.sel(1) by (rule conjunct2)
  have w: "pre (committed w)" using all by (rule latest)
  note written = fulfilsD[OF delivers late_delivery.hyps(5,6) w]
  show ?case unfolding list.sel(1) by (rule conjI[OF list.distinct(2) extend[OF all conjunct2[OF written]]])
qed

end

section \<open>The two contracts\<close>

lemma applyToPending_racing:
  assumes p: "p \<in> set (transactions d0)" "t_order_id p = sn_orderId notice" and before: "racing_steps d0 d"
    and a: "applyToPending settlement_wiring notice p d = Inr (res, d')"
  shows "racing_steps d d'"
proof -
  obtain p1 where p1: "p1 \<in> set (transactions d)" and same: "same_payment p p1"
    using payment_persists[OF before p(1)] by blast
  have eq: "t_id p1 = t_id p" "t_order_id p1 = sn_orderId notice" "clock_due notice p1 = clock_due notice p"
    using same p(2) by (auto simp: same_payment_def clock_due_def)
  consider "d' = d" | "recordFailure settlement_wiring notice p d = Inr (res, d')" | "settle settlement_wiring notice p d = Inr (res, d')"
    using a by (auto simp: applyToPending_def stmt_bind_Inr_iff stmt_lift_Inr_iff split: if_splits)
  then show ?thesis
  proof cases
    case 2
    then have "racing_step d d'"
    proof (rule paid.recordFailure_Inr, goal_cases)
      case (1 o1 e)
      show ?case by (rule refuse_late[OF p1 eq(2)]) (use 1 eq in \<open>simp_all add: frames mail_queued_def\<close>)
    qed
    then show ?thesis by simp
  next
    case 3
    then have "racing_step d d'"
    proof (rule paid.settle_Inr, goal_cases)
      case (1 t o1 e)
      show ?case by (rule settle_late[OF 1(1) p1 eq(2) 1(3)]) (use 1 eq in \<open>simp_all add: frames mail_queued_def\<close>)
    qed
    then show ?thesis by simp
  qed simp
qed

lemma submitKyc_step:
  assumes "submitKyc u i nid urls d = Inr (x, d')"
  shows "platform_step d d'"
proof -
  obtain k where d': "d' = d\<lparr>users := update_rows (\<lambda>w. u_id w = u) (nid_row nid) (users d),
     roles := update_rows (\<lambda>w. r_id w = i) pending_role (roles d), uuid_n := Suc (uuid_n d),
     kyc_submissions := kyc_submissions d @ [k]\<rparr>"
    using submitKyc_Inr[OF assms] by blast
  show ?thesis by (rule submit_kyc[where u = u and nid = nid and i = i and k = k]) (simp_all add: d' frames)
qed

interpretation racing: overlap_contract prices_ok racing_steps
proof unfold_locales
  show "racing_steps a c" if "racing_steps a b" "racing_steps b c" for a b c using that by (rule rtranclp_trans)
  show "racing_steps d (d\<lparr>now_ts := t\<rparr>)" for d t by (rule platform_racing) (rule platform.now)
  show "racing_steps d d'" if "applyToPending settlement_wiring notice p d = Inr (res, d')" "p \<in> set (transactions d0)"
    "t_order_id p = sn_orderId notice" "racing_steps d0 d" for d d0 d' notice p res
    using that(2-4,1) by (rule applyToPending_racing)
  show "racing_steps d d'" if "submitKyc u i nid urls d = Inr (x, d')" for u i nid urls x d d'
    by (rule platform_racing, rule r_into_rtranclp, rule submitKyc_step[OF that])
  show "racing_steps d d'" if "prices_ok d" "prices_ok (committed w)" "prepareOrder checkout_wiring env command w = (Inr p, w1)"
    "writeOrder checkout_wiring command (pc_total (pp_priced p)) (pp_record p) d = Inr (i, d')"
    for d env command p i d' and w w1 :: world
    by (rule platform_racing) (rule platform.order_write[OF that])
  show "racing_steps d d'" if "prices_ok d" "poishaToTaka (cg_priceBdtPoisha goods) = Inr price"
    "insertListing (listing_record goods role pk price pickup) d = Inr (i, d')" for d goods price role pk pickup i d'
    by (rule platform_racing) (rule platform.listing_write[OF that])
qed (auto intro!: platform_racing intro: racing_prices otp_work_steps createMerchantRole_steps kyc_work_steps
    createLocation_steps settlementWork_steps mark_steps)

interpretation mail_late: overlap_contract "\<lambda>_. True" mail_kept
proof unfold_locales
  show "mail_kept d d'" if "submitKyc u i nid urls d = Inr (x, d')" for u i nid urls x d d'
    using submitKyc_Inr[OF that] by (auto intro: mail_kept_same)
qed (rule applyToPending_mail)

section \<open>Properties\<close>

text \<open>
  C37. A late failure undoes a settlement. A failure notice that found the payment pending before the
  settlement committed is applied after it: the update that marks the payment does not ask
  whether it is still pending. The order goes back to awaiting payment with its only payment
  marked failed, while its delivery clock keeps running.
\<close>

theorem late_failure_unsettles:
  assumes "overlaps R (committed w # ds)" "d2 \<in> set ds"
    and "findByAggregatorRef (sn_aggregator notice) (sn_aggregatorRef notice) d2 = Inr (None, d2)"
    and "findPendingForOrder (sn_orderId notice) d2 = Inr (Some p, d2)"
    and notice: "sn_outcome (notice :: settlement_notice) = Outcome_Failed" "sn_amount notice = of_int (t_amount_bdt p)" "\<bar>t_amount_bdt p\<bar> < 10 ^ 12"
    and w: "inflight (w :: world) = None" "tx_faults w = []" "ids_fresh (committed w)"
    and o1: "order_known (committed w) (sn_orderId notice) o1" "o_advance_paid_at o1 = Some paid"
    and only: "\<forall>t\<in>set (transactions (committed w)). t_order_id t = sn_orderId notice \<longrightarrow> t_id t = t_id p"
    and free: "\<forall>t\<in>set (transactions (committed w)). \<not> carries_ref (sn_aggregator notice) (sn_aggregatorRef notice) t"
  shows "\<exists>(w' :: world) o2. overlaps R (committed w' # committed w # ds) \<and> find_order (sn_orderId notice) (committed w') = Some o2 \<and>
     o_status o2 = Awaiting_Payment \<and> o_advance_paid_at o2 = Some paid \<and>
     (\<forall>t\<in>set (transactions (committed w')). t_order_id t = sn_orderId notice \<longrightarrow> t_status t = Failed)"
proof -
  let ?i = "sn_orderId notice"
  have small: "\<bar>t_amount_bdt p\<bar> < 2 ^ 53" "\<bar>t_amount_bdt p\<bar> \<le> 999999999999" using notice(3) by simp_all
  have taka: "takaToPoisha (numeric_out (t_amount_bdt p)) = Inr (sn_amount notice)"
    using takaToPoisha_money_text[OF small(1)] notice(2) by (simp add: numeric_out_def)
  have text_of: "poishaToTaka (sn_amount notice) = Inr (money_text (t_amount_bdt p))"
    using poishaToTaka_of_int[OF small(2)] notice(2) by simp
  have d: "ids_fresh (started w)" "order_known (started w) ?i o1"
    "ref_free (t_id p) (sn_aggregator notice) (sn_aggregatorRef notice) (started w)"
    using w(3) o1(1) free by (simp_all add: started_def ids_fresh_def order_known_def find_order_def ref_free_def)
  obtain d' where f: "recordFailure settlement_wiring notice p (started w) = Inr (Applied ?i None, d')"
    using failure_proceeds[OF d(1,2) text_of d(3)] by blast
  let ?w' = "w\<lparr>committed := d'\<rparr>"
  have "transact (applyToPending settlement_wiring notice p) w = (Inr (Applied ?i None), ?w')"
    using f taka notice(1) w(1,2) by (simp add: transact_no_fault applyToPending_def stmt_bind_def)
  then have h: "overlaps R (committed ?w' # committed w # ds)"
    using late_settlement[OF assms(1) _ _ assms(3,4) _ w(1)] assms(2) by auto
  show ?thesis
    using f
  proof (rule paid.recordFailure_Inr, goal_cases)
    case (1 o0 e)
    have "find_order ?i (started w) = Some o1" using d(2) by (simp add: order_known_def)
    then have after: "find_order ?i d' = Some (o1\<lparr>o_status := Awaiting_Payment\<rparr>)"
      unfolding find_order_eq 1(4) set_status_def by (simp add: find_update_rows)
    have failed: "t_status t = Failed" if t: "t \<in> set (transactions d')" "t_order_id t = ?i" for t
    proof -
      obtain t0 where t0: "t0 \<in> set (transactions (started w))"
        "t = (if t_id t0 = t_id p then refused_row (sn_aggregator notice) (sn_aggregatorRef notice) t0 else t0)"
        using t(1) unfolding 1(3) in_update_rows by blast
      then have "t_order_id t0 = ?i" using t(2) by (simp split: if_splits)
      then have "t_id t0 = t_id p" using only t0(1) by (simp add: started_def)
      then show ?thesis using t0(2) by (simp add: refused_row_def)
    qed
    show ?case
      by (intro exI[of _ "w\<lparr>committed := d'\<rparr>"] exI[of _ "o1\<lparr>o_status := Awaiting_Payment\<rparr>"])
         (use h o1(2) after failed in simp)
  qed
qed

text \<open>The settlement of the small database, of a payment read as pending before.\<close>

lemma sample_late_settlement:
  obtains w1 :: world and o1 where "overlaps R [committed w1, committed sample_paid_world]"
    "inflight w1 = None" "tx_faults w1 = []" "ids_fresh (committed w1)" "order_known (committed w1) ''order1'' o1"
    "o_advance_paid_at o1 = Some 5000"
    "transactions (committed w1) = [settled_row ''bkash'' ''ref1'' 5000 sample_payment]"
proof -
  let ?w = sample_paid_world and ?n = "sample_notice Outcome_Settled"
  have w: "inflight ?w = None" "tx_faults ?w = []" "started ?w = committed ?w"
    "transactions (committed ?w) = [sample_payment]" "orders (committed ?w) = [sample_order]"
    by (simp_all add: sample_paid_world_def started_def sample_db_def)
  have n: "sn_orderId ?n = ''order1''" "sn_aggregator ?n = ''bkash''" "sn_aggregatorRef ?n = ''ref1''" "sn_amount ?n = 4000"
    "sn_occurredAt ?n = Some 5000" "sn_outcome ?n = Outcome_Settled"
    by (simp_all add: sample_notice_def)
  have pay: "t_id sample_payment = ''pay1''" "t_amount_bdt sample_payment = 4000" "pending_for ''order1'' sample_payment"
    "\<not> carries_ref a r sample_payment" "t_is_advance sample_payment" for a r
    by (simp_all add: sample_payment_def pending_for_def carries_ref_def)
  have fresh: "ids_fresh (committed ?w)"
    using sample_ids by (simp add: ids_fresh_def sample_paid_world_def) (simp add: sample_db_def)
  have known: "order_known (committed ?w) (sn_orderId ?n) sample_order"
    unfolding n by (simp add: order_known_def find_order_eq sample_paid_world_def)
       (simp add: sample_order_def sample_db_def language_ok_def)
  have amount: "poishaToTaka (sn_amount ?n) = Inr (money_text 4000)" "takaToPoisha (numeric_out 4000) = Inr 4000"
    unfolding n using poishaToTaka_of_int[of 4000] takaToPoisha_money_text[of 4000] by (simp_all add: numeric_out_def)
  have due: "mk_date (5000 + deliveryWindowDays (o_is_same_city sample_order) * MS_PER_DAY) \<noteq> None"
    by (simp add: sample_order_def deliveryWindowDays_def DIFFERENT_CITY_DELIVERY_DAYS_def MS_PER_DAY_def mk_date_def MAX_TIME_def)
  have free: "ref_free (t_id sample_payment) (sn_aggregator ?n) (sn_aggregatorRef ?n) (committed ?w)"
    by (simp add: ref_free_def w)
  obtain res d1 o1 where s: "settle settlement_wiring ?n sample_payment (committed ?w) = Inr (res, d1)"
    and d1: "ids_fresh d1" "order_known d1 ''order1'' o1"
    using settle_proceeds[OF fresh known n(5) due amount(1) free] unfolding n by blast
  let ?w1 = "?w\<lparr>committed := d1\<rparr>"
  have "transact (applyToPending settlement_wiring ?n sample_payment) ?w = (Inr res, ?w1)"
    using s amount(2) w(1-3) n pay by (simp add: transact_no_fault applyToPending_def stmt_bind_def)
  note step = this
  have found: "findByAggregatorRef (sn_aggregator ?n) (sn_aggregatorRef ?n) (committed ?w) = Inr (None, committed ?w)"
    "findPendingForOrder (sn_orderId ?n) (committed ?w) = Inr (Some sample_payment, committed ?w)"
    using w(4) pay n by (simp_all add: findByAggregatorRef_eq findPendingForOrder_eq)
  have h: "overlaps R [committed ?w1, committed ?w]"
    by (rule late_settlement[OF start _ _ found step w(1)]) simp_all
  have "o_advance_paid_at o1 = Some 5000 \<and> transactions d1 = [settled_row ''bkash'' ''ref1'' 5000 sample_payment]"
    using s
  proof (rule paid.settle_Inr, goal_cases)
    case (1 t o0 e)
    have "find_order ''order1'' d1 = Some (confirmed_row (clock_due ?n sample_payment o0) sample_order)"
      using 1(5) n(1) w(5) by (simp add: find_order_eq sample_order_def)
    then have "o1 = confirmed_row (clock_due ?n sample_payment o0) sample_order" using d1(2) by (simp add: order_known_def)
    moreover have "o_advance_paid_at sample_order = None" by (simp add: sample_order_def)
    moreover have "o0 = sample_order" using 1(3) n(1) w(5) by (simp add: find_order_eq sample_order_def)
    moreover have "t = 5000" using 1(1) n(5) by simp
    ultimately show ?case
      using 1(4) n(2,3,5) w(4) pay(1,5) by (simp add: confirmed_row_def clock_due_def stamp_row_def)
  qed
  then show thesis using that[of ?w1 o1] h d1 w(1,2) by simp
qed

theorem late_failure_unsettles_witness:
  "\<exists>(w' :: world) d o2. overlaps map_redis [committed w', d, committed sample_paid_world] \<and>
     find_order ''order1'' (committed w') = Some o2 \<and> o_advance_paid_at o2 = Some 5000 \<and> o_status o2 = Awaiting_Payment"
proof -
  obtain w1 :: world and o1 where w1: "overlaps map_redis [committed w1, committed sample_paid_world]"
    "inflight w1 = None" "tx_faults w1 = []" "ids_fresh (committed w1)" "order_known (committed w1) ''order1'' o1"
    "o_advance_paid_at o1 = Some 5000" "transactions (committed w1) = [settled_row ''bkash'' ''ref1'' 5000 sample_payment]"
    using sample_late_settlement[where R = map_redis] .
  let ?n = "(sample_notice Outcome_Failed)\<lparr>sn_aggregatorRef := ''ref2''\<rparr>"
  have n: "sn_orderId ?n = ''order1''" "sn_aggregator ?n = ''bkash''" "sn_aggregatorRef ?n = ''ref2''" "sn_amount ?n = 4000"
    "sn_outcome ?n = Outcome_Failed"
    by (simp_all add: sample_notice_def)
  have ts: "transactions (committed sample_paid_world) = [sample_payment]" by (simp add: sample_paid_world_def)
  have pay: "pending_for ''order1'' sample_payment" "\<not> carries_ref a r sample_payment" for a r
    by (simp_all add: sample_payment_def pending_for_def carries_ref_def)
  have found: "findByAggregatorRef (sn_aggregator ?n) (sn_aggregatorRef ?n) (committed sample_paid_world) =
      Inr (None, committed sample_paid_world)"
    "findPendingForOrder (sn_orderId ?n) (committed sample_paid_world) = Inr (Some sample_payment, committed sample_paid_world)"
    using ts pay n by (simp_all add: findByAggregatorRef_eq findPendingForOrder_eq)
  have known: "order_known (committed w1) (sn_orderId ?n) o1" using w1(5) n(1) by simp
  have "\<exists>(w' :: world) o2. overlaps map_redis [committed w', committed w1, committed sample_paid_world] \<and>
      find_order (sn_orderId ?n) (committed w') = Some o2 \<and> o_status o2 = Awaiting_Payment \<and> o_advance_paid_at o2 = Some 5000 \<and>
      (\<forall>t\<in>set (transactions (committed w')). t_order_id t = sn_orderId ?n \<longrightarrow> t_status t = Failed)"
    by (rule late_failure_unsettles[OF w1(1) _ found _ _ _ w1(2-4) known w1(6)])
       (use n w1(7) in \<open>simp_all add: sample_payment_def settled_row_def carries_ref_def\<close>)
  then show ?thesis using n(1) by metis
qed

end
