(* ===== verification/Timeline.thy ===== *)
theory Timeline
  imports Overlap
begin

text \<open>
  The status timeline \<open>order_status_events\<close> is the audit trail of every order: a third contract
  of the services (beside those of theories \<open>Refinement\<close> and \<open>Mail\<close>), which says that the trail
  of an order is complete, from its creation to the status it has, and is only ever extended.
\<close>

section \<open>Complete trails\<close>

text \<open>The transitions the services make: an order is created once, then a payment notice confirms it or sends it back.\<close>

fun allowed :: "order_status option \<Rightarrow> order_status \<Rightarrow> bool" where
  "allowed None s \<longleftrightarrow> s = Created"
| "allowed (Some _) s \<longleftrightarrow> s = Confirmed \<or> s = Awaiting_Payment"

text \<open>Events that lead from one status to another, each starting where the one before ended.\<close>

fun leads :: "order_status option \<Rightarrow> status_event_row list \<Rightarrow> order_status option \<Rightarrow> bool" where
  "leads s [] t \<longleftrightarrow> s = t"
| "leads s (e # es) t \<longleftrightarrow> se_from_status e = s \<and> allowed s (se_to_status e) \<and> leads (Some (se_to_status e)) es t"

definition trail :: "string \<Rightarrow> db \<Rightarrow> status_event_row list" where
  "trail i d = filter (\<lambda>e. se_order_id e = i) (status_events d)"

definition timeline_ok :: "db \<Rightarrow> bool" where
  "timeline_ok d \<longleftrightarrow> distinct (map o_id (orders d)) \<and>
     (\<forall>e\<in>set (status_events d). se_order_id e \<in> o_id ` set (orders d)) \<and>
     (\<forall>o1\<in>set (orders d). leads None (trail (o_id o1) d) (Some (o_status o1)))"

definition timeline_kept :: "db \<Rightarrow> db \<Rightarrow> bool" where
  "timeline_kept d d' \<longleftrightarrow> (\<exists>es. status_events d' = status_events d @ es) \<and> (timeline_ok d \<longrightarrow> timeline_ok d')"

lemma leads_append: "leads s (es @ [e]) (Some t) \<longleftrightarrow>
  se_to_status e = t \<and> allowed (se_from_status e) t \<and> leads s es (se_from_status e)"
  by (induction es arbitrary: s) auto

lemma trail_append: "status_events d' = status_events d @ [e] \<Longrightarrow>
  trail i d' = (if se_order_id e = i then trail i d @ [e] else trail i d)"
  by (simp add: trail_def)

lemma timeline_kept_same: "orders d' = orders d \<Longrightarrow> status_events d' = status_events d \<Longrightarrow> timeline_kept d d'"
  by (simp add: timeline_kept_def timeline_ok_def trail_def)

lemma timeline_kept_trans: "timeline_kept a b \<Longrightarrow> timeline_kept b c \<Longrightarrow> timeline_kept a c"
  unfolding timeline_kept_def by (metis append.assoc)

lemma timeline_kept_one:
  "status_events d' = status_events d @ [e] \<Longrightarrow> (timeline_ok d \<Longrightarrow> timeline_ok d') \<Longrightarrow> timeline_kept d d'"
  by (simp add: timeline_kept_def)

section \<open>What the statements do to it\<close>

text \<open>An order is placed with its first event.\<close>

lemma timeline_place:
  assumes "orders d' = orders d @ [o1]" "o_id o1 \<notin> o_id ` set (orders d)" "o_status o1 = Created"
    and "status_events d' = status_events d @ [e]" "se_order_id e = o_id o1" "se_from_status e = None" "se_to_status e = Created"
  shows "timeline_kept d d'"
proof (rule timeline_kept_one)
  assume ok: "timeline_ok d"
  have "se_order_id x \<noteq> o_id o1" if "x \<in> set (status_events d)" for x
    using ok that assms(2) unfolding timeline_ok_def by metis
  then have "trail (o_id o1) d = []" by (simp add: trail_def filter_empty_conv)
  then have "leads None (trail (o_id o2) d') (Some (o_status o2))" if "o2 \<in> set (orders d')" for o2
    using that ok assms by (auto simp: timeline_ok_def trail_append[OF assms(4)])
  then show "timeline_ok d'" using ok assms by (auto simp: timeline_ok_def)
qed (rule assms(4))

text \<open>An order moves with an event that starts from the status it had.\<close>

lemma timeline_move:
  assumes "find_order i d = Some o1" "orders d' = update_rows (\<lambda>o1. o_id o1 = i) f (orders d)"
    and f: "\<And>o1. o_id (f o1) = o_id o1" "\<And>o1. o_status (f o1) = s"
    and "status_events d' = status_events d @ [e]" "se_order_id e = i" "se_from_status e = Some (o_status o1)"
    and "se_to_status e = s" "s = Confirmed \<or> s = Awaiting_Payment"
  shows "timeline_kept d d'"
proof (rule timeline_kept_one)
  assume ok: "timeline_ok d"
  have ids: "map o_id (orders d') = map o_id (orders d)"
    unfolding assms(2) by (rule update_rows_map) (simp add: f(1))
  have o1: "leads None (trail i d) (Some (o_status o1))"
    using ok find_order_in[OF assms(1)] by (auto simp: timeline_ok_def)
  have "leads None (trail (o_id o3) d') (Some (o_status o3))" if o3: "o3 \<in> set (orders d')" for o3
  proof -
    obtain o2 where o2: "o2 \<in> set (orders d)" "o3 = (if o_id o2 = i then f o2 else o2)"
      using o3 unfolding assms(2) in_update_rows by blast
    then show ?thesis
      using ok o1 assms f by (auto simp: timeline_ok_def trail_append[OF assms(5)] leads_append)
  qed
  moreover have "o_id ` set (orders d') = o_id ` set (orders d)" by (metis ids set_map)
  moreover have "i \<in> o_id ` set (orders d)" using find_order_in[OF assms(1)] by auto
  ultimately show "timeline_ok d'" using ok assms(5,6) ids by (auto simp: timeline_ok_def)
qed (rule assms(5))

lemma writeOrder_timeline:
  assumes "writeOrder checkout_wiring command total_amount r d = Inr (i, d')"
  shows "timeline_kept d d'"
  using assms
proof (rule wired.write_Inr, goal_cases)
  case (1 subtotal fee total_bdt advance cap items ev t amount)
  show ?case by (rule timeline_place[OF 1(12) _ _ 1(15)]) (use 1 in \<open>simp_all add: order_of_def\<close>)
qed

lemma recordFailure_timeline:
  assumes "recordFailure settlement_wiring notice p d = Inr (res, d')"
  shows "timeline_kept d d'"
  using assms
proof (rule paid.recordFailure_Inr, goal_cases)
  case (1 o1 e)
  show ?case by (rule timeline_move[OF 1(2) 1(4)[unfolded set_status_def] _ _ 1(5-6,8,7)]) simp_all
qed

lemma settle_timeline:
  assumes "settle settlement_wiring notice p d = Inr (res, d')"
  shows "timeline_kept d d'"
  using assms
proof (rule paid.settle_Inr, goal_cases)
  case (1 t o1 e)
  show ?case
    by (rule timeline_move[OF 1(3,5) _ _ 1(6,7,9,8)])
       (simp_all add: confirmed_row_def stamp_row_def split: option.splits prod.splits)
qed

lemma applyToPending_timeline:
  assumes "applyToPending settlement_wiring notice p d = Inr (res, d')"
  shows "timeline_kept d d'"
  using assms
  by (auto simp: applyToPending_def stmt_bind_Inr_iff stmt_lift_Inr_iff split: if_splits
      intro: recordFailure_timeline settle_timeline timeline_kept_same)

lemma settlementWork_timeline:
  assumes "settlementWork settlement_wiring notice d = Inr (res, d')"
  shows "timeline_kept d d'"
  using assms by (cases rule: paid.work_Inr) (simp_all add: recordFailure_timeline settle_timeline timeline_kept_same)

lemma otp_work_timeline:
  assumes "otp_work enqueue phone code t d = Inr (i, d')"
  shows "timeline_kept d d'"
proof -
  obtain d1 x where 1: "findOrCreateByPhone phone d = Inr (i, d1)" and 2: "enqueue (otp_request i phone code t) d1 = Inr (x, d')"
    using assms by (auto simp: otp_work_def stmt_bind_Inr_iff)
  have "orders d1 = orders d \<and> status_events d1 = status_events d" using findOrCreate_Inr[OF 1] by auto
  then show ?thesis using outbox_grows_same[OF enqueue_grows[OF 2]] by (simp add: timeline_kept_same)
qed

section \<open>The contract\<close>

interpretation timeline: overlap_contract "\<lambda>_. True" timeline_kept
proof unfold_locales
  show "timeline_kept a c" if "timeline_kept a b" "timeline_kept b c" for a b c using that by (rule timeline_kept_trans)
  show "timeline_kept d d'" if "createMerchantRole u pk pf d = Inr (r, d')" for u pk pf r d d'
    using createMerchantRole_Inr[OF that] by (auto intro: timeline_kept_same)
  show "timeline_kept d d'" if "kyc_work request i nid d = Inr (x, d')" for request i nid x d d'
    using kyc_work_Inr[OF that] by (auto intro: timeline_kept_same)
  show "timeline_kept d d'" if "createLocation place d = Inr (i, d')" for place i d d'
    using that by (rule createLocation_Inr) (simp add: timeline_kept_same)
  show "timeline_kept d d'" if "poishaToTaka (cg_priceBdtPoisha goods) = Inr price"
    "insertListing (listing_record goods role pk price pickup) d = Inr (i, d')" for goods price role pk pickup i d d'
    using that(2) by (auto simp: insertListing_def stmt_bind_Inr_iff stmt_lift_Inr_iff intro: timeline_kept_same split: if_splits)
  show "timeline_kept d d'" if "submitKyc u i nid urls d = Inr (x, d')" for u i nid urls x d d'
    using submitKyc_Inr[OF that] by (auto intro: timeline_kept_same)
qed (auto simp: markSent_def markFailed_def intro: timeline_kept_same otp_work_timeline writeOrder_timeline settlementWork_timeline
    applyToPending_timeline)

end
