(* ===== verification/Replay.thy ===== *)
theory Replay
  imports Refinement
begin

text \<open>
  What becomes of a payment once it is recorded: a further contract of the services (beside those
  of theories \<open>Refinement\<close>, \<open>Mail\<close> and \<open>Timeline\<close>), which says that a payment that is no longer
  pending stays as it is and that an order without a pending payment is left alone. It carries
  the idempotency of settlements, and what a failed payment does to its order, over histories of
  the whole system.
\<close>

section \<open>Payments that are over\<close>

text \<open>Ids and references identify payments, and a pending payment has no reference yet.\<close>

definition references_ok :: "db \<Rightarrow> bool" where
  "references_ok d \<longleftrightarrow> distinct (map t_id (transactions d)) \<and>
     (\<forall>t\<in>set (transactions d). t_status t = Pending \<longrightarrow> t_aggregator_ref t = None) \<and>
     (\<forall>s\<in>set (transactions d). \<forall>t\<in>set (transactions d). \<forall>a r. carries_ref a r s \<longrightarrow> carries_ref a r t \<longrightarrow> s = t)"

definition none_pending :: "string \<Rightarrow> db \<Rightarrow> bool" where
  "none_pending i d \<longleftrightarrow> (\<forall>t\<in>set (transactions d). \<not> pending_for i t)"

definition payments_kept :: "db \<Rightarrow> db \<Rightarrow> bool" where
  "payments_kept d d' \<longleftrightarrow> (references_ok d \<longrightarrow> references_ok d' \<and>
     (\<forall>t\<in>set (transactions d). t_status t \<noteq> Pending \<longrightarrow> t \<in> set (transactions d')) \<and>
     (\<forall>i o1. find_order i d = Some o1 \<longrightarrow> none_pending i d \<longrightarrow> find_order i d' = Some o1 \<and> none_pending i d'))"

lemma payments_kept_same: "transactions d' = transactions d \<Longrightarrow> orders d' = orders d \<Longrightarrow> payments_kept d d'"
  by (simp add: payments_kept_def references_ok_def none_pending_def find_order_def)

lemma payments_kept_trans: "payments_kept a b \<Longrightarrow> payments_kept b c \<Longrightarrow> payments_kept a c"
  unfolding payments_kept_def by meson

section \<open>What the statements do to them\<close>

text \<open>A checkout adds a pending payment of a new order.\<close>

lemma writeOrder_payments:
  assumes "writeOrder checkout_wiring command total_amount r d = Inr (i, d')"
  shows "payments_kept d d'"
  using assms
proof (rule wired.write_Inr, goal_cases)
  case (1 subtotal fee total_bdt advance cap items ev t amount)
  have t: "\<not> carries_ref a ref t" for a ref using 1(25) by (simp add: carries_ref_def)
  have old: "j \<noteq> i \<and> find_order j d' = Some o1" if "find_order j d = Some o1" for j o1
  proof -
    have "j \<noteq> i" using find_order_in[OF that] 1(2) by auto
    then show ?thesis using that 1(12) by (simp add: find_order_eq find_append_other order_of_def)
  qed
  have "references_ok d'" if "references_ok d" using that 1(19,25,36) t by (auto simp: references_ok_def)
  moreover have "none_pending j d'" if "find_order j d = Some o1" "none_pending j d" for j o1
    using old[OF that(1)] that(2) 1(19,20) by (auto simp: none_pending_def pending_for_def)
  ultimately show ?case using old 1(19) by (auto simp: payments_kept_def)
qed

text \<open>A settlement closes a pending payment and moves its order.\<close>

lemma payments_close:
  assumes p: "p \<in> set (transactions d)" "pending_for j p" and free: "ref_free (t_id p) a r d"
    and ts: "transactions d' = update_rows (\<lambda>t. t_id t = t_id p) f (transactions d)"
    and f: "\<And>t. t_id (f t) = t_id t" "\<And>t. t_status (f t) \<noteq> Pending" "\<And>t. t_aggregator (f t) = Some a" "\<And>t. t_aggregator_ref (f t) = Some r"
    and os: "orders d' = update_rows (\<lambda>o1. o_id o1 = j) g (orders d)" and g: "\<And>o1. o_id (g o1) = o_id o1"
  shows "payments_kept d d'"
proof -
  have rows: "\<exists>t0\<in>set (transactions d). t = (if t_id t0 = t_id p then f t0 else t0)" if "t \<in> set (transactions d')" for t
    using that unfolding ts in_update_rows by blast
  have "references_ok d' \<and> (\<forall>t\<in>set (transactions d). t_status t \<noteq> Pending \<longrightarrow> t \<in> set (transactions d'))"
    if ok: "references_ok d"
  proof -
    have ids: "s = t" if "s \<in> set (transactions d)" "t \<in> set (transactions d)" "t_id s = t_id t" for s t
      using ok that by (auto simp: references_ok_def distinct_map dest: inj_onD)
    have unique: "s = t" if st: "s \<in> set (transactions d')" "t \<in> set (transactions d')"
      "carries_ref b q s" "carries_ref b q t" for b q s t
    proof -
      obtain s0 where s0: "s0 \<in> set (transactions d)" "s = (if t_id s0 = t_id p then f s0 else s0)" using rows[OF st(1)] by blast
      obtain t0 where t0: "t0 \<in> set (transactions d)" "t = (if t_id t0 = t_id p then f t0 else t0)" using rows[OF st(2)] by blast
      have owner: "t_id u = t_id p" if "u \<in> set (transactions d)" "carries_ref a r u" for u
        using free that p(1) by (auto simp: ref_free_def)
      have same: "b = a" "q = r" if "t_id s0 = t_id p \<or> t_id t0 = t_id p"
        using that s0(2) t0(2) st(3,4) f(3,4) by (auto simp: carries_ref_def split: if_splits)
      show ?thesis
      proof (cases "t_id s0 = t_id p \<or> t_id t0 = t_id p")
        case True
        then have "t_id s0 = t_id p" "t_id t0 = t_id p" using owner same s0 t0 st(3,4) by (auto split: if_splits)
        then show ?thesis using ids[OF s0(1) t0(1)] s0(2) t0(2) by simp
      next
        case False
        then show ?thesis using ok s0 t0 st(3,4) unfolding references_ok_def by auto
      qed
    qed
    have "map t_id (transactions d') = map t_id (transactions d)" unfolding ts by (rule update_rows_map) (simp add: f(1))
    moreover have "t_aggregator_ref t = None" if "t \<in> set (transactions d')" "t_status t = Pending" for t
      using rows[OF that(1)] that(2) f(2) ok by (auto simp: references_ok_def split: if_splits)
    moreover have "t \<in> set (transactions d')" if "t \<in> set (transactions d)" "t_status t \<noteq> Pending" for t
      using that ids[OF that(1) p(1)] p(2) unfolding ts in_update_rows by (auto simp: pending_for_def)
    ultimately show ?thesis using ok unique by (simp add: references_ok_def)
  qed
  moreover have "find_order i d' = find_order i d \<and> none_pending i d'" if "none_pending i d" for i
  proof -
    have "i \<noteq> j" using that p by (auto simp: none_pending_def)
    then have "find_order i d' = find_order i d" using find_order_update[OF g os, of i] by (simp add: option.map_ident)
    moreover have "none_pending i d'" using that rows f(2) by (force simp: none_pending_def pending_for_def split: if_splits)
    ultimately show ?thesis by simp
  qed
  ultimately show ?thesis by (simp add: payments_kept_def)
qed

lemma settlementWork_payments:
  assumes "settlementWork settlement_wiring notice d = Inr (res, d')"
  shows "payments_kept d d'"
  using assms
proof (cases rule: paid.work_Inr)
  case (failed p)
  show ?thesis
    using failed(5)
  proof (rule paid.recordFailure_Inr, goal_cases)
    case (1 o1 e)
    show ?case
      by (rule payments_close[OF failed(1,2) 1(1,3) _ _ _ _ 1(4)[unfolded set_status_def]]) (simp_all add: refused_row_def)
  qed
next
  case (settled p)
  show ?thesis
    using settled(5)
  proof (rule paid.settle_Inr, goal_cases)
    case (1 t o1 e)
    show ?case by (rule payments_close[OF settled(1,2) 1(2,4) _ _ _ _ 1(5)]) (simp_all add: settled_row_def)
  qed
qed (simp_all add: payments_kept_same)

lemma otp_work_payments:
  assumes "otp_work enqueue phone code t d = Inr (i, d')"
  shows "payments_kept d d'"
proof -
  obtain d1 x where 1: "findOrCreateByPhone phone d = Inr (i, d1)" and 2: "enqueue (otp_request i phone code t) d1 = Inr (x, d')"
    using assms by (auto simp: otp_work_def stmt_bind_Inr_iff)
  have "orders d1 = orders d \<and> transactions d1 = transactions d" using findOrCreate_Inr[OF 1] by auto
  then show ?thesis using outbox_grows_same[OF enqueue_grows[OF 2]] by (simp add: payments_kept_same)
qed

section \<open>The contract\<close>

interpretation payments: service_contract "\<lambda>_. True" payments_kept
proof unfold_locales
  show "payments_kept a c" if "payments_kept a b" "payments_kept b c" for a b c using that by (rule payments_kept_trans)
  show "payments_kept d d'" if "createMerchantRole u pk pf d = Inr (r, d')" for u pk pf r d d'
    using createMerchantRole_Inr[OF that] by (auto intro: payments_kept_same)
  show "payments_kept d d'" if "kyc_work request i nid d = Inr (x, d')" for request i nid x d d'
    using kyc_work_Inr[OF that] by (auto intro: payments_kept_same)
  show "payments_kept d d'" if "createLocation place d = Inr (i, d')" for place i d d'
    using that by (rule createLocation_Inr) (simp add: payments_kept_same)
  show "payments_kept d d'" if "poishaToTaka (cg_priceBdtPoisha goods) = Inr price"
    "insertListing (listing_record goods role pk price pickup) d = Inr (i, d')" for goods price role pk pickup i d d'
    using that(2) by (auto simp: insertListing_def stmt_bind_Inr_iff stmt_lift_Inr_iff intro: payments_kept_same split: if_splits)
qed (auto simp: markSent_def markFailed_def intro: payments_kept_same otp_work_payments writeOrder_payments settlementWork_payments)

lemma history_keeps_payments: "(serves R)\<^sup>*\<^sup>* d d' \<Longrightarrow> payments_kept d d'"
  by (induction rule: rtranclp_induct) (blast intro: payments.refl payments.trans payments.served)+

text \<open>A notice that was applied, followed by whatever the system served.\<close>

lemma settled_then_served:
  assumes "inflight w = None" "applySettlement settlement_wiring notice w = (Inr res, w1)" "references_ok (committed w)"
    and "(serves R)\<^sup>*\<^sup>* (committed w1) (committed w2)"
  shows "references_ok (committed w1)" "payments_kept (committed w1) (committed w2)"
proof -
  have "references_ok (started w)" using assms(3) by (simp add: references_ok_def)
  then show "references_ok (committed w1)"
    using settlementWork_payments[OF settlement_ran(1)[OF assms(1,2)]] by (simp add: payments_kept_def)
  show "payments_kept (committed w1) (committed w2)" by (rule history_keeps_payments[OF assms(4)])
qed

lemma reference_found:
  assumes "references_ok d" "t \<in> set (transactions d)" "carries_ref a r t"
  shows "find (carries_ref a r) (transactions d) = Some t"
proof -
  obtain s where s: "find (carries_ref a r) (transactions d) = Some s"
    using assms(2,3) find_None_all[of "carries_ref a r" "transactions d"] by fastforce
  have "s \<in> set (transactions d)" "carries_ref a r s" using find_Some_in[OF s] by simp_all
  then have "s = t" using assms unfolding references_ok_def by blast
  then show ?thesis using s by simp
qed

text \<open>The payment of an applied notice is still the one its reference finds.\<close>

lemma replayed:
  assumes "inflight w = None" "applySettlement settlement_wiring notice w = (Inr (Applied i due), w1)" "references_ok (committed w)"
    and "(serves R)\<^sup>*\<^sup>* (committed w1) (committed w2)"
    and "sn_aggregator notice' = sn_aggregator notice" "sn_aggregatorRef notice' = sn_aggregatorRef notice"
  shows "settlementWork settlement_wiring notice' (started w2) = Inr (Duplicate (sn_orderId notice), started w2)"
proof -
  note kept = settled_then_served[OF assms(1-4)]
  obtain t where t: "t \<in> set (transactions (committed w1))" "t_order_id t = sn_orderId notice"
    "carries_ref (sn_aggregator notice) (sn_aggregatorRef notice) t"
    using paid.applied_ref[OF settlement_ran(1)[OF assms(1,2)]] by blast
  have "t_status t \<noteq> Pending" using kept(1) t(1,3) by (auto simp: references_ok_def carries_ref_def)
  then have "t \<in> set (transactions (committed w2))" "references_ok (committed w2)"
    using kept t(1) by (auto simp: payments_kept_def)
  then have "find (carries_ref (sn_aggregator notice) (sn_aggregatorRef notice)) (transactions (committed w2)) = Some t"
    using reference_found t(3) by blast
  then show ?thesis using t(2) assms(5,6) by (simp add: settlementWork_def stmt_bind_def findByAggregatorRef_eq)
qed

text \<open>The order of an applied failure still has no pending payment.\<close>

lemma stranded:
  assumes "inflight w = None" "applySettlement settlement_wiring notice w = (Inr (Applied i due), w1)" "references_ok (committed w)"
    and "sn_outcome notice = Outcome_Failed"
    and "\<forall>p\<in>set (transactions (committed w)). \<forall>q\<in>set (transactions (committed w)).
      pending_for (sn_orderId notice) p \<longrightarrow> pending_for (sn_orderId notice) q \<longrightarrow> p = q"
    and "(serves R)\<^sup>*\<^sup>* (committed w1) (committed w2)" "sn_orderId notice' = sn_orderId notice"
  obtains o1 where "find_order (sn_orderId notice) (committed w1) = Some o1" "o_status o1 = Awaiting_Payment"
    "find_order (sn_orderId notice) (started w2) = Some o1"
    "settlementWork settlement_wiring notice' (started w2) =
      Inr (case find (carries_ref (sn_aggregator notice') (sn_aggregatorRef notice')) (transactions (committed w2)) of
        Some t \<Rightarrow> Duplicate (t_order_id t) | None \<Rightarrow> Rejected ''no_pending_transaction'', started w2)"
proof -
  note kept = settled_then_served[OF assms(1-3,6)]
  obtain o1 where o1: "none_pending (sn_orderId notice) (committed w1)"
    "find_order (sn_orderId notice) (committed w1) = Some o1" "o_status o1 = Awaiting_Payment"
    unfolding none_pending_def by (rule failed_payment_effect[OF assms(1,2,4,5)])
  then have w2: "find_order (sn_orderId notice) (started w2) = Some o1" "none_pending (sn_orderId notice) (committed w2)"
    using kept by (auto simp: payments_kept_def find_order_def)
  then have "first_row (sort_key t_occurred_at (filter (pending_for (sn_orderId notice')) (transactions (committed w2)))) = None"
    unfolding no_first_pending using assms(7) by (simp add: none_pending_def)
  then show thesis
    by (intro that[OF o1(2,3) w2(1)])
       (simp add: settlementWork_def stmt_bind_def findByAggregatorRef_eq findPendingForOrder_eq split: option.split)
qed

text \<open>A pass of the dispatcher is such a history.\<close>

lemma pass_served:
  assumes "dispatchBatch dp locked limit (sample_outbox_world\<lparr>committed := d\<rparr>) = (summary, w2)"
  shows "(serves R)\<^sup>*\<^sup>* d (committed w2)"
  using serves.dispatch[OF assms, of R] by (simp add: sample_outbox_world_def r_into_rtranclp)

lemma sample_references: "inflight sample_paid_world = None" "references_ok (committed sample_paid_world)"
  by (simp_all add: sample_paid_world_def references_ok_def sample_payment_def)

section \<open>Properties\<close>

text \<open>
  C7. Settlement is idempotent: once a notice has been applied, then whatever the system served
  since (requests, other checkouts, other webhooks, passes of the dispatcher, one after the other),
  a later notice with the same aggregator and reference, whatever order, amount or outcome it
  claims, when it is answered, answers \<open>duplicate\<close> with the order of the first one and
  changes no table. Before the first notice, ids and references of the payments have to be unique
  and pending payments without a reference, as in empty tables. Two deliveries that overlap are not covered:
  \<open>concurrent_duplicate_not_rejected\<close> shows what they do.
\<close>

theorem settlement_idempotent:
  assumes "inflight w = None" "references_ok (committed w)"
    and "applySettlement settlement_wiring notice w = (Inr (Applied i due), w1)"
    and "(serves R)\<^sup>*\<^sup>* (committed w1) (committed w2)" "inflight w2 = None"
    and "sn_aggregator notice' = sn_aggregator notice" "sn_aggregatorRef notice' = sn_aggregatorRef notice"
    and "applySettlement settlement_wiring notice' w2 = (Inr res, w3)"
  shows "res = Duplicate (sn_orderId notice) \<and> committed w3 = (committed w2)\<lparr>now_ts := clock w2\<rparr>"
  using replayed[OF assms(1,3,2,4,6,7)] settlement_ran(1)[OF assms(5,8)] by (simp add: started_def)

theorem settlement_idempotent_witness:
  "\<exists>w1 summary w2 w3. applySettlement settlement_wiring (sample_notice Outcome_Settled) sample_paid_world =
       (Inr (Applied ''order1'' (Some (Some 864005000))), w1) \<and>
     dispatchBatch (sample_dispatcher LoggingSmsGateway) (\<lambda>i. False) BATCH_SIZE
       (sample_outbox_world\<lparr>committed := committed w1\<rparr>) = (summary, w2) \<and>
     applySettlement settlement_wiring ((sample_notice Outcome_Failed)\<lparr>sn_orderId := ''other'', sn_amount := 1\<rparr>)
       (sample_paid_world\<lparr>committed := committed w2, clock := 2000\<rparr>) = (Inr (Duplicate ''order1''), w3) \<and>
     committed w3 = (committed w2)\<lparr>now_ts := 2000\<rparr>"
proof -
  let ?n = "(sample_notice Outcome_Failed)\<lparr>sn_orderId := ''other'', sn_amount := 1\<rparr>"
  obtain w1 where 1: "applySettlement settlement_wiring (sample_notice Outcome_Settled) sample_paid_world =
      (Inr (Applied ''order1'' (Some (Some 864005000))), w1)" using sample_settled[of Outcome_Settled] by auto
  obtain summary w2 where 2: "dispatchBatch (sample_dispatcher LoggingSmsGateway) (\<lambda>i. False) BATCH_SIZE
      (sample_outbox_world\<lparr>committed := committed w1\<rparr>) = (summary, w2)" by fastforce
  let ?w2 = "sample_paid_world\<lparr>committed := committed w2, clock := 2000\<rparr>"
  have h: "(serves R)\<^sup>*\<^sup>* (committed w1) (committed ?w2)" for R :: "unit redis_client" using pass_served[OF 2] by simp
  have n: "sn_aggregator ?n = sn_aggregator (sample_notice Outcome_Settled)"
    "sn_aggregatorRef ?n = sn_aggregatorRef (sample_notice Outcome_Settled)" by (simp_all add: sample_notice_def)
  have idle: "inflight ?w2 = None" by (simp add: sample_paid_world_def)
  have 3: "applySettlement settlement_wiring ?n ?w2 = (Inr (Duplicate ''order1''), ?w2\<lparr>committed := started ?w2\<rparr>)"
    using replayed[OF sample_references(1) 1 sample_references(2) h n]
    by (simp add: applySettlement_def transact_no_fault sample_paid_world_def sample_notice_def)
  from settlement_idempotent[OF sample_references 1 h idle n 3] show ?thesis using 1 2 3 by auto
qed

text \<open>
  C38. A failed payment leaves its order without a way to pay: when the failed row was the only
  pending one of the order, then whatever the system served since (requests, other checkouts,
  webhooks, passes of the dispatcher, one after the other), no notice for this order, not even a
  genuine success, is ever applied: one with a new reference is rejected for want of a pending
  payment, one whose reference a payment carries is a duplicate, and the order stays as it was, awaiting payment.
  (Tables as in \<open>settlement_idempotent\<close>; a settlement that overlaps the failed one is not covered.)
\<close>

theorem failed_payment_strands_order:
  assumes "inflight w = None" "references_ok (committed w)"
    and "applySettlement settlement_wiring notice w = (Inr (Applied i due), w1)" "sn_outcome notice = Outcome_Failed"
    and "\<forall>p\<in>set (transactions (committed w)). \<forall>q\<in>set (transactions (committed w)).
      pending_for (sn_orderId notice) p \<longrightarrow> pending_for (sn_orderId notice) q \<longrightarrow> p = q"
    and "(serves R)\<^sup>*\<^sup>* (committed w1) (committed w2)" "inflight w2 = None" "sn_orderId notice' = sn_orderId notice"
    and "applySettlement settlement_wiring notice' w2 = (Inr res, w3)"
  shows "(if \<exists>t\<in>set (transactions (committed w2)). carries_ref (sn_aggregator notice') (sn_aggregatorRef notice') t
      then \<exists>j. res = Duplicate j else res = Rejected ''no_pending_transaction'') \<and>
     (\<exists>o1. find_order (sn_orderId notice) (committed w1) = Some o1 \<and> o_status o1 = Awaiting_Payment \<and>
        find_order (sn_orderId notice) (committed w3) = Some o1)"
proof -
  let ?c = "carries_ref (sn_aggregator notice') (sn_aggregatorRef notice')"
  obtain o1 where o1: "find_order (sn_orderId notice) (committed w1) = Some o1" "o_status o1 = Awaiting_Payment"
    "find_order (sn_orderId notice) (started w2) = Some o1"
    "settlementWork settlement_wiring notice' (started w2) = Inr (case find ?c (transactions (committed w2)) of
        Some t \<Rightarrow> Duplicate (t_order_id t) | None \<Rightarrow> Rejected ''no_pending_transaction'', started w2)"
    by (rule stranded[OF assms(1,3,2,4-6,8)])
  have "res = (case find ?c (transactions (committed w2)) of
      Some t \<Rightarrow> Duplicate (t_order_id t) | None \<Rightarrow> Rejected ''no_pending_transaction'')" "committed w3 = started w2"
    using o1(4) settlement_ran(1)[OF assms(7,9)] by simp_all
  then show ?thesis
    using o1(1-3) find_None_all[of ?c "transactions (committed w2)"] by (auto split: option.splits)
qed

theorem failed_payment_strands_order_witness:
  "\<exists>w1 summary w2 res w3 o1. applySettlement settlement_wiring (sample_notice Outcome_Failed) sample_paid_world =
       (Inr (Applied ''order1'' None), w1) \<and>
     dispatchBatch (sample_dispatcher LoggingSmsGateway) (\<lambda>i. False) BATCH_SIZE
       (sample_outbox_world\<lparr>committed := committed w1\<rparr>) = (summary, w2) \<and>
     applySettlement settlement_wiring ((sample_notice Outcome_Settled)\<lparr>sn_aggregator := ''nagad''\<rparr>)
       (sample_paid_world\<lparr>committed := committed w2, clock := 2000\<rparr>) = (Inr res, w3) \<and>
     (\<forall>j due. res \<noteq> Applied j due) \<and> find_order ''order1'' (committed w3) = Some o1 \<and> o_status o1 = Awaiting_Payment"
proof -
  let ?n = "(sample_notice Outcome_Settled)\<lparr>sn_aggregator := ''nagad''\<rparr>"
  obtain w1 where 1: "applySettlement settlement_wiring (sample_notice Outcome_Failed) sample_paid_world =
      (Inr (Applied ''order1'' None), w1)" using sample_settled[of Outcome_Failed] by auto
  obtain summary w2 where 2: "dispatchBatch (sample_dispatcher LoggingSmsGateway) (\<lambda>i. False) BATCH_SIZE
      (sample_outbox_world\<lparr>committed := committed w1\<rparr>) = (summary, w2)" by fastforce
  let ?w2 = "sample_paid_world\<lparr>committed := committed w2, clock := 2000\<rparr>"
  have h: "(serves R)\<^sup>*\<^sup>* (committed w1) (committed ?w2)" for R :: "unit redis_client" using pass_served[OF 2] by simp
  have n: "sn_outcome (sample_notice Outcome_Failed) = Outcome_Failed" "sn_orderId ?n = sn_orderId (sample_notice Outcome_Failed)"
    by (simp_all add: sample_notice_def)
  have one: "\<forall>p\<in>set (transactions (committed sample_paid_world)). \<forall>q\<in>set (transactions (committed sample_paid_world)).
      pending_for (sn_orderId (sample_notice Outcome_Failed)) p \<longrightarrow> pending_for (sn_orderId (sample_notice Outcome_Failed)) q \<longrightarrow> p = q"
    by (simp add: sample_paid_world_def)
  have idle: "inflight ?w2 = None" by (simp add: sample_paid_world_def)
  obtain res w3 where 3: "applySettlement settlement_wiring ?n ?w2 = (Inr res, w3)"
    by (rule stranded[OF sample_references(1) 1 sample_references(2) n(1) one h n(2)])
       (simp add: applySettlement_def transact_no_fault sample_paid_world_def)
  have "sn_orderId (sample_notice Outcome_Failed) = ''order1''" by (simp add: sample_notice_def)
  then show ?thesis
    using failed_payment_strands_order[OF sample_references 1 n(1) one h idle n(2) 3] 1 2 3 by (auto split: if_splits)
qed

end
