(* ===== verification/Login.thy ===== *)
theory Login
  imports Auth
begin

text \<open>
  What the login of \<open>identity/auth.service.ts\<close> guarantees over time: the cap on guesses, the
  single use of a code, and what a repeated request does to the code already sent.
\<close>

section \<open>One verification\<close>

definition entry :: "int \<Rightarrow> ('r \<Rightarrow> redis_store) \<Rightarrow> 'r \<Rightarrow> string \<Rightarrow> (redis_value \<times> int option) option" where
  "entry now view s phone = live now (view s) (otp_key phone)"

lemma entry_later: "now \<le> later \<Longrightarrow> entry later view s phone =
    (case entry now view s phone of None \<Rightarrow> None | Some (v, e) \<Rightarrow> if unexpired later e then Some (v, e) else None)"
  by (auto simp: entry_def live_def split: option.splits dest: unexpired_earlier)

text \<open>The limiter's key of the phone holds a counter, if anything.\<close>

definition may_verify :: "int \<Rightarrow> ('r \<Rightarrow> redis_store) \<Rightarrow> 'r \<Rightarrow> string \<Rightarrow> bool" where
  "may_verify now view s phone \<longleftrightarrow> counter_key now view s (''otp:verify:'' @ phone)"

lemma may_verify_later: "now \<le> later \<Longrightarrow> may_verify now view s phone \<Longrightarrow> may_verify later view s phone"
  unfolding may_verify_def by (rule counter_key_later)

lemma verify_step:
  assumes laws: "redis_laws R view" "reliable R" and phone: "normaliseBdPhone raw = Some phone"
    and may: "may_verify (clock w) view (rw_redis w) phone"
    and v: "verifyOtp_svc R hmac secret sessionKey raw submitted w = (r, w')"
  shows "clock w' = clock w \<and> may_verify (clock w) view (rw_redis w') phone \<and>
     ((\<exists>reason. r = Inr (Rejected_Otp reason)) \<and>
        entry (clock w) view (rw_redis w') phone = recorded (clock w) (entry (clock w) view (rw_redis w) phone) \<or>
      (\<exists>ch e. entry (clock w) view (rw_redis w) phone = Some (Stored ch, e) \<and> ch_attempts ch < 5) \<and>
        entry (clock w) view (rw_redis w') phone = None \<or>
      ((\<exists>e. r = Inl e) \<or> (\<exists>t. r = Inr (Verify_Rate_Limited t))) \<and>
        entry (clock w) view (rw_redis w') phone = entry (clock w) view (rw_redis w) phone)"
proof -
  let ?key = "''otp:verify:'' @ phone"
  have free: "counter_key (clock w) view (rw_redis w) ?key" using may by (simp only: may_verify_def)
  obtain d s where h: "hit R ?key (rp_limit otpVerify_policy) (rp_windowSeconds otpVerify_policy) w = (Inr d, w\<lparr>rw_redis := s\<rparr>)"
    using hit_total[of R ?key "rp_limit otpVerify_policy" "rp_windowSeconds otpVerify_policy" w] by blast
  let ?w1 = "w\<lparr>rw_redis := s\<rparr>"
  have window: "0 < rp_windowSeconds otpVerify_policy" by (simp add: otpVerify_policy_def)
  have free1: "counter_key (clock w) view s ?key" using hit_counts[OF laws window free h] by auto
  have same1: "entry (clock w) view s phone = entry (clock w) view (rw_redis w) phone"
    using hit_keeps_challenge[OF laws(1) free h] by (simp add: entry_def)
  show ?thesis
  proof (cases "rl_allowed d")
    case False
    then have "r = Inr (Verify_Rate_Limited (rl_resetSeconds d))" "w' = ?w1"
      using v h by (simp_all add: verifyOtp_svc_def phone)
    then show ?thesis using free1 same1 by (simp add: may_verify_def del: append.simps)
  next
    case True
    then have "checkCode R hmac secret sessionKey phone submitted ?w1 = (r, w')"
      using v h by (simp add: verifyOtp_svc_def phone)
    from checkCode_effect[OF laws this] obtain x where x:
      "live (clock w) (view (rw_redis w')) = (live (clock w) (view s))(otp_key phone := x)" "clock w' = clock w"
      "((\<exists>reason. r = Inr (Rejected_Otp reason)) \<and> x = recorded (clock w) (entry (clock w) view s phone) \<or>
        (\<exists>ch e. entry (clock w) view s phone = Some (Stored ch, e) \<and> ch_attempts ch < 5) \<and> x = None \<or>
        (\<exists>e. r = Inl e) \<and> x = entry (clock w) view s phone)"
      by (auto simp: entry_def)
    have "live (clock w) (view (rw_redis w')) (''ratelimit:'' @ ?key) = live (clock w) (view s) (''ratelimit:'' @ ?key)"
      unfolding x(1) by (simp only: fun_upd_apply keys_disjoint if_False)
    then have "may_verify (clock w) view (rw_redis w') phone"
      using free1 unfolding may_verify_def counter_key_def by metis
    moreover have "entry (clock w) view (rw_redis w') phone = x" using x(1) by (simp add: entry_def)
    ultimately show ?thesis using x(2,3) same1 by auto
  qed
qed

section \<open>The cap on guesses\<close>

text \<open>
  \<open>guessed a e0\<close>: the challenge is gone, or has at least \<open>a\<close> attempts recorded and, while
  that is fewer than five, has lost at most half a second of its life per attempt (the
  remaining time is rewritten in whole seconds).
\<close>

definition guessed :: "int \<Rightarrow> int \<Rightarrow> (redis_value \<times> int option) option \<Rightarrow> bool" where
  "guessed a e0 y \<longleftrightarrow>
     (case y of
        None \<Rightarrow> True
      | Some (Stored ch, Some e) \<Rightarrow> a \<le> ch_attempts ch \<and> (a < 5 \<longrightarrow> e0 - 500 * a \<le> e)
      | _ \<Rightarrow> False)"

lemma guessed_later: "guessed a e0 (entry now view s phone) \<Longrightarrow> now \<le> later \<Longrightarrow> guessed a e0 (entry later view s phone)"
  by (auto simp: guessed_def entry_later split: option.splits redis_value.splits)

lemma guessed_recorded:
  assumes "guessed a e0 y" "0 \<le> a" "a < 5" "now + 3000 \<le> e0"
  shows "guessed (a + 1) e0 (recorded now y)"
proof (cases y)
  case (Some p)
  then obtain ch e where y: "y = Some (Stored ch, Some e)" "a \<le> ch_attempts ch" "e0 - 500 * a \<le> e"
    using assms(1,3) by (cases p) (auto simp: guessed_def split: redis_value.splits option.splits)
  then have "500 \<le> e - now" using assms(2-4) by simp
  then have "0 < (e - now + 500) div 1000" "e - 500 \<le> now + 1000 * ((e - now + 500) div 1000)" by linarith+
  then show ?thesis using y by (auto simp: guessed_def recorded_def Let_def)
qed (simp add: guessed_def recorded_def)

lemma guessed_five: "guessed 5 e0 y \<Longrightarrow> guessed 5 e0 (recorded now y)"
  by (auto simp: guessed_def recorded_def Let_def split: option.splits redis_value.splits)

text \<open>A series of submissions, each at its time.\<close>

fun submissions ::
  "'r redis_client \<Rightarrow> (string \<Rightarrow> string \<Rightarrow> string) \<Rightarrow> string option \<Rightarrow> string option \<Rightarrow> string \<Rightarrow> (int \<times> string) list \<Rightarrow>
   ('r, 'z) redis_world_scheme \<Rightarrow> (err + verify_otp_result) list \<times> ('r, 'z) redis_world_scheme" where
  "submissions R hmac secret sessionKey raw [] w = ([], w)"
| "submissions R hmac secret sessionKey raw ((t, c) # gs) w =
     (case verifyOtp_svc R hmac secret sessionKey raw c (w\<lparr>clock := t\<rparr>) of
        (r, w1) \<Rightarrow> (case submissions R hmac secret sessionKey raw gs w1 of (rs, w2) \<Rightarrow> (r # rs, w2)))"

definition refusal :: "err + verify_otp_result \<Rightarrow> bool" where
  "refusal r \<longleftrightarrow> (\<exists>reason. r = Inr (Rejected_Otp reason))"

definition login :: "err + verify_otp_result \<Rightarrow> bool" where
  "login r \<longleftrightarrow> (\<exists>token user. r = Inr (Authenticated token user))"

lemma refusals_counted:
  assumes laws: "redis_laws R view" "reliable R" and phone: "normaliseBdPhone raw = Some phone"
    and "may_verify (clock w) view (rw_redis w) phone"
    and "guessed a e0 (entry (clock w) view (rw_redis w) phone)" "0 \<le> a" "a + int (length gs) \<le> 5"
    and "sorted (clock w # map fst gs)" "\<forall>g\<in>set gs. fst g + 3000 \<le> e0"
    and "submissions R hmac secret sessionKey raw gs w = (rs, w')" "\<forall>r\<in>set rs. refusal r"
  shows "guessed (a + int (length gs)) e0 (entry (clock w') view (rw_redis w') phone) \<and>
    may_verify (clock w') view (rw_redis w') phone \<and> clock w' = last (clock w # map fst gs)"
  using assms(4-)
proof (induction gs arbitrary: w a rs)
  case (Cons g gs)
  obtain t c where g: "g = (t, c)" by (cases g)
  obtain r w1 where v: "verifyOtp_svc R hmac secret sessionKey raw c (w\<lparr>clock := t\<rparr>) = (r, w1)"
    by (cases "verifyOtp_svc R hmac secret sessionKey raw c (w\<lparr>clock := t\<rparr>)")
  obtain rs1 where s: "submissions R hmac secret sessionKey raw gs w1 = (rs1, w')" "rs = r # rs1"
    using Cons.prems(7) v g by (auto split: prod.splits)
  have t: "clock w \<le> t" using Cons.prems(5) g by simp
  have free: "may_verify (clock (w\<lparr>clock := t\<rparr>)) view (rw_redis (w\<lparr>clock := t\<rparr>)) phone"
    using may_verify_later[OF t Cons.prems(1)] by simp
  note step = verify_step[OF laws phone free v]
  have g1: "guessed a e0 (entry t view (rw_redis w) phone)" using guessed_later[OF Cons.prems(2) t] .
  have "refusal r" using Cons.prems(8) s(2) by simp
  then have "entry t view (rw_redis w1) phone = recorded t (entry t view (rw_redis w) phone) \<or> entry t view (rw_redis w1) phone = None"
    using step by (auto simp: refusal_def)
  moreover have "guessed (a + 1) e0 (recorded t (entry t view (rw_redis w) phone))"
    by (rule guessed_recorded[OF g1]) (use Cons.prems g in auto)
  moreover have "guessed (a + 1) e0 None" by (simp add: guessed_def)
  ultimately have g2: "guessed (a + 1) e0 (entry (clock w1) view (rw_redis w1) phone)" using step by auto
  have "guessed (a + 1 + int (length gs)) e0 (entry (clock w') view (rw_redis w') phone) \<and>
      may_verify (clock w') view (rw_redis w') phone \<and> clock w' = last (clock w1 # map fst gs)"
    by (rule Cons.IH[OF _ g2 _ _ _ _ s(1)]) (use step Cons.prems g s(2) in auto)
  then show ?case using conjunct1[OF step] g by (cases "gs = []") (auto simp: algebra_simps)
qed simp

lemma no_login_after_five:
  assumes laws: "redis_laws R view" "reliable R" and phone: "normaliseBdPhone raw = Some phone"
    and "may_verify (clock w) view (rw_redis w) phone"
    and "guessed 5 e0 (entry (clock w) view (rw_redis w) phone)" "sorted (clock w # map fst gs)"
    and "submissions R hmac secret sessionKey raw gs w = (rs, w')"
  shows "\<forall>r\<in>set rs. \<not> login r"
  using assms(4-)
proof (induction gs arbitrary: w rs)
  case (Cons g gs)
  obtain t c where g: "g = (t, c)" by (cases g)
  obtain r w1 where v: "verifyOtp_svc R hmac secret sessionKey raw c (w\<lparr>clock := t\<rparr>) = (r, w1)"
    by (cases "verifyOtp_svc R hmac secret sessionKey raw c (w\<lparr>clock := t\<rparr>)")
  obtain rs1 where s: "submissions R hmac secret sessionKey raw gs w1 = (rs1, w')" "rs = r # rs1"
    using Cons.prems(4) v g by (auto split: prod.splits)
  have t: "clock w \<le> t" using Cons.prems(3) g by simp
  have free: "may_verify (clock (w\<lparr>clock := t\<rparr>)) view (rw_redis (w\<lparr>clock := t\<rparr>)) phone"
    using may_verify_later[OF t Cons.prems(1)] by simp
  note step = verify_step[OF laws phone free v]
  have g1: "guessed 5 e0 (entry t view (rw_redis w) phone)" using guessed_later[OF Cons.prems(2) t] .
  then have few: "\<nexists>ch e. entry t view (rw_redis w) phone = Some (Stored ch, e) \<and> ch_attempts ch < 5"
    by (auto simp: guessed_def split: option.splits)
  have "\<not> login r" "guessed 5 e0 (entry (clock w1) view (rw_redis w1) phone)"
    using step few g1 guessed_five[OF g1, of t] by (auto simp: login_def)
  moreover have "\<forall>r\<in>set rs1. \<not> login r"
    by (rule Cons.IH[OF _ _ _ s(1)]) (use step calculation Cons.prems g in auto)
  ultimately show ?case using s(2) by simp
qed simp

section \<open>Requesting a code\<close>

lemma issueAndSend_Inr:
  assumes laws: "redis_laws R view" and s: "issueAndSend R hmac notify secret draw phone w = (Inr i, w')"
  shows "\<exists>key r. secret = Some key \<and> key \<noteq> [] \<and>
    transact (otp_work notify phone (generateCode draw) (clock w)) (w\<lparr>rw_redis := r\<rparr>) = (Inr i, w') \<and>
    live (clock w) (view r) (otp_key phone) =
      Some (Stored \<lparr>ch_codeHash = hex_encode (hmac (utf8 key) (utf8 (generateCode draw))),
        ch_expiresAt = mk_date (clock w + 300000), ch_attempts = 0\<rparr>, Some (clock w + 300000))"
proof -
  obtain key issued w1 where key: "otpSecret secret = Inr key" and iss: "issueOtp hmac draw key (clock w) = Inr issued"
    and sv: "save R phone (is_challenge issued) w = (Inr (), w1)"
    and t: "transact (otp_work notify phone (is_code issued) (clock w)) w1 = (Inr i, w')"
    using s by (auto simp: issueAndSend_def act_bind_Inr_iff act_lift_iff)
  have k: "secret = Some key" "key \<noteq> []" using key by (auto simp: otpSecret_def configured_def split: option.splits if_splits)
  have issued: "issued = \<lparr>is_code = generateCode draw, is_challenge =
      \<lparr>ch_codeHash = hex_encode (hmac (utf8 key) (utf8 (generateCode draw))), ch_expiresAt = mk_date (clock w + 300000), ch_attempts = 0\<rparr>\<rparr>"
    using iss k by (simp add: issueOtp_def Let_def hashCode_def OTP_TTL_SECONDS_def)
  obtain r where r: "rc_set R (otp_key phone) (Stored (is_challenge issued)) OTP_TTL_SECONDS (clock w) (rw_redis w) = (Inr (), r)"
      "w1 = w\<lparr>rw_redis := r\<rparr>"
    using sv by (auto simp: save_def stored_of_def act_bind_Inr_iff act_lift_iff on_redis_iff split: option.splits)
  have "live (clock w) (view r) (otp_key phone) = Some (Stored (is_challenge issued), Some (clock w + 300000))"
    using redis_set[OF laws r(1)] by (simp add: OTP_TTL_SECONDS_def)
  then show ?thesis using k t r(2) issued by (intro exI[of _ key] exI[of _ r]) simp
qed

lemma requestOtp_Sent:
  assumes "requestOtp R hmac notify secret draw raw w = (Inr (Otp_Sent t), w')" "normaliseBdPhone raw = Some phone"
  shows "\<exists>s i. issueAndSend R hmac notify secret draw phone (w\<lparr>rw_redis := s\<rparr>) = (Inr i, w')"
proof -
  let ?key = "''otp:request:'' @ phone"
  obtain d s where h: "hit R ?key (rp_limit otpRequest_policy) (rp_windowSeconds otpRequest_policy) w = (Inr d, w\<lparr>rw_redis := s\<rparr>)"
    using hit_total[of R ?key "rp_limit otpRequest_policy" "rp_windowSeconds otpRequest_policy" w] by blast
  have "rl_allowed d" using assms h by (auto simp: requestOtp_def split: if_splits)
  then have "act_bind (issueAndSend R hmac notify secret draw phone) (\<lambda>_. act_return (Otp_Sent (rl_resetSeconds d)))
      (w\<lparr>rw_redis := s\<rparr>) = (Inr (Otp_Sent t), w')"
    using assms h by (simp add: requestOtp_def)
  then show ?thesis by (auto simp: act_bind_Inr_iff)
qed

text \<open>The work of a second request in the same minute writes nothing.\<close>

lemma otp_work_again:
  assumes "otp_work enqueue phone c now d = Inr (i, d1)" "users d2 = users d1" "outbox d2 = outbox d1"
    and "later div 60000 = now div 60000"
  shows "otp_work enqueue phone c' later d2 = Inr (i, d2)"
proof -
  obtain d0 where f: "findOrCreateByPhone phone d = Inr (i, d0)" and n: "enqueue (otp_request i phone c now) d0 = Inr ((), d1)"
    using assms(1) by (auto simp: otp_work_def stmt_bind_Inr_iff)
  obtain u where u: "find (\<lambda>u. u_phone_e164 u = phone) (users d0) = Some u" "u_id u = i"
    using findOrCreate_finds[OF f] by blast
  have "users d1 = users d0" by (rule outbox.frame(5)[OF n])
  then have f2: "findOrCreateByPhone phone d2 = Inr (i, d2)" using findOrCreate_again[of phone d2 u] u assms(2) by simp
  have n2: "enqueue (otp_request i phone c' later) d2 = Inr ((), d2)"
    by (rule outbox.repeated[OF n]) (use assms in \<open>simp_all add: otp_request_def\<close>)
  show ?thesis using f2 n2 by (simp add: otp_work_def)
qed

section \<open>Properties\<close>

text \<open>
  C8. Guessing one after the other is capped: with a Redis server that answers, and submissions
  none of which starts before the one before it has been answered, once five against a challenge
  have been refused, no later one logs in, not even with the right code, until a new code is
  requested. The five refusals must come while the challenge has three seconds to live, because
  an attempt in its last half second is not recorded. Refusals that run in parallel are not
  covered: they may be counted as one (\<open>concurrent_guesses_count_once\<close>).
\<close>

theorem otp_guesses_capped:
  assumes "redis_laws R view" "reliable R" "normaliseBdPhone raw = Some phone"
    and "may_verify (clock w) view (rw_redis w) phone"
    and "entry (clock w) view (rw_redis w) phone = Some (Stored ch, Some e)" "0 \<le> ch_attempts ch"
    and "length guesses = 5" "\<forall>g\<in>set guesses. fst g + 3000 \<le> e"
    and "sorted (clock w # map fst (guesses @ later))"
    and "submissions R hmac secret sessionKey raw guesses w = (rs, w1)" "\<forall>r\<in>set rs. refusal r"
    and "submissions R hmac secret sessionKey raw later w1 = (rs', w2)"
  shows "\<forall>r\<in>set rs'. \<not> login r"
proof -
  have "guessed 0 e (entry (clock w) view (rw_redis w) phone)" using assms(5,6) by (simp add: guessed_def)
  then have five: "guessed 5 e (entry (clock w1) view (rw_redis w1) phone)"
      "may_verify (clock w1) view (rw_redis w1) phone" "clock w1 = last (clock w # map fst guesses)"
    using refusals_counted[OF assms(1-4) _ _ _ _ assms(8) assms(10,11), of 0] assms(7,9)
    by (auto simp: sorted_append)
  have "sorted (clock w1 # map fst later)"
    using assms(9) unfolding five(3) by (cases guesses rule: rev_cases) (auto simp: sorted_append)
  then show ?thesis by (rule no_login_after_five[OF assms(1-3) five(2,1) _ assms(12)])
qed

text \<open>A phone with a live challenge and a number of counted guesses, on the map server.\<close>

definition guess_world :: "int \<Rightarrow> redis_store redis_world" where
  "guess_world n =
     \<lparr>committed = sample_db, inflight = None, tx_faults = [], clock = 0,
      rw_redis = (\<lambda>k.
        if k = ''ratelimit:otp:verify:+8801712345678'' then (if n = 0 then None else Some (Counter n, Some 900000))
        else if k = ''otp:+8801712345678''
        then Some (Stored \<lparr>ch_codeHash = hex_encode (pad_hmac ''k'' ''004321''), ch_expiresAt = Some 300000, ch_attempts = n\<rparr>, Some 300000)
        else None)\<rparr>"

lemma sample_phone: "normaliseBdPhone ''01712345678'' = Some ''+8801712345678''"
  by (simp add: normaliseBdPhone_def is_phone_separator_def is_space_def strip_plus_def startsWith_def bd_mobile_def
      is_digit_def Let_def)

lemma sample_guess:
  assumes "0 \<le> n" "n < 10"
  shows "verifyOtp_svc map_redis pad_hmac (Some ''k'') (Some ''s'') ''01712345678'' ''x'' ((guess_world n)\<lparr>clock := 0\<rparr>) =
    (Inr (Rejected_Otp (if 5 \<le> n then Too_Many_Attempts else Invalid)), guess_world (n + 1))"
proof -
  let ?rate = "''ratelimit:otp:verify:+8801712345678''" and ?key = "''otp:+8801712345678''"
  let ?ch = "\<lparr>ch_codeHash = hex_encode (pad_hmac ''k'' ''004321''), ch_expiresAt = Some 300000, ch_attempts = n\<rparr>"
  let ?m = "rw_redis (guess_world n)"
  have clock: "clock (guess_world i) = 0" for i by (simp add: guess_world_def)
  have live: "live 0 ?m = ?m" by (auto simp: live_def guess_world_def fun_eq_iff)
  have rate: "?m ?rate = (if n = 0 then None else Some (Counter n, Some 900000))" by (simp add: guess_world_def)
  have hit: "hit map_redis ''otp:verify:+8801712345678'' 10 900 (guess_world n) =
      (Inr \<lparr>rl_allowed = True, rl_remaining = max 0 (9 - n), rl_resetSeconds = 900\<rparr>,
       (guess_world n)\<lparr>rw_redis := ?m(?rate \<mapsto> (Counter (n + 1), Some 900000))\<rparr>)"
    using map_redis_hit[of "guess_world n" "''otp:verify:+8801712345678''" n 900 10] assms rate by (simp add: clock live)
  let ?m1 = "?m(?rate \<mapsto> (Counter (n + 1), Some 900000))"
  have live1: "live 0 ?m1 = ?m1" by (auto simp: live_def guess_world_def fun_eq_iff)
  have key: "?m1 ?key = Some (Stored ?ch, Some 300000)" by (simp add: guess_world_def)
  have m2: "?m1(?key \<mapsto> (Stored (?ch\<lparr>ch_attempts := n + 1\<rparr>), Some 300000)) = rw_redis (guess_world (n + 1))"
    using assms by (auto simp: guess_world_def fun_eq_iff)
  have w: "(guess_world n)\<lparr>rw_redis := rw_redis (guess_world (n + 1))\<rparr> = guess_world (n + 1)"
    by (simp add: guess_world_def)
  have check: "checkCode map_redis pad_hmac (Some ''k'') (Some ''s'') ''+8801712345678'' ''x'' ((guess_world n)\<lparr>rw_redis := ?m1\<rparr>) =
      (Inr (Rejected_Otp (if 5 \<le> n then Too_Many_Attempts else Invalid)), guess_world (n + 1))"
    using key m2 w clock
    by (simp add: checkCode_def load_def on_redis_def map_redis_def otp_key_def live1 otpSecret_def configured_def
        verifyOtp_cases code_shaped_def recordAttempt_def ttl_of_def stored_of_def)
  have "(guess_world n)\<lparr>clock := 0\<rparr> = guess_world n" by (simp add: guess_world_def)
  then show ?thesis
    using hit check by (simp add: verifyOtp_svc_def sample_phone otpVerify_policy_def)
qed

theorem otp_guesses_capped_witness:
  "\<exists>r w2. submissions map_redis pad_hmac (Some ''k'') (Some ''s'') ''01712345678'' [(0, ''004321'')] (guess_world 5) = ([r], w2) \<and>
     \<not> login r"
proof -
  let ?go = "submissions map_redis pad_hmac (Some ''k'') (Some ''s'') ''01712345678''"
  have five: "?go [(0, ''x''), (0, ''x''), (0, ''x''), (0, ''x''), (0, ''x'')] (guess_world 0) =
      ([Inr (Rejected_Otp Invalid), Inr (Rejected_Otp Invalid), Inr (Rejected_Otp Invalid), Inr (Rejected_Otp Invalid),
        Inr (Rejected_Otp Invalid)], guess_world 5)"
    using sample_guess[of 0] sample_guess[of 1] sample_guess[of 2] sample_guess[of 3] sample_guess[of 4] by simp
  obtain r w2 where last: "?go [(0, ''004321'')] (guess_world 5) = ([r], w2)"
    by (cases "verifyOtp_svc map_redis pad_hmac (Some ''k'') (Some ''s'') ''01712345678'' ''004321'' ((guess_world 5)\<lparr>clock := 0\<rparr>)")
       simp
  have "\<forall>r\<in>set [r]. \<not> login r"
    by (rule otp_guesses_capped[OF map_redis_laws map_redis_reliable sample_phone _ _ _ _ _ _ five _ last])
       (auto simp: may_verify_def counter_key_def entry_def otp_key_def live_def guess_world_def refusal_def)
  then show ?thesis using last by auto
qed

lemma sample_login:
  "\<exists>token w1. verifyOtp_svc map_redis pad_hmac (Some ''k'') (Some ''s'') ''01712345678'' ''004321'' (guess_world 0) =
     (Inr (Authenticated token ''buyer''), w1)"
proof -
  let ?rate = "''ratelimit:otp:verify:+8801712345678''" and ?key = "''otp:+8801712345678''"
  let ?m1 = "(rw_redis (guess_world 0))(?rate \<mapsto> (Counter 1, Some 900000))"
  have world: "clock (guess_world 0) = 0" "committed (guess_world 0) = sample_db" "inflight (guess_world 0) = None"
      "tx_faults (guess_world 0) = []" by (simp_all add: guess_world_def)
  have live: "live 0 (rw_redis (guess_world 0)) = rw_redis (guess_world 0)" "live 0 ?m1 = ?m1"
    by (auto simp: live_def guess_world_def fun_eq_iff)
  have keys: "rw_redis (guess_world 0) ?rate = None"
      "?m1 ?key = Some (Stored \<lparr>ch_codeHash = hex_encode (pad_hmac ''k'' ''004321''), ch_expiresAt = Some 300000, ch_attempts = 0\<rparr>, Some 300000)"
    by (simp_all add: guess_world_def)
  have hit: "hit map_redis ''otp:verify:+8801712345678'' 10 900 (guess_world 0) =
      (Inr \<lparr>rl_allowed = True, rl_remaining = 9, rl_resetSeconds = 900\<rparr>, (guess_world 0)\<lparr>rw_redis := ?m1\<rparr>)"
    using map_redis_hit[of "guess_world 0" "''otp:verify:+8801712345678''" 0 900 10] keys(1) by (simp add: world live)
  have bytes: "utf8 ''k'' = ''k''" "utf8 ''004321'' = ''004321''" by (simp_all add: utf8_ascii)
  have code: "code_shaped ''004321''" by (simp add: code_shaped_def is_digit_def)
  have user: "find (\<lambda>u. u_phone_e164 u = ''+8801712345678'') (users sample_db) = Some (hd (users sample_db))"
      "u_id (hd (users sample_db)) = ''buyer''" by (simp_all add: sample_db_def)
  have "\<exists>token w1. checkCode map_redis pad_hmac (Some ''k'') (Some ''s'') ''+8801712345678'' ''004321''
      ((guess_world 0)\<lparr>rw_redis := ?m1\<rparr>) = (Inr (Authenticated token ''buyer''), w1)"
    using keys(2) user
    by (simp add: checkCode_def load_def on_redis_def map_redis_def otp_key_def live world otpSecret_def sessionSecret_def
        configured_def verifyOtp_cases code bytes completeLogin_def consume_def transact_no_fault started_def
        findByPhone_eq issueSessionToken_def Let_def)
  then show ?thesis using hit by (simp add: verifyOtp_svc_def sample_phone otpVerify_policy_def)
qed

text \<open>
  C26. A code works once, when submissions run one after the other: with a Redis server that
  answers, after a submission has logged in, no submission for the phone that starts after it
  logs in, with the same code or any other, until a new code is requested, provided none of them
  overlaps another. A wrong guess that was under way when the code was used can bring the
  challenge back (\<open>late_attempt_revives_code\<close>).
\<close>

theorem otp_single_use:
  assumes "redis_laws R view" "reliable R" "normaliseBdPhone raw = Some phone"
    and "may_verify (clock w) view (rw_redis w) phone"
    and "verifyOtp_svc R hmac secret sessionKey raw submitted w = (Inr (Authenticated token user), w1)"
    and "sorted (clock w # map fst later)" "submissions R hmac secret sessionKey raw later w1 = (rs, w2)"
  shows "\<forall>r\<in>set rs. \<not> login r"
proof -
  have "clock w1 = clock w" "may_verify (clock w) view (rw_redis w1) phone" "entry (clock w) view (rw_redis w1) phone = None"
    using verify_step[OF assms(1-5)] by auto
  then show ?thesis
    using no_login_after_five[OF assms(1-3) _ _ _ assms(7), of 0] assms(6) by (simp add: guessed_def)
qed

theorem otp_single_use_witness:
  "\<exists>token w1 r w2. verifyOtp_svc map_redis pad_hmac (Some ''k'') (Some ''s'') ''01712345678'' ''004321'' (guess_world 0) =
     (Inr (Authenticated token ''buyer''), w1) \<and>
     submissions map_redis pad_hmac (Some ''k'') (Some ''s'') ''01712345678'' [(5, ''004321'')] w1 = ([r], w2) \<and> \<not> login r"
proof -
  obtain token w1 where l: "verifyOtp_svc map_redis pad_hmac (Some ''k'') (Some ''s'') ''01712345678'' ''004321'' (guess_world 0) =
      (Inr (Authenticated token ''buyer''), w1)" using sample_login by blast
  obtain r w2 where again: "submissions map_redis pad_hmac (Some ''k'') (Some ''s'') ''01712345678'' [(5, ''004321'')] w1 = ([r], w2)"
    by (cases "verifyOtp_svc map_redis pad_hmac (Some ''k'') (Some ''s'') ''01712345678'' ''004321'' (w1\<lparr>clock := 5\<rparr>)") simp
  have "\<forall>r\<in>set [r]. \<not> login r"
    by (rule otp_single_use[OF map_redis_laws map_redis_reliable sample_phone _ l _ again])
       (auto simp: may_verify_def counter_key_def live_def guess_world_def)
  then show ?thesis using l again by auto
qed

text \<open>
  C39. A second request in the same minute kills the code already sent without sending another:
  when two requests for a phone succeed within one minute, the second leaves the outbox as it
  was, because its message has the dedupe key of the first, but the stored challenge is that of
  the second code. The code in the only message verifies only if its HMAC collides with that of
  a code nobody was sent.
\<close>

theorem otp_resend_kills_sent_code:
  assumes "redis_laws R view" "normaliseBdPhone raw = Some phone" "inflight w = None"
    and "requestOtp R hmac enqueue secret draw raw w = (Inr (Otp_Sent t1), w1)"
    and "later div 60000 = clock w div 60000"
    and "requestOtp R hmac enqueue secret draw' raw (w1\<lparr>clock := later\<rparr>) = (Inr (Otp_Sent t2), w2)"
  shows "outbox (committed w2) = outbox (committed w1) \<and>
     (\<exists>key ch e. secret = Some key \<and> entry later view (rw_redis w2) phone = Some (Stored ch, e) \<and>
        (verifyOtp hmac (Some ch) (generateCode draw) key later = Inr Ok_Outcome \<longrightarrow>
           hmac (utf8 key) (utf8 (generateCode draw)) = hmac (utf8 key) (utf8 (generateCode draw'))))"
proof -
  obtain s i where first: "issueAndSend R hmac enqueue secret draw phone (w\<lparr>rw_redis := s\<rparr>) = (Inr i, w1)"
    using requestOtp_Sent[OF assms(4,2)] by blast
  obtain s' i' where second: "issueAndSend R hmac enqueue secret draw' phone (w1\<lparr>clock := later, rw_redis := s'\<rparr>) = (Inr i', w2)"
    using requestOtp_Sent[OF assms(6,2)] by auto
  obtain r where r: "transact (otp_work enqueue phone (generateCode draw) (clock w)) (w\<lparr>rw_redis := r\<rparr>) = (Inr i, w1)"
    using issueAndSend_Inr[OF assms(1) first] by auto
  let ?ch = "\<lambda>key. \<lparr>ch_codeHash = hex_encode (hmac (utf8 key) (utf8 (generateCode draw'))),
      ch_expiresAt = mk_date (later + 300000), ch_attempts = 0\<rparr>"
  obtain key r' where r': "secret = Some key" "key \<noteq> []"
      "transact (otp_work enqueue phone (generateCode draw') later) (w1\<lparr>clock := later, rw_redis := r'\<rparr>) = (Inr i', w2)"
      "live later (view r') (otp_key phone) = Some (Stored (?ch key), Some (later + 300000))"
    using issueAndSend_Inr[OF assms(1) second] by auto
  have idle: "inflight w1 = None" by (rule pg.stays_idle[OF _ r]) (simp add: assms(3))
  have d1: "otp_work enqueue phone (generateCode draw) (clock w) (started (w\<lparr>rw_redis := r\<rparr>)) = Inr (i, committed w1)"
    by (rule pg.succeeded[OF _ r]) (simp add: assms(3))
  have d2: "otp_work enqueue phone (generateCode draw') later (started (w1\<lparr>clock := later, rw_redis := r'\<rparr>)) = Inr (i', committed w2)"
    by (rule pg.succeeded[OF _ r'(3)]) (simp add: idle)
  have "committed w2 = started (w1\<lparr>clock := later, rw_redis := r'\<rparr>)"
    using otp_work_again[OF d1, of "started (w1\<lparr>clock := later, rw_redis := r'\<rparr>)" later "generateCode draw'"] d2 assms(5)
    by (simp add: started_def)
  then have "outbox (committed w2) = outbox (committed w1)" by (simp add: started_def)
  moreover have "rw_redis w2 = r'" using transact_redis[OF r'(3)] by simp
  ultimately show ?thesis
    using r'(1,2,4) by (auto simp: entry_def verifyOtp_cases)
qed

lemma sample_otp_request:
  assumes "otp_work enqueue ''+8801712345678'' (generateCode draw) 0 (d\<lparr>now_ts := 0\<rparr>) = Inr (i, d1)" "0 \<le> n" "n < 3"
    and "m ''ratelimit:otp:request:+8801712345678'' = (if n = 0 then None else Some (Counter n, Some 900000))"
  shows "\<exists>m'. requestOtp map_redis pad_hmac enqueue (Some ''k'') draw ''01712345678''
       \<lparr>committed = d, inflight = None, tx_faults = [], clock = 0, rw_redis = m\<rparr> =
       (Inr (Otp_Sent 900), \<lparr>committed = d1, inflight = None, tx_faults = [], clock = 0, rw_redis = m'\<rparr>) \<and>
     m' ''ratelimit:otp:request:+8801712345678'' = Some (Counter (n + 1), Some 900000) \<and>
     (m ''ratelimit:otp:verify:+8801712345678'' = None \<longrightarrow> m' ''ratelimit:otp:verify:+8801712345678'' = None)"
proof -
  let ?rate = "''ratelimit:otp:request:+8801712345678''" and ?other = "''ratelimit:otp:verify:+8801712345678''"
  let ?w = "\<lambda>m d. \<lparr>committed = d, inflight = None, tx_faults = [], clock = 0, rw_redis = m\<rparr> :: redis_store redis_world"
  have live: "live 0 m ?rate = m ?rate" using assms(4) by (simp add: live_def)
  obtain m1 where m1: "hit map_redis ''otp:request:+8801712345678'' 3 900 (?w m d) =
      (Inr \<lparr>rl_allowed = True, rl_remaining = max 0 (2 - n), rl_resetSeconds = 900\<rparr>, ?w m1 d)"
      "m1 ?rate = Some (Counter (n + 1), Some 900000)" "m ?other = None \<longrightarrow> m1 ?other = None"
    using map_redis_hit[of "?w m d" "''otp:request:+8801712345678''" n 900 3] assms live by (simp add: live_def)
  obtain issued where issued: "issueOtp pad_hmac draw ''k'' 0 = Inr issued" "is_code issued = generateCode draw"
      "ch_expiresAt (is_challenge issued) = Some 300000"
    by (simp add: issueOtp_def hashCode_def Let_def mk_date_def MAX_TIME_def OTP_TTL_SECONDS_def)
  let ?m2 = "m1(otp_key ''+8801712345678'' \<mapsto> (Stored (is_challenge issued), Some 300000))"
  have "save map_redis ''+8801712345678'' (is_challenge issued) (?w m1 d) = (Inr (), ?w ?m2 d)"
    by (simp add: save_def stored_of_def issued(3) on_redis_def map_redis_def OTP_TTL_SECONDS_def)
  moreover have "transact (otp_work enqueue ''+8801712345678'' (generateCode draw) 0) (?w ?m2 d) = (Inr i, ?w ?m2 d1)"
    using assms(1) by (simp add: transact_no_fault started_def)
  ultimately have "issueAndSend map_redis pad_hmac enqueue (Some ''k'') draw ''+8801712345678'' (?w m1 d) = (Inr i, ?w ?m2 d1)"
    using issued by (simp add: issueAndSend_def otpSecret_def configured_def)
  then show ?thesis
    using m1 by (simp add: requestOtp_def sample_phone otpRequest_policy_def otp_key_def)
qed

lemma sample_otp_work:
  "\<exists>d1. otp_work enqueue ''+8801712345678'' c 0 (sample_db\<lparr>now_ts := 0\<rparr>) = Inr (''buyer'', d1) \<and> now_ts d1 = 0"
  by (simp add: otp_work_def findOrCreateByPhone_def findByPhone_eq sample_db_def otp_request_def enqueue_def
      templateKeyFor_def channelsFor_def POLICIES_def stmt_bind_def enqueue_entry_def entry_for_def new_outbox_row_def
      language_ok_def channel_name_def)

theorem otp_resend_kills_sent_code_witness:
  "\<exists>w1 w2. requestOtp map_redis pad_hmac enqueue (Some ''k'') 4321 ''01712345678'' sample_redis_world = (Inr (Otp_Sent 900), w1) \<and>
     requestOtp map_redis pad_hmac enqueue (Some ''k'') 77 ''01712345678'' (w1\<lparr>clock := 0\<rparr>) = (Inr (Otp_Sent 900), w2) \<and>
     outbox (committed w2) = outbox (committed w1)"
proof -
  obtain d1 where d1: "otp_work enqueue ''+8801712345678'' (generateCode 4321) 0 (sample_db\<lparr>now_ts := 0\<rparr>) = Inr (''buyer'', d1)" "now_ts d1 = 0"
    using sample_otp_work by blast
  have d2: "otp_work enqueue ''+8801712345678'' (generateCode 77) 0 (d1\<lparr>now_ts := 0\<rparr>) = Inr (''buyer'', d1\<lparr>now_ts := 0\<rparr>)"
    by (rule otp_work_again[OF d1(1)]) simp_all
  obtain m1 where m1: "requestOtp map_redis pad_hmac enqueue (Some ''k'') 4321 ''01712345678'' sample_redis_world =
       (Inr (Otp_Sent 900), \<lparr>committed = d1, inflight = None, tx_faults = [], clock = 0, rw_redis = m1\<rparr>)"
      "m1 ''ratelimit:otp:request:+8801712345678'' = Some (Counter 1, Some 900000)"
    using sample_otp_request[OF d1(1), of 0 "\<lambda>_. None"] by (auto simp: sample_redis_world_def)
  obtain m2 where m2: "requestOtp map_redis pad_hmac enqueue (Some ''k'') 77 ''01712345678''
       \<lparr>committed = d1, inflight = None, tx_faults = [], clock = 0, rw_redis = m1\<rparr> =
       (Inr (Otp_Sent 900), \<lparr>committed = d1\<lparr>now_ts := 0\<rparr>, inflight = None, tx_faults = [], clock = 0, rw_redis = m2\<rparr>)"
    using sample_otp_request[OF d2, of 1 m1] m1(2) by auto
  show ?thesis
    using m1(1) m2 otp_resend_kills_sent_code[OF map_redis_laws sample_phone _ m1(1), of 0 77]
    by (auto simp: sample_redis_world_def)
qed

text \<open>
  The cap counts submissions that run one after the other. Two that both load the challenge before
  either records its failure leave one attempt recorded, not two, because the recorded challenge
  is the loaded one plus one attempt; only the rate limiter bounds such a burst.
\<close>

theorem concurrent_guesses_count_once:
  assumes laws: "redis_laws R view" "reliable R"
    and y: "live (clock w) (view (rw_redis w)) (otp_key phone) = Some (Stored ch, Some e)" "clock w + 500 \<le> e"
    and c: "recordAttempt R phone ch w = (Inr u, w1)" "recordAttempt R phone ch w1 = (Inr v, w2)"
  shows "\<exists>e'. live (clock w) (view (rw_redis w2)) (otp_key phone) =
    Some (Stored (ch\<lparr>ch_attempts := ch_attempts ch + 1\<rparr>), e')"
proof -
  let ?t = "(e - clock w + 500) div 1000"
  have "1000 \<le> e - clock w + 500" using y(2) by simp
  then have t: "\<not> ?t \<le> 0" by (simp add: not_le pos_imp_zdiv_pos_iff)
  note 1 = recordAttempt_over[OF laws y(1) c(1)]
  have y1: "live (clock w1) (view (rw_redis w1)) (otp_key phone) =
      Some (Stored (ch\<lparr>ch_attempts := ch_attempts ch + 1\<rparr>), Some (clock w + 1000 * ?t))"
    using 1 t by (simp add: Let_def)
  show ?thesis using recordAttempt_over[OF laws y1 c(2)] 1 by (simp add: Let_def)
qed

text \<open>
  Nor does a code stay consumed when submissions overlap. \<open>recordAttempt\<close> asks for the remaining
  time and then writes: when a wrong guess has asked, a right one logs in and deletes the
  challenge, and then the wrong guess writes, the challenge is back, and unless that was its fifth
  attempt the code that has been used verifies again.
\<close>

theorem late_attempt_revives_code:
  assumes laws: "redis_laws R view" "reliable R"
    and y: "live (clock w) (view (rw_redis w)) (otp_key phone) = Some (Stored ch, Some e)" "clock w + 500 \<le> e"
    and asked: "on_redis (rc_ttl R (otp_key phone)) w = (Inr ttl, w1)"
    and used: "consume R phone w1 = (Inr (), w2)"
    and late: "on_redis (rc_set R (otp_key phone) (Stored (ch\<lparr>ch_attempts := ch_attempts ch + 1\<rparr>)) ttl) w2 = (Inr (), w3)"
    and right: "verifyOtp hmac (Some ch) code secret now = Inr Ok_Outcome" "ch_attempts ch < 4"
  shows "\<not> ttl \<le> 0 \<and> live (clock w) (view (rw_redis w2)) (otp_key phone) = None \<and>
    (\<exists>ch' e'. live (clock w) (view (rw_redis w3)) (otp_key phone) = Some (Stored ch', Some e') \<and>
       verifyOtp hmac (Some ch') code secret now = Inr Ok_Outcome)"
proof -
  obtain s where s: "rc_ttl R (otp_key phone) (clock w) (rw_redis w) = (Inr ttl, s)" "w1 = w\<lparr>rw_redis := s\<rparr>"
    using asked by (auto simp: on_redis_iff)
  have ttl: "ttl = (e - clock w + 500) div 1000" using redis_ttl(1)[OF laws(1) s(1)] y(1) by (simp add: ttl_of_def)
  have "1000 \<le> e - clock w + 500" using y(2) by simp
  then have pos: "0 < ttl" unfolding ttl by (simp add: pos_imp_zdiv_pos_iff)
  have w2: "live (clock w) (view (rw_redis w2)) (otp_key phone) = None" "clock w2 = clock w"
    using consume_effect[OF laws used] s(2) by simp_all
  obtain s3 where "rc_set R (otp_key phone) (Stored (ch\<lparr>ch_attempts := ch_attempts ch + 1\<rparr>)) ttl (clock w) (rw_redis w2) = (Inr (), s3)"
    "w3 = w2\<lparr>rw_redis := s3\<rparr>"
    using late w2(2) by (auto simp: on_redis_iff)
  then have "live (clock w) (view (rw_redis w3)) (otp_key phone) =
      Some (Stored (ch\<lparr>ch_attempts := ch_attempts ch + 1\<rparr>), Some (clock w + 1000 * ttl))"
    using redis_set[OF laws(1)] pos by simp
  moreover have "verifyOtp hmac (Some (ch\<lparr>ch_attempts := ch_attempts ch + 1\<rparr>)) code secret now = Inr Ok_Outcome"
    using right by (auto simp: verifyOtp_def MAX_VERIFY_ATTEMPTS_def Let_def split: option.splits if_splits)
  ultimately show ?thesis using pos w2(1) by auto
qed

theorem late_attempt_revives_code_witness:
  "\<exists>w1 w2 w3 ch. on_redis (rc_ttl map_redis (otp_key ''+8801712345678'')) (guess_world 0) = (Inr 300, w1) \<and>
     consume map_redis ''+8801712345678'' w1 = (Inr (), w2) \<and> live 0 (rw_redis w2) (otp_key ''+8801712345678'') = None \<and>
     on_redis (rc_set map_redis (otp_key ''+8801712345678'') (Stored ch) 300) w2 = (Inr (), w3) \<and>
     live 0 (rw_redis w3) (otp_key ''+8801712345678'') \<noteq> None"
proof -
  let ?k = "otp_key ''+8801712345678''" and ?w = "guess_world 0"
  let ?ch = "\<lparr>ch_codeHash = hex_encode (pad_hmac ''k'' ''004321''), ch_expiresAt = Some 300000, ch_attempts = 0\<rparr>"
  have y: "live (clock ?w) (rw_redis ?w) ?k = Some (Stored ?ch, Some 300000)" "clock ?w = 0"
    by (simp_all add: guess_world_def otp_key_def live_def)
  have ttl: "on_redis (rc_ttl map_redis ?k) ?w = (Inr 300, ?w)"
    using y by (simp add: on_redis_def map_redis_def ttl_of_def)
  let ?w2 = "?w\<lparr>rw_redis := (rw_redis ?w)(?k := None)\<rparr>"
  have used: "consume map_redis ''+8801712345678'' ?w = (Inr (), ?w2)" by (simp add: consume_def on_redis_def map_redis_def)
  obtain w3 where late: "on_redis (rc_set map_redis ?k (Stored (?ch\<lparr>ch_attempts := ch_attempts ?ch + 1\<rparr>)) 300) ?w2 = (Inr (), w3)"
    by (simp add: on_redis_def map_redis_def)
  have bytes: "utf8 ''k'' = ''k''" "utf8 ''004321'' = ''004321''" by (simp_all add: utf8_ascii)
  have right: "verifyOtp pad_hmac (Some ?ch) ''004321'' ''k'' 0 = Inr Ok_Outcome"
    by (simp add: verifyOtp_cases code_shaped_def is_digit_def bytes)
  have soon: "clock ?w + 500 \<le> 300000" using y(2) by simp
  have "live (clock ?w) (rw_redis ?w2) ?k = None" "live (clock ?w) (rw_redis w3) ?k \<noteq> None"
    using late_attempt_revives_code[OF map_redis_laws map_redis_reliable y(1) soon ttl used late right] by auto
  with ttl used late show ?thesis unfolding y(2) by blast
qed

end
