(* ===== verification/SignIn.thy ===== *)
theory SignIn
  imports Login
begin

text \<open>
  That signing in works, end to end: the code of \<open>auth.service.ts\<close> goes from \<open>requestOtp\<close> into
  the store and the outbox, back through \<open>verifyOtp\<close>, and comes out as a session that the guard
  of \<open>common/auth\<close> reads as the account of the phone number.
\<close>

section \<open>What a request leaves behind\<close>

lemma otp_work_Inr:
  assumes w: "otp_work enqueue phone code now d = Inr (i, d')" and ids: "distinct (map u_id (users d))"
  obtains u where "find (\<lambda>u. u_phone_e164 u = phone) (users d') = Some u" "u_id u = i"
    "''otp:'' @ phone @ '':'' @ show_int (now div 60000) @ '':sms'' \<notin> n_dedupe_key ` set (outbox d) \<Longrightarrow>
     \<exists>r\<in>set (outbox d'). n_user_id r = i \<and> n_phone_e164 r = phone \<and> n_channel r = Sms \<and>
       n_params r = [(''code'', code)] \<and> queued r"
proof -
  obtain d1 where f: "findOrCreateByPhone phone d = Inr (i, d1)" and e: "enqueue (otp_request i phone code now) d1 = Inr ((), d')"
    using w by (auto simp: otp_work_def stmt_bind_Inr_iff)
  obtain u where u: "find (\<lambda>u. u_phone_e164 u = phone) (users d1) = Some u" "u_id u = i"
    using findOrCreate_finds[OF f] by blast
  have same: "users d' = users d1" by (rule outbox.frame(5)[OF e])
  have box: "outbox d1 = outbox d" using findOrCreate_Inr[OF f] by auto
  have ids1: "distinct (map u_id (users d1))" using findOrCreate_Inr[OF f] ids by (auto simp: new_user_def)
  obtain v cs where v: "find (\<lambda>u. u_id u = i) (users d1) = Some v" and cs: "channelsFor ''otp'' = Inr cs"
    and loop: "stmt_for cs (\<lambda>c. enqueue_entry (entry_for (otp_request i phone code now) v ''notification.otp'' c)) d1 = Inr ((), d')"
    using e by (auto simp: enqueue_Inr_iff otp_request_def templateKeyFor_def POLICIES_def)
  have "v = u"
    using distinct_map_same[OF ids1] find_Some_in[OF v] find_Some_in[OF u(1)] u(2) by metis
  moreover have "cs = [Sms]" using cs by (simp add: channelsFor_def POLICIES_def)
  ultimately have en: "enqueue_entry (entry_for (otp_request i phone code now) u ''notification.otp'' Sms) d1 = Inr ((), d')"
    using loop by (simp add: stmt_bind_Inr_iff)
  show thesis
  proof (rule that)
    show "find (\<lambda>u. u_phone_e164 u = phone) (users d') = Some u" "u_id u = i" using u same by simp_all
    assume "''otp:'' @ phone @ '':'' @ show_int (now div 60000) @ '':sms'' \<notin> n_dedupe_key ` set (outbox d)"
    then have "outbox d' = outbox d1 @ [new_outbox_row (uuids d1 (uuid_n d1)) (now_ts d1)
        (entry_for (otp_request i phone code now) u ''notification.otp'' Sms)]"
      using enqueue_entry_Inr[OF en] box by (auto simp: entry_for_def otp_request_def channel_name_def)
    then show "\<exists>r\<in>set (outbox d'). n_user_id r = i \<and> n_phone_e164 r = phone \<and> n_channel r = Sms \<and>
       n_params r = [(''code'', code)] \<and> queued r"
      using find_Some_in[OF u(1)] by (auto simp: new_outbox_row_def entry_for_def otp_request_def queued_def)
  qed
qed

text \<open>A challenge for the code in the store, the account of the phone, and the message with the code.\<close>

lemma issued_leaves:
  assumes laws: "redis_laws R view" and w: "inflight w = None" "0 \<le> clock w" "distinct (map u_id (users (committed w)))"
    and iss: "issueAndSend R hmac enqueue (Some key) draw phone w = (Inr i, w1)"
  obtains u where "key \<noteq> []" "clock w + 300000 \<le> MAX_TIME" "clock w1 = clock w" "inflight w1 = None"
    "live (clock w) (view (rw_redis w1)) (otp_key phone) =
       Some (Stored \<lparr>ch_codeHash = hex_encode (hmac (utf8 key) (utf8 (generateCode draw))),
         ch_expiresAt = Some (clock w + 300000), ch_attempts = 0\<rparr>, Some (clock w + 300000))"
    "find (\<lambda>u. u_phone_e164 u = phone) (users (committed w1)) = Some u" "u_id u = i"
    "''otp:'' @ phone @ '':'' @ show_int (clock w div 60000) @ '':sms'' \<notin> n_dedupe_key ` set (outbox (committed w)) \<Longrightarrow>
       \<exists>r\<in>set (outbox (committed w1)). n_user_id r = i \<and> n_phone_e164 r = phone \<and> n_channel r = Sms \<and>
         n_params r = [(''code'', generateCode draw)] \<and> queued r"
proof -
  obtain r where key: "key \<noteq> []"
    and t: "transact (otp_work enqueue phone (generateCode draw) (clock w)) (w\<lparr>rw_redis := r\<rparr>) = (Inr i, w1)"
    and entry: "live (clock w) (view r) (otp_key phone) =
      Some (Stored \<lparr>ch_codeHash = hex_encode (hmac (utf8 key) (utf8 (generateCode draw))),
        ch_expiresAt = mk_date (clock w + 300000), ch_attempts = 0\<rparr>, Some (clock w + 300000))"
    using issueAndSend_Inr[OF laws iss] by auto
  have small: "clock w + 300000 \<le> MAX_TIME"
    using iss key w(2)
    by (auto simp: issueAndSend_def act_bind_Inr_iff act_lift_iff otpSecret_def configured_def issueOtp_def hashCode_def
        save_def stored_of_def OTP_TTL_SECONDS_def mk_date_def Let_def split: option.splits if_splits)
  then have exp: "mk_date (clock w + 300000) = Some (clock w + 300000)" using w(2) by (simp add: mk_date_def)
  have red: "rw_redis w1 = r" "clock w1 = clock w" using transact_redis[OF t] by simp_all
  have idle: "inflight w1 = None" by (rule pg.stays_idle[OF _ t]) (simp add: w(1))
  have "otp_work enqueue phone (generateCode draw) (clock w) (started (w\<lparr>rw_redis := r\<rparr>)) = Inr (i, committed w1)"
    by (rule pg.succeeded[OF _ t]) (simp add: w(1))
  then show thesis
    by (rule otp_work_Inr)
       (use w(3) entry exp that[OF key small red(2) idle] in \<open>simp_all add: started_def red(1)\<close>)
qed

section \<open>A submission of the right code\<close>

lemma load_only_redis:
  assumes "load R phone w = (q, w1)"
  shows "\<exists>s. w1 = w\<lparr>rw_redis := s\<rparr>"
proof -
  obtain a s where "rc_get R (otp_key phone) (clock w) (rw_redis w) = (a, s)" by (meson surj_pair)
  then have o: "on_redis (rc_get R (otp_key phone)) w = (a, w\<lparr>rw_redis := s\<rparr>)" by (simp add: on_redis_iff)
  then show ?thesis
  proof (cases a)
    case (Inl e)
    then show ?thesis using assms o by (auto simp: load_def)
  next
    case (Inr x)
    then show ?thesis using assms o by (cases x) (auto simp: load_def split: redis_value.splits)
  qed
qed

lemma right_code_passes:
  assumes laws: "redis_laws R view" "reliable R"
    and y: "live (clock w) (view (rw_redis w)) (otp_key phone) =
      Some (Stored \<lparr>ch_codeHash = hex_encode (hmac (utf8 key) (utf8 code)), ch_expiresAt = Some e, ch_attempts = 0\<rparr>, x)"
    and code: "code_shaped code" "clock w \<le> e" and key: "key \<noteq> []" "skey \<noteq> []"
    and idle: "inflight w = None" "tx_faults w = []"
    and u: "find (\<lambda>u. u_phone_e164 u = phone) (users (committed w)) = Some u"
  shows "\<exists>token w'. checkCode R hmac (Some key) (Some skey) phone code w = (Inr (Authenticated token (u_id u)), w') \<and>
    issueSessionToken hmac (u_id u) None skey (clock w) = Inr token"
proof -
  obtain q w1 where q: "load R phone w = (q, w1)" by (cases "load R phone w")
  note l = load_effect[OF laws q]
  then have q': "q = Inr (Some \<lparr>ch_codeHash = hex_encode (hmac (utf8 key) (utf8 code)), ch_expiresAt = Some e, ch_attempts = 0\<rparr>)"
    and w1: "clock w1 = clock w" using y by simp_all
  have keep1: "committed w1 = committed w \<and> inflight w1 = inflight w \<and> tx_faults w1 = tx_faults w"
    using load_only_redis[OF q] by auto
  obtain s where "rc_del R (otp_key phone) (clock w1) (rw_redis w1) = (Inr (), s)"
    using laws(2) unfolding reliable_def by (metis old.unit.exhaust)
  then have c: "consume R phone w1 = (Inr (), w1\<lparr>rw_redis := s\<rparr>)" by (simp add: consume_def on_redis_iff)
  obtain token where t: "issueSessionToken hmac (u_id u) None skey (clock w) = Inr token"
    using key(2) by (simp add: issueSessionToken_def Let_def)
  have "completeLogin R hmac (Some skey) phone w1 =
      (Inr (Authenticated token (u_id u)), w1\<lparr>rw_redis := s, committed := started (w1\<lparr>rw_redis := s\<rparr>)\<rparr>)"
    using c t u key(2) keep1 idle w1
    by (simp add: completeLogin_def transact_no_fault findByPhone_eq started_def sessionSecret_def configured_def)
  then show ?thesis
    using q q' w1 code key t
    by (simp add: checkCode_def otpSecret_def configured_def verifyOtp_cases)
qed

lemma stored_code_admits:
  assumes laws: "redis_laws R view" "reliable R"
    and y: "live t0 (view (rw_redis w)) (otp_key phone) =
      Some (Stored \<lparr>ch_codeHash = hex_encode (hmac (utf8 key) (utf8 code)), ch_expiresAt = Some e, ch_attempts = 0\<rparr>, Some e)"
    and time: "t0 \<le> clock w" "clock w \<le> e"
    and may: "may_verify (clock w) view (rw_redis w) phone"
      "\<And>c e. window_of (clock w) view (rw_redis w) (''otp:verify:'' @ phone) = Some (c, e) \<Longrightarrow> c < 10"
    and code: "code_shaped code" and key: "key \<noteq> []" "skey \<noteq> []" and idle: "inflight w = None" "tx_faults w = []"
    and u: "find (\<lambda>u. u_phone_e164 u = phone) (users (committed w)) = Some u" and raw: "normaliseBdPhone raw = Some phone"
  obtains token w2 where "verifyOtp_svc R hmac (Some key) (Some skey) raw code w = (Inr (Authenticated token (u_id u)), w2)"
    "issueSessionToken hmac (u_id u) None skey (clock w) = Inr token"
proof -
  let ?k = "''otp:verify:'' @ phone"
  have free: "counter_key (clock w) view (rw_redis w) ?k" using may(1) by (simp add: may_verify_def)
  have window: "0 < rp_windowSeconds otpVerify_policy" by (simp add: otpVerify_policy_def)
  obtain d s where h: "hit R ?k (rp_limit otpVerify_policy) (rp_windowSeconds otpVerify_policy) w = (Inr d, w\<lparr>rw_redis := s\<rparr>)"
    using hit_total[of R ?k "rp_limit otpVerify_policy" "rp_windowSeconds otpVerify_policy" w] by blast
  have allowed: "rl_allowed d"
    using hit_counts[OF laws window free h] may(2)
    by (fastforce simp: otpVerify_policy_def counted_def split: option.splits prod.splits)
  let ?w = "w\<lparr>rw_redis := s\<rparr>"
  have "live (clock w) (view (rw_redis w)) (otp_key phone) =
      Some (Stored \<lparr>ch_codeHash = hex_encode (hmac (utf8 key) (utf8 code)), ch_expiresAt = Some e, ch_attempts = 0\<rparr>, Some e)"
    using y time by (simp add: live_Some)
  then have stored: "live (clock ?w) (view (rw_redis ?w)) (otp_key phone) =
      Some (Stored \<lparr>ch_codeHash = hex_encode (hmac (utf8 key) (utf8 code)), ch_expiresAt = Some e, ch_attempts = 0\<rparr>, Some e)"
    using hit_keeps_challenge[OF laws(1) free h] by simp
  have "\<exists>token w2. checkCode R hmac (Some key) (Some skey) phone code ?w = (Inr (Authenticated token (u_id u)), w2) \<and>
      issueSessionToken hmac (u_id u) None skey (clock ?w) = Inr token"
    by (rule right_code_passes[OF laws, where w = ?w and key = key and hmac = hmac and code = code, OF stored code])
       (use time(2) key idle u in simp_all)
  then show thesis using h allowed raw that by (auto simp: verifyOtp_svc_def)
qed

section \<open>Properties\<close>

text \<open>
  C17. Signing in works, end to end: when a request for a code succeeds, then within five minutes,
  with Redis and the database answering and the limiter's window not used up, the code that was
  drawn, submitted for the same number in any spelling, yields a token; the guard reads the
  token as the account of that phone number, with no role yet; and, unless a message of the
  same minute was already queued, a text message with exactly that code waits for that phone.
\<close>

theorem requested_code_signs_in:
  assumes "redis_laws R view" "reliable R" "\<And>k m. length (hmac k m) = 32"
    and "normaliseBdPhone raw = Some phone" "normaliseBdPhone raw' = Some phone"
    and "inflight w = None" "0 \<le> clock w" "distinct (map u_id (users (committed w)))"
    and req: "requestOtp R hmac enqueue (Some key) draw raw w = (Inr (Otp_Sent t), w1)"
    and "tx_faults w1 = []" "clock w \<le> later" "later \<le> clock w + 300000"
    and may: "may_verify later view (rw_redis w1) phone"
      "\<And>c e. window_of later view (rw_redis w1) (''otp:verify:'' @ phone) = Some (c, e) \<Longrightarrow> c < 10"
    and "skey \<noteq> []"
  shows "\<exists>token user w2.
     verifyOtp_svc R hmac (Some key) (Some skey) raw' (generateCode draw) (w1\<lparr>clock := later\<rparr>) =
       (Inr (Authenticated token (u_id user)), w2) \<and>
     user \<in> set (users (committed w1)) \<and> u_phone_e164 user = phone \<and>
     canActivate hmac other False (Some (''Bearer '' @ token)) (Some skey) later =
       Inr (Some \<lparr>ca_userId = u_id user, ca_activeRoleId = None\<rparr>) \<and>
     (''otp:'' @ phone @ '':'' @ show_int (clock w div 60000) @ '':sms'' \<notin> n_dedupe_key ` set (outbox (committed w)) \<longrightarrow>
       (\<exists>r\<in>set (outbox (committed w1)). n_user_id r = u_id user \<and> n_phone_e164 r = phone \<and> n_channel r = Sms \<and>
          n_params r = [(''code'', generateCode draw)] \<and> n_status r = N_Pending))"
proof -
  obtain s i where iss: "issueAndSend R hmac enqueue (Some key) draw phone (w\<lparr>rw_redis := s\<rparr>) = (Inr i, w1)"
    using requestOtp_Sent[OF req assms(4)] by blast
  have w: "inflight (w\<lparr>rw_redis := s\<rparr>) = None" "0 \<le> clock (w\<lparr>rw_redis := s\<rparr>)"
    "distinct (map u_id (users (committed (w\<lparr>rw_redis := s\<rparr>))))" using assms(6-8) by simp_all
  obtain u where key: "key \<noteq> []" and time: "clock w + 300000 \<le> MAX_TIME" and w1: "inflight w1 = None"
    and entry: "live (clock w) (view (rw_redis w1)) (otp_key phone) =
       Some (Stored \<lparr>ch_codeHash = hex_encode (hmac (utf8 key) (utf8 (generateCode draw))),
         ch_expiresAt = Some (clock w + 300000), ch_attempts = 0\<rparr>, Some (clock w + 300000))"
    and u: "find (\<lambda>u. u_phone_e164 u = phone) (users (committed w1)) = Some u" "u_id u = i"
    and mail: "''otp:'' @ phone @ '':'' @ show_int (clock w div 60000) @ '':sms'' \<notin> n_dedupe_key ` set (outbox (committed w)) \<Longrightarrow>
       \<exists>r\<in>set (outbox (committed w1)). n_user_id r = i \<and> n_phone_e164 r = phone \<and> n_channel r = Sms \<and>
         n_params r = [(''code'', generateCode draw)] \<and> queued r"
    by (rule issued_leaves[OF assms(1) w iss]) auto
  have small: "\<bar>later\<bar> \<le> MAX_TIME" using time assms(7,11,12) by simp
  let ?w = "w1\<lparr>clock := later\<rparr>"
  have shaped: "code_shaped (generateCode draw)" by (simp add: code_shaped_def)
  obtain token w2 where v: "verifyOtp_svc R hmac (Some key) (Some skey) raw' (generateCode draw) ?w = (Inr (Authenticated token (u_id u)), w2)"
    and tok: "issueSessionToken hmac (u_id u) None skey (clock ?w) = Inr token"
    by (rule stored_code_admits[OF assms(1,2), where w = ?w and ?t0.0 = "clock w" and key = key and hmac = hmac
          and code = "generateCode draw" and u = u, OF _ _ _ _ _ shaped key assms(15) _ _ _ assms(5)])
       (use entry assms(10-12) may w1 u(1) in auto)
  have g: "canActivate hmac other False (Some (''Bearer '' @ token)) (Some skey) later =
      Inr (Some \<lparr>ca_userId = u_id u, ca_activeRoleId = None\<rparr>)"
    using verify_issued[OF tok[simplified] small assms(3), of other later]
    by (auto simp: canActivate_def payload_at_def SESSION_TTL_SECONDS_def startsWith_def)
  show ?thesis
    using v g find_Some_in[OF u(1)] mail u(2) by (intro exI[of _ token] exI[of _ u] exI[of _ w2]) (auto simp: queued_def)
qed

theorem requested_code_signs_in_witness:
  "\<exists>w1 token w2. requestOtp map_redis pad_hmac enqueue (Some ''k'') 4321 ''01712345678'' sample_redis_world = (Inr (Otp_Sent 900), w1) \<and>
     verifyOtp_svc map_redis pad_hmac (Some ''k'') (Some ''s'') ''+880 1712-345678'' (generateCode 4321) (w1\<lparr>clock := 300000\<rparr>) =
       (Inr (Authenticated token ''buyer''), w2) \<and>
     canActivate pad_hmac Map.empty False (Some (''Bearer '' @ token)) (Some ''s'') 300000 =
       Inr (Some \<lparr>ca_userId = ''buyer'', ca_activeRoleId = None\<rparr>)"
proof -
  obtain d1 where d1: "otp_work enqueue ''+8801712345678'' (generateCode 4321) 0 (sample_db\<lparr>now_ts := 0\<rparr>) = Inr (''buyer'', d1)"
    using sample_otp_work by blast
  obtain m1 where m1: "requestOtp map_redis pad_hmac enqueue (Some ''k'') 4321 ''01712345678'' sample_redis_world =
       (Inr (Otp_Sent 900), \<lparr>committed = d1, inflight = None, tx_faults = [], clock = 0, rw_redis = m1\<rparr>)"
      "m1 (''ratelimit:'' @ ''otp:verify:'' @ ''+8801712345678'') = None"
    using sample_otp_request[OF d1, of 0 "\<lambda>_. None"] by (auto simp: sample_redis_world_def)
  let ?w1 = "\<lparr>committed = d1, inflight = None, tx_faults = [], clock = 0, rw_redis = m1\<rparr> :: redis_store redis_world"
  have raw: "normaliseBdPhone ''+880 1712-345678'' = Some ''+8801712345678''"
    by (simp add: normaliseBdPhone_def is_phone_separator_def is_space_def strip_plus_def startsWith_def bd_mobile_def
        is_digit_def Let_def)
  have free: "live 300000 m1 (''ratelimit:'' @ ''otp:verify:'' @ ''+8801712345678'') = None"
    using m1(2) by (simp only: live_def option.case)
  have users: "users d1 = users sample_db"
    using d1 findOrCreate_Inr outbox.frame(5)
    by (auto simp: otp_work_def stmt_bind_Inr_iff findOrCreateByPhone_def findByPhone_eq sample_db_def)
  obtain token user w2 where "verifyOtp_svc map_redis pad_hmac (Some ''k'') (Some ''s'') ''+880 1712-345678'' (generateCode 4321)
      (?w1\<lparr>clock := 300000\<rparr>) = (Inr (Authenticated token (u_id user)), w2)"
    and u: "user \<in> set (users d1)"
    and "canActivate pad_hmac Map.empty False (Some (''Bearer '' @ token)) (Some ''s'') 300000 =
       Inr (Some \<lparr>ca_userId = u_id user, ca_activeRoleId = None\<rparr>)"
    and phone: "u_phone_e164 user = ''+8801712345678''"
    using requested_code_signs_in[OF map_redis_laws map_redis_reliable _ sample_phone raw _ _ _ m1(1), of 300000 "''s''" Map.empty]
      free
    by (auto simp: sample_redis_world_def sample_db_def may_verify_def counter_key_def window_of_def)
  moreover have "u_id user = ''buyer''" using u phone users by (auto simp: sample_db_def)
  ultimately show ?thesis using m1(1) by (intro exI[of _ ?w1]) auto
qed

end
