(* ===== verification/CheckoutProgress.thy ===== *)
theory CheckoutProgress
  imports Progress OrderService
begin

text \<open>
  That a valid checkout goes through: the converse of the checks of \<open>order.service.ts\<close>. When
  the cart can be sold, the advance is within the cap and neither the connection nor the id
  generator fails, no check rejects the order and no statement can get stuck.
\<close>

section \<open>Fresh ids\<close>

definition order_ids_fresh :: "db \<Rightarrow> bool" where
  "order_ids_fresh d \<longleftrightarrow> ids_fresh d \<and> (\<forall>n\<ge>uuid_n d. uuids d n \<notin> o_id ` set (orders d) \<and>
     uuids d n \<notin> oi_id ` set (order_items d) \<and> uuids d n \<notin> t_id ` set (transactions d))"

lemma order_ids_fresh_next:
  assumes "order_ids_fresh d"
  shows "ids_fresh d" "uuids d (uuid_n d) \<notin> o_id ` set (orders d)"
    "uuids d (uuid_n d) \<notin> oi_id ` set (order_items d)" "uuids d (uuid_n d) \<notin> t_id ` set (transactions d)"
  using assms by (simp_all add: order_ids_fresh_def)

text \<open>A statement that draws one id and adds at most one row of that id to each table.\<close>

lemma order_ids_fresh_step:
  assumes "order_ids_fresh d" "uuids d' = uuids d" "uuid_n d' = Suc (uuid_n d)"
    and "o_id ` set (orders d') \<subseteq> insert (uuids d (uuid_n d)) (o_id ` set (orders d))"
    and "oi_id ` set (order_items d') \<subseteq> insert (uuids d (uuid_n d)) (oi_id ` set (order_items d))"
    and "t_id ` set (transactions d') \<subseteq> insert (uuids d (uuid_n d)) (t_id ` set (transactions d))"
    and "n_id ` set (outbox d') \<subseteq> insert (uuids d (uuid_n d)) (n_id ` set (outbox d))"
    and "se_id ` set (status_events d') \<subseteq> insert (uuids d (uuid_n d)) (se_id ` set (status_events d))"
  shows "order_ids_fresh d'"
proof -
  have inj: "inj (uuids d)" using assms(1) by (simp add: order_ids_fresh_def ids_fresh_def)
  have other: "uuids d n \<notin> X'"
    if "uuids d n \<notin> X" "Suc (uuid_n d) \<le> n" "X' \<subseteq> insert (uuids d (uuid_n d)) X" for n X X'
  proof -
    have "uuids d n \<noteq> uuids d (uuid_n d)" using inj that(2) by (simp add: inj_eq)
    then show ?thesis using that(1,3) by blast
  qed
  have old: "\<forall>n\<ge>uuid_n d. uuids d n \<notin> n_id ` set (outbox d) \<and> uuids d n \<notin> se_id ` set (status_events d) \<and>
      uuids d n \<notin> o_id ` set (orders d) \<and> uuids d n \<notin> oi_id ` set (order_items d) \<and>
      uuids d n \<notin> t_id ` set (transactions d)"
    using assms(1) by (simp add: order_ids_fresh_def ids_fresh_def)
  have "uuids d n \<notin> n_id ` set (outbox d') \<and> uuids d n \<notin> se_id ` set (status_events d') \<and>
      uuids d n \<notin> o_id ` set (orders d') \<and> uuids d n \<notin> oi_id ` set (order_items d') \<and>
      uuids d n \<notin> t_id ` set (transactions d')" if "Suc (uuid_n d) \<le> n" for n
    using old that other[OF _ that assms(4)] other[OF _ that assms(5)] other[OF _ that assms(6)]
      other[OF _ that assms(7)] other[OF _ that assms(8)] by simp
  then show ?thesis using inj assms(2,3) by (simp add: order_ids_fresh_def ids_fresh_def)
qed

section \<open>The statements\<close>

definition writable_item :: "db \<Rightarrow> new_order_item \<Rightarrow> bool" where
  "writable_item d item \<longleftrightarrow> (\<exists>q. no_quantity item = of_int q \<and> 0 < q \<and> q \<le> 2147483647) \<and>
     (\<exists>n. numeric_in (no_unitPriceBdt item) = Inr n) \<and> no_listingId item \<in> l_id ` set (listings d)"

definition writable_order :: "db \<Rightarrow> new_order_record \<Rightarrow> bool" where
  "writable_order d r \<longleftrightarrow> (\<exists>subtotal fee total_bdt advance cap.
       numeric_in (nr_subtotalBdt r) = Inr subtotal \<and> numeric_in (nr_deliveryFeeBdt r) = Inr fee \<and>
       numeric_in (nr_totalBdt r) = Inr total_bdt \<and> numeric_in (nr_advanceAmountBdt r) = Inr advance \<and>
       numeric_in (nr_advanceCapBdt r) = Inr cap \<and> 0 \<le> subtotal \<and> 0 \<le> total_bdt \<and> 0 \<le> advance \<and> advance \<le> cap) \<and>
     nr_customerUserId r \<in> u_id ` set (users d) \<and> nr_merchantRoleId r \<in> r_id ` set (roles d) \<and>
     nr_deliveryLocationId r \<in> loc_id ` set (locations d) \<and> (\<forall>item\<in>set (nr_items r). writable_item d item)"

text \<open>What the statements after the first rely on: \<open>i\<close> is an order, and the people and goods stay.\<close>

definition placing :: "db \<Rightarrow> string \<Rightarrow> db \<Rightarrow> bool" where
  "placing d0 i d \<longleftrightarrow> order_ids_fresh d \<and> i \<in> o_id ` set (orders d) \<and> users d = users d0 \<and> listings d = listings d0"

lemma insertOrder_proceeds:
  assumes "order_ids_fresh d" "writable_order d r"
  shows "\<exists>d'. insertOrder r d = Inr (uuids d (uuid_n d), d') \<and> placing d (uuids d (uuid_n d)) d'"
proof -
  let ?i = "uuids d (uuid_n d)"
  obtain subtotal fee total_bdt advance cap where n:
    "numeric_in (nr_subtotalBdt r) = Inr subtotal" "numeric_in (nr_deliveryFeeBdt r) = Inr fee"
    "numeric_in (nr_totalBdt r) = Inr total_bdt" "numeric_in (nr_advanceAmountBdt r) = Inr advance"
    "numeric_in (nr_advanceCapBdt r) = Inr cap" "0 \<le> subtotal" "0 \<le> total_bdt" "0 \<le> advance" "advance \<le> cap"
    using assms(2) unfolding writable_order_def by blast
  let ?d = "d\<lparr>uuid_n := Suc (uuid_n d), orders := orders d @ [order_of ?i r subtotal fee total_bdt advance cap]\<rparr>"
  have "insertOrder r d = Inr (?i, ?d)"
    using n assms(2) order_ids_fresh_next(2)[OF assms(1)]
    by (simp add: insertOrder_def stmt_bind_def writable_order_def)
  moreover have "order_ids_fresh ?d"
    by (rule order_ids_fresh_step[OF assms(1)]) (auto simp: order_of_def)
  ultimately show ?thesis by (simp add: placing_def order_of_def)
qed

lemma insertItem_proceeds:
  assumes "placing d0 i d" "writable_item d0 item"
  shows "\<exists>d'. insertItem i item d = Inr ((), d') \<and> placing d0 i d'"
proof -
  obtain q n where q: "no_quantity item = of_int q" "0 < q" "q \<le> 2147483647"
    and n: "numeric_in (no_unitPriceBdt item) = Inr n"
    using assms(2) by (auto simp: writable_item_def)
  have fresh: "order_ids_fresh d" using assms(1) by (simp add: placing_def)
  let ?d = "d\<lparr>uuid_n := Suc (uuid_n d), order_items := order_items d @ [item_of (uuids d (uuid_n d)) i item q n]\<rparr>"
  have "insertItem i item d = Inr ((), ?d)"
    using q n assms order_ids_fresh_next(3)[OF fresh]
    by (simp add: insertItem_def stmt_bind_def writable_item_def placing_def)
  moreover have "order_ids_fresh ?d" by (rule order_ids_fresh_step[OF fresh]) (auto simp: item_of_def)
  ultimately show ?thesis using assms(1) by (simp add: placing_def)
qed

lemma insertItems_proceeds:
  assumes "placing d0 i d" "\<forall>item\<in>set items. writable_item d0 item"
  shows "\<exists>d'. insertItems i items d = Inr ((), d') \<and> placing d0 i d'"
  using assms unfolding insertItems_def
proof (induction items arbitrary: d)
  case (Cons item items)
  obtain d1 where "insertItem i item d = Inr ((), d1)" "placing d0 i d1"
    using insertItem_proceeds[of d0 i d item] Cons.prems by auto
  then show ?case using Cons.IH[of d1] Cons.prems(2) by (simp add: stmt_bind_def)
qed simp

lemma recordStatusEvent_proceeds:
  assumes "placing d0 i d" "ev_orderId event = i" "ev_actorRoleId event = None"
  shows "\<exists>d'. recordStatusEvent event d = Inr ((), d') \<and> placing d0 i d'"
proof -
  have fresh: "order_ids_fresh d" using assms(1) by (simp add: placing_def)
  let ?d = "d\<lparr>uuid_n := Suc (uuid_n d), status_events := status_events d @ [event_of (uuids d (uuid_n d)) event (now_ts d)],
      orders := set_status i (ev_toStatus event) (orders d)\<rparr>"
  have ids: "o_id ` set (set_status i s os) = o_id ` set os" for s os
    using update_rows_map[of "\<lambda>o1. o_id o1 = i" o_id "\<lambda>o1. o1\<lparr>o_status := s\<rparr>" os]
    by (simp add: set_status_def) (metis list.set_map)
  have "recordStatusEvent event d = Inr ((), ?d)"
    using assms ids_fresh_next(2)[OF order_ids_fresh_next(1)[OF fresh]]
    by (simp add: recordStatusEvent_def stmt_bind_def placing_def)
  moreover have "order_ids_fresh ?d"
    by (rule order_ids_fresh_step[OF fresh]) (auto simp: event_of_def ids)
  ultimately show ?thesis using assms(1) ids by (simp add: placing_def)
qed

lemma insertPendingTransaction_proceeds:
  assumes "placing d0 i d" "pt_orderId p = i" "numeric_in (pt_amountBdt p) = Inr n" "0 \<le> n"
  shows "\<exists>d'. insertPendingTransaction p d = Inr ((), d') \<and> placing d0 i d'"
proof -
  have fresh: "order_ids_fresh d" using assms(1) by (simp add: placing_def)
  let ?d = "d\<lparr>uuid_n := Suc (uuid_n d), transactions := transactions d @ [transaction_of (uuids d (uuid_n d)) p n (now_ts d)]\<rparr>"
  have "insertPendingTransaction p d = Inr ((), ?d)"
    using assms order_ids_fresh_next(4)[OF fresh]
    by (simp add: insertPendingTransaction_def stmt_bind_def placing_def)
  moreover have "order_ids_fresh ?d" by (rule order_ids_fresh_step[OF fresh]) (auto simp: transaction_of_def)
  ultimately show ?thesis using assms(1) by (simp add: placing_def)
qed

lemma writeOrder_proceeds:
  assumes fresh: "order_ids_fresh d" and r: "writable_order d r"
    and u: "find (\<lambda>u. u_id u = co_customerUserId command) (users d) = Some u" "language_ok (u_language_preference u)"
    and due: "(if co_paymentMethod command = Cod then total_amount else co_requestedAdvance command) = of_int n"
      "0 \<le> n" "n < 10 ^ 12"
  shows "\<exists>d'. writeOrder checkout_wiring command total_amount r d = Inr (uuids d (uuid_n d), d') \<and> ids_fresh d'"
proof -
  let ?i = "uuids d (uuid_n d)"
  have items: "\<forall>item\<in>set (nr_items r). writable_item d item" using r by (simp add: writable_order_def)
  have small: "\<bar>n\<bar> \<le> 999999999999" "\<bar>n\<bar> < 10 ^ 12" using due(2,3) by simp_all
  have text_of: "poishaToTaka (if co_paymentMethod command = Cod then total_amount else co_requestedAdvance command) =
      Inr (money_text n)"
    unfolding due(1) by (rule poishaToTaka_of_int[OF small(1)])
  obtain d1 where 1: "insertOrder r d = Inr (?i, d1)" "placing d ?i d1" using insertOrder_proceeds[OF fresh r] by blast
  obtain d2 where 2: "insertItems ?i (nr_items r) d1 = Inr ((), d2)" "placing d ?i d2"
    using insertItems_proceeds[OF 1(2) items] by blast
  let ?ev = "\<lparr>ev_orderId = ?i, ev_fromStatus = None, ev_toStatus = Created, ev_actorRoleId = None,
      ev_noteKey = Some ''order.event.created''\<rparr>"
  obtain d3 where 3: "recordStatusEvent ?ev d2 = Inr ((), d3)" "placing d ?i d3"
    using recordStatusEvent_proceeds[OF 2(2), of ?ev] by auto
  let ?p = "\<lparr>pt_orderId = ?i, pt_method = co_paymentMethod command, pt_amountBdt = money_text n,
      pt_isAdvance = (co_paymentMethod command \<noteq> Cod)\<rparr>"
  obtain d4 where 4: "insertPendingTransaction ?p d3 = Inr ((), d4)" "placing d ?i d4"
    using insertPendingTransaction_proceeds[OF 3(2), of ?p n] numeric_in_money_text[OF small(2)] due(2) by auto
  let ?rq = "\<lparr>rq_userId = co_customerUserId command, rq_event = ''order_confirmed'',
      rq_params = [(''orderRef'', take 8 ?i)], rq_orderId = Some ?i, rq_dedupeKey = ''order-created:'' @ ?i\<rparr>"
  obtain d5 where 5: "enqueue ?rq d4 = Inr ((), d5)" "ids_fresh d5"
    using enqueue_proceeds[of d4 ?rq u] 4(2) u by (auto simp: placing_def order_ids_fresh_def)
  show ?thesis using 1(1) 2(1) 3(1) 4(1) 5 text_of by (simp add: writeOrder_def stmt_bind_def stmt_lift_def)
qed

section \<open>The cart\<close>

text \<open>What the listing of a line offers, and when the line can be sold by merchant \<open>m\<close>.\<close>

definition listed :: "db \<Rightarrow> requested_cart_line \<Rightarrow> listing_row" where
  "listed d line = the (find (\<lambda>l. l_id l = rl_listingId line) (listings d))"

definition cart_total :: "db \<Rightarrow> requested_cart_line list \<Rightarrow> int" where
  "cart_total d lines = (\<Sum>line\<leftarrow>lines. l_price_bdt (listed d line) * \<lfloor>rl_quantity line\<rfloor>)"

definition sellable :: "db \<Rightarrow> string \<Rightarrow> requested_cart_line \<Rightarrow> bool" where
  "sellable d m line \<longleftrightarrow> (\<exists>l\<in>set (listings d). l_id l = rl_listingId line \<and> l_is_active l \<and> l_owner_role_id l = m \<and>
     (\<exists>c\<in>set (categories d). c_id c = l_category_id l \<and> \<not> c_is_restricted c \<and> \<not> c_requires_dgda_licence c) \<and>
     (\<exists>q. rl_quantity line = of_int q \<and> 1 \<le> q \<and> q \<le> 2147483647 \<and> (\<forall>n. l_stock_qty l = Some n \<longrightarrow> q \<le> n)))"

text \<open>The primary keys of the catalog.\<close>

definition catalog_keys :: "db \<Rightarrow> bool" where
  "catalog_keys d \<longleftrightarrow> distinct (map l_id (listings d)) \<and> distinct (map c_id (categories d))"

lemma listed_eq:
  assumes "catalog_keys d" "l \<in> set (listings d)" "l_id l = rl_listingId line"
  shows "listed d line = l"
proof (cases "find (\<lambda>l. l_id l = rl_listingId line) (listings d)")
  case None
  then show ?thesis using assms(2,3) by (auto simp: find_None_all)
next
  case (Some l1)
  then have "l1 = l"
    using find_Some_in[OF Some] assms distinct_map_same[of l_id "listings d" l1 l] by (simp add: catalog_keys_def)
  then show ?thesis using Some by (simp add: listed_def)
qed

lemma resolve_proceeds:
  assumes keys: "catalog_keys d" and prices: "prices_ok d" and ok: "\<forall>line\<in>set lines. sellable d m line"
  shows "\<exists>rs. resolveCartLines lines d = Inr (rs, d)"
proof (cases "lines = []")
  case True
  then show ?thesis by (simp add: resolveCartLines_Inr findByIds_def)
next
  case False
  then obtain rows where rows: "findByIds (map rl_listingId lines) d = Inr (rows, d)"
    "\<And>l c. l \<in> set (listings d) \<Longrightarrow> c \<in> set (categories d) \<Longrightarrow> c_id c = l_category_id l \<Longrightarrow>
       l_id l \<in> rl_listingId ` set lines \<Longrightarrow> joined l c \<in> set rows"
    by (force simp: findByIds_def)
  have "\<exists>r. resolve_line rows line = Inr r" if line: "line \<in> set lines" for line
  proof -
    obtain l c where l: "l \<in> set (listings d)" "l_id l = rl_listingId line"
      and c: "c \<in> set (categories d)" "c_id c = l_category_id l"
      using ok line unfolding sellable_def by blast
    then have "joined l c \<in> set rows" using rows(2) line by auto
    moreover have "lc_id (joined l c) = rl_listingId line" using l(2) by (simp add: joined_def)
    ultimately have "rl_listingId line \<in> lc_id ` set rows" by (metis imageI)
    then obtain row where row: "map_of (rev (map (\<lambda>row. (lc_id row, row)) rows)) (rl_listingId line) = Some row"
      by (cases "map_of (rev (map (\<lambda>row. (lc_id row, row)) rows)) (rl_listingId line)")
         (auto simp: map_of_eq_None_iff image_image)
    have "row \<in> set rows" using map_of_SomeD[OF row] by auto
    then obtain l1 c1 where "l1 \<in> set (listings d)" "row = joined l1 c1" using findByIds_Inr[OF rows(1)] by blast
    then have "takaToPoisha (lc_price_bdt row) = Inr (of_int (l_price_bdt l1))"
      using prices takaToPoisha_money_text[of "l_price_bdt l1"] by (force simp: prices_ok_def joined_def numeric_out_def)
    then show ?thesis using row by (simp add: resolve_line_def)
  qed
  then have "\<exists>rs. list_all2 (\<lambda>l r. resolve_line rows l = Inr r) lines rs"
    by (induction lines) (auto simp: list_all2_Cons1)
  then show ?thesis using rows(1) by (auto simp: resolveCartLines_Inr)
qed

text \<open>A line that can be sold, as the cart resolution hands it on.\<close>

definition offered :: "db \<Rightarrow> string \<Rightarrow> requested_cart_line \<Rightarrow> resolved_cart_line \<Rightarrow> bool" where
  "offered d m line r \<longleftrightarrow> orderable m r \<and> rs_unitPrice r = of_int (l_price_bdt (listed d line)) \<and>
     0 \<le> l_price_bdt (listed d line) \<and> l_price_bdt (listed d line) < 10 ^ 12 \<and>
     rs_readyToShip r = l_ready_to_ship (listed d line) \<and> rs_quantity r = rl_quantity line \<and>
     (\<exists>q. rl_quantity line = of_int q \<and> 1 \<le> q \<and> q \<le> 2147483647) \<and> rs_listingId r \<in> l_id ` set (listings d)"

lemma resolved_sellable:
  assumes keys: "catalog_keys d" and prices: "prices_ok d" and ok: "sellable d m line"
    and r: "same_line line r" "resolved_from d r l1"
  shows "offered d m line r"
proof -
  obtain l c q where l: "l \<in> set (listings d)" "l_id l = rl_listingId line" "l_is_active l" "l_owner_role_id l = m"
    and c: "c \<in> set (categories d)" "c_id c = l_category_id l" "\<not> c_is_restricted c" "\<not> c_requires_dgda_licence c"
    and q: "rl_quantity line = of_int q" "1 \<le> q" "q \<le> 2147483647" "\<forall>n. l_stock_qty l = Some n \<longrightarrow> q \<le> n"
    using ok unfolding sellable_def by blast
  have same: "listed d line = l" by (rule listed_eq[OF keys l(1,2)])
  have "l1 \<in> set (listings d)" "l_id l1 = rl_listingId line"
    using r by (auto simp: resolved_from_def same_line_def)
  then have l1: "l1 = l" using listed_eq[OF keys] same by metis
  obtain c1 where c1: "c1 \<in> set (categories d)" "c_id c1 = l_category_id l" "rs_categoryRestricted r = c_is_restricted c1"
    "rs_categoryRequiresDgdaLicence r = c_requires_dgda_licence c1"
    using r(2) l1 unfolding resolved_from_def by blast
  have "c1 = c" using distinct_map_same[of c_id "categories d" c1 c] keys c1(1,2) c(1,2) by (simp add: catalog_keys_def)
  moreover have quantity: "rs_quantity r = of_int q" using r(1) q(1) by (simp add: same_line_def)
  moreover have "(1 :: rat) \<le> of_int q" using q(2) by simp
  ultimately have 1: "orderable m r" using r(2) l1 l c c1 q by (auto simp: orderable_def resolved_from_def)
  have 2: "rs_unitPrice r = of_int (l_price_bdt l)" using resolved_price[OF prices r(2)] l1 by simp
  have 3: "rs_readyToShip r = l_ready_to_ship l" using r(2) l1 by (simp add: resolved_from_def)
  have 4: "0 \<le> l_price_bdt l" "l_price_bdt l < 10 ^ 12" using prices l(1) by (simp_all add: prices_ok_def)
  have 5: "rs_listingId r = l_id l" using l(2) r(1) by (simp add: same_line_def)
  show ?thesis unfolding offered_def same using 1 2 3 4 5 quantity q(1-3) l(1) by auto
qed

lemma cart_offered:
  assumes "catalog_keys d" "prices_ok d" "\<forall>line\<in>set lines. sellable d m line"
  obtains rs where "resolveCartLines lines d = Inr (rs, d)" "list_all2 (offered d m) lines rs"
proof -
  obtain rs where rs: "resolveCartLines lines d = Inr (rs, d)" using resolve_proceeds[OF assms] by blast
  have len: "length rs = length lines" by (rule catalog.same_length[OF rs])
  have "offered d m (lines ! k) (rs ! k)" if k: "k < length lines" for k
  proof -
    obtain l where "resolved_from d (rs ! k) l" using catalog.faithful[OF rs, of "rs ! k"] k len by auto
    moreover have "same_line (lines ! k) (rs ! k)" using catalog.aligned[OF rs] k by (simp add: list_all2_nthD)
    ultimately show ?thesis using resolved_sellable[OF assms(1,2)] assms(3) k by simp
  qed
  then show thesis using that[OF rs] len by (simp add: list_all2_conv_all_nth)
qed

text \<open>The cart as the pricing sees it.\<close>

lemma offered_cart:
  assumes "list_all2 (offered d m) lines rs"
  shows "\<forall>line\<in>set rs. orderable m line" "\<forall>l\<in>set (map cart_line_of rs). whole_line l"
    "subtotal_of (map cart_line_of rs) = cart_total d lines" "0 \<le> cart_total d lines"
    "(\<forall>l\<in>set (map cart_line_of rs). ln_readyToShip l) \<longleftrightarrow> (\<forall>line\<in>set lines. l_ready_to_ship (listed d line))"
  using assms
  by (induction rule: list_all2_induct)
     (auto simp: offered_def cart_line_of_def whole_line_def subtotal_of_def cart_total_def)

lemma offered_items:
  assumes "list_all2 (offered d m) lines rs"
  shows "\<exists>items. map_throwing item_record rs = Inr items \<and> (\<forall>item\<in>set items. writable_item d item)"
proof -
  have one: "\<exists>item. item_record r = Inr item \<and> writable_item d item" if r: "offered d m line r" for line r
  proof -
    let ?n = "l_price_bdt (listed d line)"
    have small: "\<bar>?n\<bar> \<le> 999999999999" "\<bar>?n\<bar> < 10 ^ 12" using r by (auto simp: offered_def)
    have "item_record r = Inr \<lparr>no_listingId = rs_listingId r, no_quantity = rs_quantity r,
        no_unitPriceBdt = money_text ?n, no_readyToShipAtOrder = rs_readyToShip r\<rparr>"
      using poishaToTaka_of_int[OF small(1)] r by (simp add: item_record_Inr offered_def)
    moreover have "\<exists>q. rs_quantity r = of_int q \<and> 0 < q \<and> q \<le> 2147483647"
      using r by (force simp: offered_def)
    ultimately show ?thesis
      using r numeric_in_money_text[OF small(2)] by (auto simp: writable_item_def offered_def)
  qed
  have "\<exists>items. list_all2 (\<lambda>r item. item_record r = Inr item) rs items \<and> (\<forall>item\<in>set items. writable_item d item)"
    using assms
  proof (induction rule: list_all2_induct)
    case (Cons line lines r rs)
    then obtain item items where "item_record r = Inr item" "writable_item d item"
      "list_all2 (\<lambda>r item. item_record r = Inr item) rs items" "\<forall>item\<in>set items. writable_item d item"
      using one by blast
    then show ?case by (intro exI[of _ "item # items"]) simp
  qed simp
  then show ?thesis by (simp add: map_throwing_Inr_iff)
qed

section \<open>Pricing\<close>

lemma money_column:
  assumes "0 \<le> k" "k < 10 ^ 12"
  shows "poishaToTaka (of_int k) = Inr (money_text k)" "numeric_in (money_text k) = Inr k"
  using assms by (auto intro: poishaToTaka_of_int numeric_in_money_text)

lemma price_proceeds:
  assumes cart: "list_all2 (offered d m) (co_lines command) rs" and ne: "co_lines command \<noteq> []"
    and fee: "co_deliveryFee command = of_int fee" "0 \<le> fee"
    and n: "n = cart_total d (co_lines command) + fee" "n < 10 ^ 12"
    and advance: "co_requestedAdvance command = of_int a" "0 \<le> a"
      "a \<le> cap_rule (co_paymentMethod command = Escrow_Payment \<and> escrowEnabled env \<or>
             (\<forall>line\<in>set (co_lines command). l_ready_to_ship (listed d line))) n"
    and cod: "co_paymentMethod command = Cod \<longrightarrow> a = 0"
  obtains pc cap where "priceCart env command rs = Inr pc" "pc_subtotal pc = of_int (cart_total d (co_lines command))"
    "pc_total pc = of_int n" "cap_amount (pc_cap pc) = of_int cap" "a \<le> cap" "cap \<le> n"
proof -
  let ?s = "cart_total d (co_lines command)" and ?lines = "map cart_line_of rs"
  let ?esc = "co_paymentMethod command = Escrow_Payment \<and> escrowEnabled env"
  note c = offered_cart[OF cart]
  have bounds: "0 \<le> ?s" "?s \<le> 999999999999" "fee \<le> 999999999999" "0 \<le> n" "10 * n \<le> 2 ^ 53"
    using c(4) n fee(2) by simp_all
  have sub: "cartSubtotal ?lines = Inr (of_int ?s)"
    using cartSubtotal_exact[OF c(2)] c(3) bounds(2) by simp
  have sum: "sum_poisha [of_int ?s, of_int fee] = Inr (of_int n)"
    using sum_two_exact[of ?s fee] bounds fee(2) n(1) by simp
  have "?lines \<noteq> []" using list_all2_lengthD[OF cart] ne by auto
  then obtain q where q: "computeAdvanceCap ?lines (of_int n) ?esc = Inr q"
    "cap_amount q = of_int (cap_rule (full_advance_allowed ?lines ?esc) n)"
    using computeAdvanceCap_of_int[OF _ bounds(4,5)] by blast
  let ?cap = "cap_rule (full_advance_allowed ?lines ?esc) n"
  have le: "a \<le> ?cap" "?cap \<le> n"
    using advance(3) c(5) cap_rule_bounds[OF bounds(4)] by (simp_all add: full_advance_allowed_def)
  have "(of_int 0 :: rat) \<le> of_int a" "(of_int a :: rat) \<le> of_int ?cap"
    using advance(2) le(1) by (simp_all only: of_int_le_iff)
  then have check: "advance_check (of_int a) q = Inr ()" using q(2) by (simp add: advance_check_iff)
  have "co_paymentMethod command = Cod \<longrightarrow> co_requestedAdvance command = 0" using cod advance(1) by simp
  then have "priceCart env command rs = Inr \<lparr>pc_subtotal = of_int ?s, pc_total = of_int n, pc_cap = q\<rparr>"
    using sub sum q(1) check advance(1) fee(1) by (simp add: priceCart_def Let_def)
  then show thesis using that[OF _ _ _ _ le] q(2) by simp
qed

lemma record_proceeds:
  assumes cart: "list_all2 (offered d m) (co_lines command) rs"
    and fee: "co_deliveryFee command = of_int fee" "0 \<le> fee"
    and n: "n = cart_total d (co_lines command) + fee" "n < 10 ^ 12"
    and pc: "pc_subtotal pc = of_int (cart_total d (co_lines command))" "pc_total pc = of_int n"
      "cap_amount (pc_cap pc) = of_int cap" "a \<le> cap" "cap \<le> n"
    and advance: "co_requestedAdvance command = of_int a" "0 \<le> a"
    and known: "co_customerUserId command \<in> u_id ` set (users d)" "co_merchantRoleId command \<in> r_id ` set (roles d)"
      "co_deliveryLocationId command \<in> loc_id ` set (locations d)"
  obtains r where "orderRecord command rs sc pc = Inr r" "writable_order d r"
proof -
  let ?s = "cart_total d (co_lines command)"
  obtain items where items: "map_throwing item_record rs = Inr items" "\<forall>item\<in>set items. writable_item d item"
    using offered_items[OF cart] by blast
  have s: "0 \<le> ?s" by (rule offered_cart(4)[OF cart])
  have range: "0 \<le> fee \<and> fee < 10 ^ 12" "0 \<le> n \<and> n < 10 ^ 12" "?s < 10 ^ 12" "0 \<le> cap \<and> cap < 10 ^ 12"
    "0 \<le> a \<and> a < 10 ^ 12"
    using s fee(2) n pc(4,5) advance(2) by linarith+
  note texts = money_column[OF s range(3)] money_column[of fee] money_column[of n] money_column[of cap] money_column[of a]
  let ?r = "\<lparr>nr_customerUserId = co_customerUserId command, nr_merchantRoleId = co_merchantRoleId command,
      nr_deliveryLocationId = co_deliveryLocationId command, nr_paymentMethod = co_paymentMethod command,
      nr_subtotalBdt = money_text ?s, nr_deliveryFeeBdt = money_text fee, nr_totalBdt = money_text n,
      nr_advanceAmountBdt = money_text a, nr_advanceCapBdt = money_text cap,
      nr_isEscrow = (cap_reason (pc_cap pc) = Escrow),
      nr_allItemsReadyToShip = cap_allItemsReadyToShip (pc_cap pc), nr_isSameCity = sc, nr_items = items\<rparr>"
  have "orderRecord command rs sc pc = Inr ?r"
    using items(1) texts range by (simp add: orderRecord_def pc(1-3) fee(1) advance(1))
  moreover have "writable_order d ?r"
    using texts range s pc(4) known items(2) by (simp add: writable_order_def)
  ultimately show thesis by (rule that)
qed

section \<open>The checkout\<close>

text \<open>
  \<open>valid_checkout d env command n a\<close>: the tables \<open>d\<close> allow the checkout, its total with the fee
  is \<open>n\<close> and its advance \<open>a\<close>, both in poisha.
\<close>

definition valid_checkout :: "db \<Rightarrow> string option \<Rightarrow> create_order_command \<Rightarrow> int \<Rightarrow> int \<Rightarrow> bool" where
  "valid_checkout d env command n a \<longleftrightarrow>
     co_lines command \<noteq> [] \<and> (\<forall>line\<in>set (co_lines command). sellable d (co_merchantRoleId command) line) \<and>
     (\<exists>role pk. find (\<lambda>r. r_id r = co_merchantRoleId command \<and> r_type r = Merchant) (roles d) = Some role \<and>
        r_is_active role \<and> r_kyc_status role = Verified \<and> r_pickup_location_id role = Some pk \<and> pk \<noteq> [] \<and>
        pk \<in> loc_id ` set (locations d)) \<and>
     co_deliveryLocationId command \<in> loc_id ` set (locations d) \<and>
     (\<exists>u. find (\<lambda>u. u_id u = co_customerUserId command) (users d) = Some u \<and> language_ok (u_language_preference u)) \<and>
     (\<exists>fee. co_deliveryFee command = of_int fee \<and> 0 \<le> fee \<and> n = cart_total d (co_lines command) + fee) \<and>
     n < 10 ^ 12 \<and> co_requestedAdvance command = of_int a \<and> 0 \<le> a \<and>
     a \<le> (if co_paymentMethod command = Escrow_Payment \<and> env = Some ''true'' \<or>
              (\<forall>line\<in>set (co_lines command). l_ready_to_ship (listed d line)) then n else n div 10) \<and>
     (co_paymentMethod command = Cod \<longrightarrow> a = 0)"

lemma located: "i \<in> loc_id ` set (locations d) \<Longrightarrow> \<exists>p. findById i d = Inr (p, d)"
  by (cases "find (\<lambda>r. loc_id r = i) (locations d)") (auto simp: findById_eq find_None_all)

text \<open>The tables at the start of a transaction are those committed, as far as the conditions ask.\<close>

lemma valid_checkout_started:
  "valid_checkout (started w) = valid_checkout (committed w)" "catalog_keys (started w) = catalog_keys (committed w)"
  "prices_ok (started w) = prices_ok (committed w)" "order_ids_fresh (started w) = order_ids_fresh (committed w)"
  by (simp_all add: started_def order_ids_fresh_def ids_fresh_def catalog_keys_def prices_ok_def listed_def fun_eq_iff
      cart_total_def sellable_def valid_checkout_def)

text \<open>The reads of a valid checkout price it and make a record that can be written.\<close>

lemma prepare_proceeds:
  assumes "catalog_keys (committed w)" "prices_ok (committed w)" "valid_checkout (committed w) env command n a"
  obtains p rs sc where "prepareOrder checkout_wiring env command w = (Inr p, at_now w)"
    "orderRecord command rs sc (pp_priced p) = Inr (pp_record p)" "writable_order (started w) (pp_record p)"
    "pc_total (pp_priced p) = of_int n" "0 \<le> n" "a \<le> n"
proof -
  let ?d = "started w" and ?m = "co_merchantRoleId command"
  obtain role pk u fee where lines: "co_lines command \<noteq> []" "\<forall>line\<in>set (co_lines command). sellable ?d ?m line"
    and merchant: "find (\<lambda>r. r_id r = ?m \<and> r_type r = Merchant) (roles ?d) = Some role"
      "r_is_active role" "r_kyc_status role = Verified" "r_pickup_location_id role = Some pk" "pk \<noteq> []"
      "pk \<in> loc_id ` set (locations ?d)"
    and delivery: "co_deliveryLocationId command \<in> loc_id ` set (locations ?d)"
    and customer: "find (\<lambda>u. u_id u = co_customerUserId command) (users ?d) = Some u"
    and fee: "co_deliveryFee command = of_int fee" "0 \<le> fee"
    and total: "n = cart_total ?d (co_lines command) + fee" "n < 10 ^ 12"
    and advance: "co_requestedAdvance command = of_int a" "0 \<le> a"
      "a \<le> (if co_paymentMethod command = Escrow_Payment \<and> env = Some ''true'' \<or>
               (\<forall>line\<in>set (co_lines command). l_ready_to_ship (listed ?d line)) then n else n div 10)"
      "co_paymentMethod command = Cod \<longrightarrow> a = 0"
    using assms(3) unfolding valid_checkout_started(1)[symmetric] valid_checkout_def by blast
  have d: "catalog_keys ?d" "prices_ok ?d" using assms(1,2) by (simp_all only: valid_checkout_started)
  obtain rs where rs: "resolveCartLines (co_lines command) ?d = Inr (rs, ?d)" and cart: "list_all2 (offered ?d ?m) (co_lines command) rs"
    by (rule cart_offered[OF d lines(2)])
  have cap: "a \<le> cap_rule (co_paymentMethod command = Escrow_Payment \<and> escrowEnabled env \<or>
      (\<forall>line\<in>set (co_lines command). l_ready_to_ship (listed ?d line))) n"
    using advance(3) by (simp add: cap_rule_def escrowEnabled_def)
  obtain pc c where pc: "priceCart env command rs = Inr pc" and amounts: "pc_subtotal pc = of_int (cart_total ?d (co_lines command))"
    "pc_total pc = of_int n" "cap_amount (pc_cap pc) = of_int c" "a \<le> c" "c \<le> n"
    by (rule price_proceeds[OF cart lines(1) fee total advance(1,2) cap advance(4)])
  obtain p q where p: "findById pk ?d = Inr (p, ?d)" and q: "findById (co_deliveryLocationId command) ?d = Inr (q, ?d)"
    using located merchant(6) delivery by metis
  have "co_customerUserId command \<in> u_id ` set (users ?d)" "?m \<in> r_id ` set (roles ?d)"
    using find_Some_in[OF customer] find_Some_in[OF merchant(1)] by (auto intro: rev_image_eqI)
  then obtain r where r: "orderRecord command rs (isSameCity p q) pc = Inr r" "writable_order ?d r"
    using record_proceeds[OF cart fee total amounts advance(1,2)] delivery by metis
  have m: "findMerchant ?m ?d = Inr (summary_of role, ?d)" using merchant(1) by (simp add: findMerchant_eq)
  have ok: "assertCartIsOrderable rs ?m = Inr ()" using offered_cart(1)[OF cart] by (simp add: assertCartIsOrderable_iff)
  have reads: "on_pool (resolveCartLines (co_lines command)) w = (Inr rs, at_now w)"
    "on_pool (findMerchant ?m) (at_now w) = (Inr (summary_of role), at_now w)"
    "on_pool (findById pk) (at_now w) = (Inr p, at_now w)"
    "on_pool (findById (co_deliveryLocationId command)) (at_now w) = (Inr q, at_now w)"
    using rs m p q by (simp_all add: on_pool_def at_now_def started_def)
  have "prepareOrder checkout_wiring env command w = (Inr \<lparr>pp_priced = pc, pp_sameCity = isSameCity p q, pp_record = r\<rparr>, at_now w)"
    using lines(1) reads ok merchant(2-5) pc r(1) by (simp add: prepareOrder_def priceOrder_def summary_of_def)
  from that[OF this] show thesis using r amounts advance(2) by simp
qed

lemma checkout_proceeds:
  assumes "inflight w = None" "tx_faults w = []" "order_ids_fresh (committed w)"
    and "catalog_keys (committed w)" "prices_ok (committed w)" "valid_checkout (committed w) env command n a"
  shows "\<exists>x d'. createOrder checkout_wiring env command w = (Inr x, w\<lparr>committed := d'\<rparr>) \<and> cr_totalBdt x = money_text n \<and>
     cr_orderId x = uuids (committed w) (uuid_n (committed w)) \<and> ids_fresh d'"
proof -
  obtain p rs sc where p: "prepareOrder checkout_wiring env command w = (Inr p, at_now w)"
    and r: "orderRecord command rs sc (pp_priced p) = Inr (pp_record p)" "writable_order (started w) (pp_record p)"
    and n: "pc_total (pp_priced p) = of_int n" "0 \<le> n" "a \<le> n"
    by (rule prepare_proceeds[OF assms(4-6)])
  let ?due = "if co_paymentMethod command = Cod then n else a" and ?i = "uuids (committed w) (uuid_n (committed w))"
  obtain u where customer: "find (\<lambda>u. u_id u = co_customerUserId command) (users (started w)) = Some u" "language_ok (u_language_preference u)"
    and a: "co_requestedAdvance command = of_int a" "0 \<le> a" "n < 10 ^ 12"
    using assms(6) unfolding valid_checkout_started(1)[symmetric] valid_checkout_def by blast
  have due: "(if co_paymentMethod command = Cod then pc_total (pp_priced p) else co_requestedAdvance command) = of_int ?due"
    "0 \<le> ?due" "?due < 10 ^ 12"
    using n a by simp_all
  have fresh: "order_ids_fresh (started w)" using assms(3) by (simp only: valid_checkout_started)
  have "uuids (started w) (uuid_n (started w)) = ?i" by (simp add: started_def)
  then obtain d' where wr: "writeOrder checkout_wiring command (pc_total (pp_priced p)) (pp_record p) (started w) = Inr (?i, d')"
    "ids_fresh d'"
    using writeOrder_proceeds[OF fresh r(2) customer due] by metis
  obtain x where x: "orderResult command p ?i = Inr x" "cr_orderId x = ?i" "cr_totalBdt x = nr_totalBdt (pp_record p)"
    using orderResult_total[OF r(1), of ?i] by force
  have "poishaToTaka (of_int n) = Inr (money_text n)" using n(2) a(3) by (intro poishaToTaka_of_int) simp
  then have "nr_totalBdt (pp_record p) = money_text n" using orderRecord_Inr(3)[OF r(1)] n(1) by simp
  moreover have "at_now w\<lparr>committed := d'\<rparr> = w\<lparr>committed := d'\<rparr>" by (simp add: at_now_def)
  ultimately show ?thesis
    using p wr x assms(1,2) by (auto simp: createOrder_def transact_no_fault)
qed

section \<open>Properties\<close>

text \<open>
  C12. A valid checkout goes through: when every line names an active listing of the merchant in an
  allowed category, in a whole quantity that the stock and the column hold; the merchant is
  active and verified with a pickup address; both addresses and the customer are known; the
  total with the fee is within the range of its column; the advance is a whole amount of at most
  the rule's cap, and nothing for cash on delivery; and neither the connection nor the id
  generator fails: then the order is created, and its total is the sum of the stored prices times
  the quantities plus the fee. No check of the code refuses more than these conditions do.
\<close>

theorem valid_checkout_succeeds:
  assumes "inflight w = None" "tx_faults w = []" "order_ids_fresh (committed w)"
    and "catalog_keys (committed w)" "prices_ok (committed w)"
    and lines: "co_lines command \<noteq> []" "\<forall>line\<in>set (co_lines command). sellable (committed w) (co_merchantRoleId command) line"
    and merchant: "find (\<lambda>r. r_id r = co_merchantRoleId command \<and> r_type r = Merchant) (roles (committed w)) = Some role"
      "r_is_active role" "r_kyc_status role = Verified" "r_pickup_location_id role = Some pk" "pk \<noteq> []"
      "pk \<in> loc_id ` set (locations (committed w))"
    and delivery: "co_deliveryLocationId command \<in> loc_id ` set (locations (committed w))"
    and customer: "find (\<lambda>u. u_id u = co_customerUserId command) (users (committed w)) = Some u" "language_ok (u_language_preference u)"
    and fee: "co_deliveryFee command = of_int fee" "0 \<le> fee"
    and total: "n = cart_total (committed w) (co_lines command) + fee" "n < 10 ^ 12"
    and advance: "co_requestedAdvance command = of_int a" "0 \<le> a"
      "a \<le> (if co_paymentMethod command = Escrow_Payment \<and> env = Some ''true'' \<or>
               (\<forall>line\<in>set (co_lines command). l_ready_to_ship (listed (committed w) line)) then n else n div 10)"
      "co_paymentMethod command = Cod \<longrightarrow> a = 0"
  shows "\<exists>x w'. createOrder checkout_wiring env command w = (Inr x, w') \<and> cr_totalBdt x = money_text n \<and>
     cr_orderId x = uuids (committed w) (uuid_n (committed w))"
proof -
  have "valid_checkout (committed w) env command n a"
    unfolding valid_checkout_def using assms(6-24) by blast
  then show ?thesis using checkout_proceeds[OF assms(1-5)] by blast
qed

theorem valid_checkout_succeeds_witness:
  "\<exists>x w'. createOrder checkout_wiring None (sample_order_command Bkash 4000) sample_world = (Inr x, w') \<and>
     cr_totalBdt x = money_text 44005"
proof -
  have fresh: "order_ids_fresh (committed sample_world)"
    using sample_ids by (simp add: order_ids_fresh_def ids_fresh_def) (simp add: sample_db_def)
  have keys: "catalog_keys (committed sample_world)" "prices_ok (committed sample_world)"
    by (simp_all add: catalog_keys_def prices_ok_def sample_db_def sample_listing_def)
  have two: "\<exists>q. (2 :: rat) = of_int q \<and> 1 \<le> q \<and> q \<le> 9" "\<exists>q. (1 :: rat) = of_int q \<and> 1 \<le> q \<and> q \<le> 9"
    by (rule exI[of _ 2], simp) (rule exI[of _ 1], simp)
  have lines: "\<forall>line\<in>set (co_lines (sample_order_command Bkash 4000)).
      sellable (committed sample_world) (co_merchantRoleId (sample_order_command Bkash 4000)) line"
    using two by (force simp: sample_lines_def sellable_def sample_db_def sample_listing_def)
  have total: "44005 = cart_total (committed sample_world) (co_lines (sample_order_command Bkash 4000)) + 0"
    by (simp add: cart_total_def listed_def sample_lines_def sample_db_def sample_listing_def)
  have "\<exists>x w'. createOrder checkout_wiring None (sample_order_command Bkash 4000) sample_world = (Inr x, w') \<and>
      cr_totalBdt x = money_text 44005 \<and> cr_orderId x = uuids (committed sample_world) (uuid_n (committed sample_world))"
    by (rule valid_checkout_succeeds[OF _ _ fresh keys _ lines _ _ _ _ _ _ _ _ _ _ _ total, where a = 4000 and pk = "''pickup''"
          and role = "hd (roles sample_db)" and u = "hd (users sample_db)"])
       (simp_all add: sample_db_def sample_location_def sample_lines_def language_ok_def listed_def sample_listing_def)
  then show ?thesis by blast
qed

end
