(* ===== verification/Purchase.thy ===== *)
theory Purchase
  imports CheckoutProgress Mail
begin

text \<open>
  A purchase from end to end: the checkout (\<open>order.service.ts\<close>), the settlement of its payment
  (\<open>payment.service.ts\<close>) and the delivery of the messages (\<open>notification.dispatcher.ts\<close>) fit
  together. What each step leaves behind is what the next one needs: a pending payment of the
  right amount, an order whose customer is known, a queue whose messages render.
\<close>

section \<open>What a checkout leaves behind\<close>

text \<open>The payment that \<open>d'\<close> has beyond \<open>d\<close>: pending for order \<open>i\<close>, with amount \<open>due\<close>.\<close>

definition awaits :: "db \<Rightarrow> string \<Rightarrow> bool \<Rightarrow> int \<Rightarrow> transaction_row \<Rightarrow> db \<Rightarrow> bool" where
  "awaits d i advance due t d' \<longleftrightarrow> transactions d' = transactions d @ [t] \<and> pending_for i t \<and> t_amount_bdt t = due \<and>
     t_is_advance t = advance \<and> t_aggregator_ref t = None \<and> i \<notin> o_id ` set (orders d)"

lemma checkout_leaves:
  assumes "inflight w = None" "createOrder checkout_wiring env command w = (Inr x, w')"
    and total: "cr_totalBdt x = money_text n" "0 \<le> n" "n < 10 ^ 12"
    and advance: "co_requestedAdvance command = of_int a" "0 \<le> a" "a < 10 ^ 12"
  obtains t o1 where
    "awaits (committed w) (cr_orderId x) (co_paymentMethod command \<noteq> Cod) (if co_paymentMethod command = Cod then n else a) t (committed w')"
    "find_order (cr_orderId x) (committed w') = Some o1" "o_customer_user_id o1 = co_customerUserId command"
    "o_total_bdt o1 = n" "o_advance_paid_at o1 = None" "users (committed w') = users (committed w)"
    "mail_kept (committed w) (committed w')"
    "\<And>r. r \<in> set (outbox (committed w')) \<Longrightarrow> r \<in> set (outbox (committed w)) \<or>
       (\<exists>c. n_dedupe_key r = ''order-created:'' @ cr_orderId x @ '':'' @ channel_name c)"
proof -
  obtain p where p: "prepareOrder checkout_wiring env command w = (Inr p, at_now w)"
    and wr: "writeOrder checkout_wiring command (pc_total (pp_priced p)) (pp_record p) (started w) =
      Inr (cr_orderId x, committed w')"
    and res: "orderResult command p (cr_orderId x) = Inr x"
    using wired.placed[OF assms(1,2)] by metis
  obtain resolved sameCity where r: "orderRecord command resolved sameCity (pp_priced p) = Inr (pp_record p)"
    using wired.prepare_Inr[OF p] by metis
  have total_text: "nr_totalBdt (pp_record p) = money_text n"
    using orderResult_total[OF r, of "cr_orderId x"] res total(1) by auto
  have numeric: "numeric_in (money_text k) = Inr k" if "0 \<le> k" "k < 10 ^ 12" for k
    using that by (intro numeric_in_money_text) simp
  have due_text: "poishaToTaka (if co_paymentMethod command = Cod then pc_total (pp_priced p) else co_requestedAdvance command) =
      Inr (money_text (if co_paymentMethod command = Cod then n else a))"
    using orderRecord_Inr(3,4)[OF r] total_text advance money_column(1)[of a] by simp
  obtain d1 y where q: "outbox d1 = outbox (started w)"
      "enqueue \<lparr>rq_userId = co_customerUserId command, rq_event = ''order_confirmed'',
         rq_params = [(''orderRef'', take 8 (cr_orderId x))], rq_orderId = Some (cr_orderId x),
         rq_dedupeKey = ''order-created:'' @ cr_orderId x\<rparr> d1 = Inr (y, committed w')"
    using writeOrder_queues[OF wr] .
  have keys: "r \<in> set (outbox (committed w)) \<or>
       (\<exists>c. n_dedupe_key r = ''order-created:'' @ cr_orderId x @ '':'' @ channel_name c)"
    if "r \<in> set (outbox (committed w'))" for r
    using enqueue_keys[OF q(2) that] q(1) by (auto simp: started_def)
  have kept: "mail_kept (committed w) (committed w')"
    using mail_kept_trans[OF mail_kept_same writeOrder_mail[OF wr], of "committed w"] by (simp add: started_def)
  show thesis
    using wr
  proof (rule wired.write_Inr, goal_cases)
    case (1 subtotal fee total_bdt advance_bdt cap items ev t amount)
    let ?o = "order_of (cr_orderId x) (pp_record p) subtotal fee total_bdt advance_bdt cap"
    have "t_amount_bdt t = (if co_paymentMethod command = Cod then n else a)"
      using 1(26,27) due_text numeric[OF total(2,3)] numeric[OF advance(2,3)] by (auto split: if_splits)
    then have aw: "awaits (committed w) (cr_orderId x) (co_paymentMethod command \<noteq> Cod)
        (if co_paymentMethod command = Cod then n else a) t (committed w')"
      using 1 by (simp add: awaits_def pending_for_def started_def)
    have "find_order (cr_orderId x) (committed w') = Some ?o"
      using 1(2,12) by (simp add: find_order_eq started_def order_of_def find_append_fresh)
    moreover have "total_bdt = n" using 1(5) total_text numeric[OF total(2,3)] by simp
    ultimately show ?case
      using that[OF aw _ _ _ _ _ kept keys] orderRecord_Inr(7)[OF r] 1(29) by (simp add: order_of_def started_def)
  qed
qed

section \<open>What a settlement queues\<close>

lemma settle_queues:
  assumes "settle settlement_wiring notice p d = Inr (res, d')" "order_known d (sn_orderId notice) o1"
    and "find (\<lambda>u. u_id u = o_customer_user_id o1) (users d) = Some u"
  obtains d2 d3 x amount where "poishaToTaka (sn_amount notice) = Inr amount"
    "enqueue \<lparr>rq_userId = o_customer_user_id o1, rq_event = ''payment_received'',
        rq_params = [(''orderRef'', take 8 (sn_orderId notice)), (''amount'', amount)], rq_orderId = Some (sn_orderId notice),
        rq_dedupeKey = ''settle:'' @ sn_aggregator notice @ '':'' @ sn_aggregatorRef notice @ '':'' @ ''payment_received''\<rparr>
       d2 = Inr (x, d3)"
    "users d2 = users d" "outbox d2 = outbox d" "outbox d' = outbox d3"
proof -
  obtain d1 d2 d3 x1 x2 x3 where
    1: "markSettled (t_id p) (sn_aggregator notice) (sn_aggregatorRef notice) (sn_occurredAt notice) d = Inr (x1, d1)"
    and 2: "transitionStatus (sn_orderId notice) Confirmed ''order.event.payment_received'' d1 = Inr (x2, d2)"
    and 3: "notifyCustomer settlement_wiring notice ''payment_received'' d2 = Inr (x3, d3)"
    and 4: "runClock settlement_wiring notice p d3 = Inr (res, d')"
    using assms by (auto simp: settle_def stmt_bind_Inr_iff settlement_wiring_simps)
  have d1: "outbox d1 = outbox d" "users d1 = users d" "orders d1 = orders d" using 1 by (auto simp: markSettled_Inr)
  have d2: "outbox d2 = outbox d1" "users d2 = users d1" "orders d2 = set_status (sn_orderId notice) Confirmed (orders d1)"
    using 2 by (auto simp: transitionStatus_def stmt_bind_Inr_iff dest: recordStatusEvent_Inr)
  have "outbox d' = outbox d3"
    using 4 by (auto simp: runClock_def stmt_bind_Inr_iff stmt_lift_Inr_iff settlement_wiring_simps findForSettlement_def
        startDeliveryClock_def stampDeliveryClock_Inr split: if_splits option.splits)
  moreover have "find_order (sn_orderId notice) d2 = Some (o1\<lparr>o_status := Confirmed\<rparr>)"
    using assms(2) d1(3) d2(3) by (simp add: order_known_def find_order_eq set_status_def find_update_rows)
  ultimately show thesis
    using that 3 d1 d2(1,2)
    by (auto simp: notifyCustomer_def stmt_bind_Inr_iff stmt_lift_Inr_iff settlement_wiring_simps findCustomer_def)
qed

section \<open>The whole purchase\<close>

text \<open>The settlement finds the pending payment, and the order is confirmed and clocked.\<close>

lemma paid_order:
  assumes "settle settlement_wiring notice p d = Inr (res, d')" "find_order (sn_orderId notice) d = Some o1"
    and "sn_occurredAt notice = Some t"
  shows "\<exists>o2. find_order (sn_orderId notice) d' = Some o2 \<and> o_status o2 = Confirmed \<and> o_total_bdt o2 = o_total_bdt o1 \<and>
    o_is_same_city o2 = o_is_same_city o1 \<and>
    (t_is_advance p \<longrightarrow> o_advance_paid_at o1 = None \<longrightarrow> o_advance_paid_at o2 = Some t \<and>
       o_delivery_deadline_at o2 = Some (t + (if o_is_same_city o1 then 5 else 10) * 86400000))"
  using assms(1)
proof (rule paid.settle_Inr, goal_cases)
  case (1 t1 o0 e)
  have "o0 = o1" using 1(3) assms(2) by simp
  then have "find_order (sn_orderId notice) d' = Some (confirmed_row (clock_due notice p o1) o1)"
    using find_order_update[OF confirmed_row_id 1(5), of "sn_orderId notice"] assms(2) by simp
  then show ?case
    using assms(3)
    by (auto simp: confirmed_row_def stamp_row_def clock_due_def deliveryWindowDays_def MS_PER_DAY_def
        SAME_CITY_DELIVERY_DAYS_def DIFFERENT_CITY_DELIVERY_DAYS_def split: option.splits prod.splits)
qed

text \<open>The message of the settlement is in the queue, with the text the customer will read.\<close>

lemma message_queued:
  assumes "settle settlement_wiring notice p d = Inr (res, d')" "order_known d (sn_orderId notice) o1"
    and u: "find (\<lambda>u. u_id u = o_customer_user_id o1) (users d) = Some u"
    and fresh: "\<forall>r\<in>set (outbox d). n_dedupe_key r \<noteq>
      ''settle:'' @ sn_aggregator notice @ '':'' @ sn_aggregatorRef notice @ '':payment_received:sms''"
    and amount: "poishaToTaka (sn_amount notice) = Inr text_of"
  shows "\<exists>r\<in>set (queue d'). n_channel r = Sms \<and> n_phone_e164 r = u_phone_e164 u \<and> n_language r = u_language_preference u \<and>
    n_template_key r = ''notification.payment.received'' \<and>
    n_params r = [(''orderRef'', take 8 (sn_orderId notice)), (''amount'', text_of)]"
proof -
  obtain d2 d3 x where q: "enqueue \<lparr>rq_userId = o_customer_user_id o1, rq_event = ''payment_received'',
        rq_params = [(''orderRef'', take 8 (sn_orderId notice)), (''amount'', text_of)], rq_orderId = Some (sn_orderId notice),
        rq_dedupeKey = ''settle:'' @ sn_aggregator notice @ '':'' @ sn_aggregatorRef notice @ '':'' @ ''payment_received''\<rparr>
       d2 = Inr (x, d3)" "users d2 = users d" "outbox d2 = outbox d" "outbox d' = outbox d3"
    by (rule settle_queues[OF assms(1,2) u]) (use amount in simp)
  obtain r where r: "r \<in> set (outbox d3)"
    "n_dedupe_key r = ''settle:'' @ sn_aggregator notice @ '':'' @ sn_aggregatorRef notice @ '':payment_received:sms''"
    "r \<in> set (outbox d) \<or> n_phone_e164 r = u_phone_e164 u \<and> n_language r = u_language_preference u \<and>
       templateKeyFor ''payment_received'' = Inr (n_template_key r) \<and> n_channel r = Sms \<and>
       n_params r = [(''orderRef'', take 8 (sn_orderId notice)), (''amount'', text_of)] \<and> n_status r = N_Pending"
    using enqueue_sms[OF q(1)] q(2,3) u by auto
  then show ?thesis
    using fresh q(4) by (intro bexI[of _ r]) (auto simp: queue_rows waiting_def templateKeyFor_def POLICIES_def)
qed

lemma payment_has_order:
  assumes "platform_ok d" "q \<in> set (transactions d)"
  shows "t_order_id q \<in> o_id ` set (orders d)"
proof -
  have "\<forall>t\<in>set (transactions d). \<exists>o1\<in>set (orders d). payment_of o1 t"
    using assms(1) by (simp add: platform_ok_def ledger_with_def)
  then obtain o1 where "o1 \<in> set (orders d)" "t_order_id q = o_id o1"
    using assms(2) unfolding payment_of_def by blast
  then show ?thesis by simp
qed

text \<open>A genuine notice for the payment a checkout left pending is applied.\<close>

lemma awaited_settlement:
  assumes ok: "platform_ok d" and p: "awaits d (sn_orderId notice) advance due p (committed w)"
    and w: "inflight w = None" "tx_faults w = []" "ids_fresh (committed w)" "order_known (committed w) (sn_orderId notice) o1"
    and notice: "sn_outcome notice = Outcome_Settled" "sn_amount notice = of_int due" "0 \<le> due" "due < 10 ^ 12"
      "sn_occurredAt notice = Some t" "0 \<le> t" "t + 864000000 \<le> MAX_TIME"
      "\<forall>q\<in>set (transactions d). \<not> carries_ref (sn_aggregator notice) (sn_aggregatorRef notice) q"
  shows "\<exists>res d2. applySettlement settlement_wiring notice w = (Inr (Applied (sn_orderId notice) res), w\<lparr>committed := d2\<rparr>) \<and>
    settle settlement_wiring notice p (started w) = Inr (Applied (sn_orderId notice) res, d2)"
proof -
  let ?i = "sn_orderId notice"
  have ts: "transactions (committed w) = transactions d @ [p]" and t: "pending_for ?i p" "t_aggregator_ref p = None"
    "t_amount_bdt p = due" using p by (simp_all add: awaits_def)
  have old: "t_order_id q \<noteq> ?i" if "q \<in> set (transactions d)" for q
    using payment_has_order[OF ok that] p by (auto simp: awaits_def)
  have mine: "p \<in> set (transactions (committed w))"
    "\<forall>q\<in>set (transactions (committed w)). pending_for ?i q \<longrightarrow> q = p"
    "\<forall>q\<in>set (transactions (committed w)). \<not> carries_ref (sn_aggregator notice) (sn_aggregatorRef notice) q"
    unfolding ts using old notice(8) t(2) by (simp_all add: pending_for_def carries_ref_def)
  have amount: "sn_amount notice = of_int (t_amount_bdt p)" "\<bar>t_amount_bdt p\<bar> < 10 ^ 12"
    using notice(2-4) t(3) by simp_all
  have "mk_date (t + deliveryWindowDays (o_is_same_city o1) * MS_PER_DAY) \<noteq> None"
    using notice(6,7) by (simp add: mk_date_def deliveryWindowDays_def MS_PER_DAY_def
        SAME_CITY_DELIVERY_DAYS_def DIFFERENT_CITY_DELIVERY_DAYS_def)
  then show ?thesis
    by (rule settlement_proceeds[OF w(1-3) notice(1,5) mine(1) t(1) mine(2,3) amount w(4)])
qed

text \<open>When the queue has been worked off, a text message that was in it has reached its phone.\<close>

lemma receipt_delivered:
  assumes "inflight w = None" "tx_faults w = []" "mail_ok (committed w)" "queue_ok (committed w)"
    and "dp_templates dp = TEMPLATES" "accepting dp" "r \<in> set (queue (committed w))" "n_channel r = Sms"
  shows "\<exists>m. renderTemplate TEMPLATES (n_template_key r) (n_language r) (n_params r) = Inr m \<and>
    queue (committed (dispatch_passes dp (length (queue (committed w))) w)) = [] \<and>
    (n_phone_e164 r, tp_body m) \<in> set (sms_log (dispatch_passes dp (length (queue (committed w))) w))"
proof -
  let ?k = "length (queue (committed w))"
  have can: "\<forall>r\<in>set (queue (committed w)). sendable dp r"
    using assms(3,5) by (auto simp: queue_rows mail_ok_def renders_def sendable_def rendered_def)
  then obtain m where m: "rendered dp r = Inr m" using assms(7) by (cases "rendered dp r") (auto simp: sendable_def)
  have "answering w" using assms(1,2,4) by (simp add: answering_def queue_ok_def)
  then have "queue (committed (dispatch_passes dp ?k w)) = []"
    "sms_log (dispatch_passes dp ?k w) = sms_log w @ sms_part dp (queue (committed w))"
    using passes_deliver[of w dp ?k] can assms(6) by simp_all
  moreover have "(n_phone_e164 r, tp_body m) \<in> set (sms_part dp (queue (committed w)))"
    using assms(7,8) m by (force simp: sms_part_def sms_of_def message_of_def)
  ultimately show ?thesis using m assms(5) by (simp add: rendered_def)
qed

text \<open>Settled from \<open>w1\<close>, the payment reaches the customer as a receipt.\<close>

lemma customer_told:
  assumes st: "settle settlement_wiring notice p (started w1) = Inr (res, d2)"
    and o1: "order_known (committed w1) (sn_orderId notice) o1"
    and u: "find (\<lambda>u. u_id u = o_customer_user_id o1) (users (committed w1)) = Some u"
    and amount: "poishaToTaka (sn_amount notice) = Inr text_of"
    and fresh: "\<forall>r\<in>set (outbox (committed w1)). n_dedupe_key r \<noteq>
      ''settle:'' @ sn_aggregator notice @ '':'' @ sn_aggregatorRef notice @ '':payment_received:sms''"
    and w2: "inflight w2 = None" "tx_faults w2 = []" "committed w2 = d2" "mail_ok (committed w1)" "queue_ok (committed w1)"
    and gateways: "dp_templates dp = TEMPLATES" "accepting dp"
  obtains m where "renderTemplate TEMPLATES ''notification.payment.received'' (u_language_preference u)
      [(''orderRef'', take 8 (sn_orderId notice)), (''amount'', text_of)] = Inr m"
    "queue (committed (dispatch_passes dp (length (queue d2)) w2)) = []"
    "(u_phone_e164 u, tp_body m) \<in> set (sms_log (dispatch_passes dp (length (queue d2)) w2))"
proof -
  have started: "order_known (started w1) (sn_orderId notice) o1"
    "find (\<lambda>u. u_id u = o_customer_user_id o1) (users (started w1)) = Some u" "outbox (started w1) = outbox (committed w1)"
    using o1 u by (simp_all add: started_def find_order_def order_known_def)
  obtain r where r: "r \<in> set (queue d2)" "n_channel r = Sms" "n_phone_e164 r = u_phone_e164 u"
    "n_language r = u_language_preference u" "n_template_key r = ''notification.payment.received''"
    "n_params r = [(''orderRef'', take 8 (sn_orderId notice)), (''amount'', text_of)]"
    using message_queued[OF st started(1,2) fresh[folded started(3)] amount] by blast
  have "mail_kept (committed w1) d2"
    by (rule mail_kept_trans[OF mail_kept_same settle_mail[OF st]]) (simp add: started_def)
  then have ok: "mail_ok (committed w2)" "queue_ok (committed w2)" "r \<in> set (queue (committed w2))"
    using w2 r(1) by (simp_all add: mail_kept_def)
  show thesis
    using receipt_delivered[OF w2(1,2) ok(1,2) gateways ok(3) r(2)] that unfolding r(3-6) w2(3) by blast
qed

lemma valid_checkout_amounts:
  assumes "valid_checkout d env command n a"
  shows "co_requestedAdvance command = of_int a" "0 \<le> a" "a < 10 ^ 12" "0 \<le> n" "n < 10 ^ 12"
proof -
  have v: "co_requestedAdvance command = of_int a" "0 \<le> a" "n < 10 ^ 12" "a \<le> n \<or> a \<le> n div 10"
    using assms unfolding valid_checkout_def by (auto split: if_splits)
  have "a \<le> n" using v(2,4) by (elim disjE) linarith+
  then show "co_requestedAdvance command = of_int a" "0 \<le> a" "a < 10 ^ 12" "0 \<le> n" "n < 10 ^ 12"
    using v(1-3) by simp_all
qed

text \<open>A valid checkout leaves an order of a known customer that awaits its payment, and mail in order.\<close>

lemma checkout_placed:
  assumes w: "inflight w = None" "tx_faults w = []" "order_ids_fresh (committed w)" "catalog_keys (committed w)"
      "prices_ok (committed w)" "mail_ok (committed w)" "queue_ok (committed w)"
    and checkout: "valid_checkout (committed w) env command n a"
      "find (\<lambda>u. u_id u = co_customerUserId command) (users (committed w)) = Some u"
    and i: "i = uuids (committed w) (uuid_n (committed w))"
  obtains x d1 p o1 where "createOrder checkout_wiring env command w = (Inr x, w\<lparr>committed := d1\<rparr>)" "cr_orderId x = i"
    "ids_fresh d1" "mail_ok d1" "queue_ok d1" "order_known d1 i o1" "o_total_bdt o1 = n" "o_advance_paid_at o1 = None"
    "find (\<lambda>u. u_id u = o_customer_user_id o1) (users d1) = Some u"
    "awaits (committed w) i (co_paymentMethod command \<noteq> Cod) (if co_paymentMethod command = Cod then n else a) p d1"
    "\<And>r. r \<in> set (outbox d1) \<Longrightarrow> r \<in> set (outbox (committed w)) \<or>
       (\<exists>c. n_dedupe_key r = ''order-created:'' @ i @ '':'' @ channel_name c)"
proof -
  note amounts = valid_checkout_amounts[OF checkout(1)]
  obtain x d1 where placed: "createOrder checkout_wiring env command w = (Inr x, w\<lparr>committed := d1\<rparr>)"
    "cr_totalBdt x = money_text n" "cr_orderId x = i" "ids_fresh d1"
    using checkout_proceeds[OF w(1-5) checkout(1)] i by auto
  show thesis
    by (rule checkout_leaves[OF w(1) placed(1,2) amounts(4,5,1-3)], rule that[OF placed(1,3,4)])
       (use placed(3) w(6,7) checkout in \<open>auto simp: mail_kept_def order_known_def valid_checkout_def\<close>)
qed

text \<open>
  C11. A purchase goes through from end to end. From sound tables, with the database answering and
  ids fresh: a valid checkout is placed; a genuine notice for its payment (the advance, or the
  total for cash on delivery), at any later time, is applied and confirms the order, starting
  the delivery clock from the notice's time when an advance was paid; and when the dispatcher
  has then worked off the queue, whose gateways accept, the customer's phone has got the
  rendered receipt, in the customer's language, with the order's reference and the amount.
\<close>

theorem purchase_completes:
  fixes w :: gateway_world
  assumes w: "inflight w = None" "tx_faults w = []" "order_ids_fresh (committed w)" "catalog_keys (committed w)"
      "platform_ok (committed w)" "mail_ok (committed w)" "queue_ok (committed w)"
    and checkout: "valid_checkout (committed w) env command n a"
      "find (\<lambda>u. u_id u = co_customerUserId command) (users (committed w)) = Some u"
    and notice: "sn_outcome notice = Outcome_Settled" "sn_orderId notice = uuids (committed w) (uuid_n (committed w))"
      "sn_amount notice = of_int (if co_paymentMethod command = Cod then n else a)"
      "sn_occurredAt notice = Some t" "0 \<le> t" "t + 864000000 \<le> MAX_TIME"
      "\<forall>q\<in>set (transactions (committed w)). \<not> carries_ref (sn_aggregator notice) (sn_aggregatorRef notice) q"
      "\<forall>r\<in>set (outbox (committed w)). n_dedupe_key r \<noteq>
         ''settle:'' @ sn_aggregator notice @ '':'' @ sn_aggregatorRef notice @ '':payment_received:sms''"
    and gateways: "dp_templates dp = TEMPLATES" "accepting dp"
  shows "\<exists>x w1 due w2 o1 m w3. createOrder checkout_wiring env command w = (Inr x, w1) \<and> cr_orderId x = sn_orderId notice \<and>
     applySettlement settlement_wiring notice (w1\<lparr>clock := later\<rparr>) = (Inr (Applied (sn_orderId notice) due), w2) \<and>
     find_order (sn_orderId notice) (committed w2) = Some o1 \<and> o_status o1 = Confirmed \<and> o_total_bdt o1 = n \<and>
     (co_paymentMethod command \<noteq> Cod \<longrightarrow> o_advance_paid_at o1 = Some t \<and>
        o_delivery_deadline_at o1 = Some (t + (if o_is_same_city o1 then 5 else 10) * 86400000)) \<and>
     renderTemplate TEMPLATES ''notification.payment.received'' (u_language_preference u)
       [(''orderRef'', take 8 (sn_orderId notice)),
        (''amount'', money_text (if co_paymentMethod command = Cod then n else a))] = Inr m \<and>
     w3 = dispatch_passes dp (length (queue (committed w2))) w2 \<and> queue (committed w3) = [] \<and>
     (u_phone_e164 u, tp_body m) \<in> set (sms_log w3)"
proof -
  let ?i = "sn_orderId notice" and ?due = "if co_paymentMethod command = Cod then n else a"
  have prices: "prices_ok (committed w)" using w(5) by (simp add: platform_ok_def)
  obtain x d1 p o1 where placed: "createOrder checkout_wiring env command w = (Inr x, w\<lparr>committed := d1\<rparr>)" "cr_orderId x = ?i"
    and d1: "ids_fresh d1" "mail_ok d1" "queue_ok d1"
    and o1: "order_known d1 ?i o1" "o_total_bdt o1 = n" "o_advance_paid_at o1 = None"
    and u1: "find (\<lambda>u. u_id u = o_customer_user_id o1) (users d1) = Some u"
    and p: "awaits (committed w) ?i (co_paymentMethod command \<noteq> Cod) ?due p d1"
    and keys: "\<And>r. r \<in> set (outbox d1) \<Longrightarrow> r \<in> set (outbox (committed w)) \<or>
       (\<exists>c. n_dedupe_key r = ''order-created:'' @ ?i @ '':'' @ channel_name c)"
    by (rule checkout_placed[OF w(1-4) prices w(6,7) checkout notice(2)]) blast
  let ?w1 = "w\<lparr>committed := d1, clock := later\<rparr>"
  have w1: "inflight ?w1 = None" "tx_faults ?w1 = []" "ids_fresh (committed ?w1)" "order_known (committed ?w1) ?i o1"
    "awaits (committed w) ?i (co_paymentMethod command \<noteq> Cod) ?due p (committed ?w1)"
    "mail_ok (committed ?w1)" "queue_ok (committed ?w1)"
    "find (\<lambda>u. u_id u = o_customer_user_id o1) (users (committed ?w1)) = Some u"
    using w(1,2) d1 o1(1) p u1 by simp_all
  have due: "0 \<le> ?due" "?due < 10 ^ 12" using valid_checkout_amounts[OF checkout(1)] by simp_all
  obtain res d2 where settled: "applySettlement settlement_wiring notice ?w1 = (Inr (Applied ?i res), ?w1\<lparr>committed := d2\<rparr>)"
    and st: "settle settlement_wiring notice p (started ?w1) = Inr (Applied ?i res, d2)"
    using awaited_settlement[OF w(5) w1(5,1-4) notice(1,3) due notice(4-7)] by blast
  have "find_order ?i (started ?w1) = Some o1" using o1(1) by (simp add: started_def find_order_def order_known_def)
  from paid_order[OF st this notice(4)] obtain o2 where o2: "find_order ?i d2 = Some o2" "o_status o2 = Confirmed" "o_total_bdt o2 = n"
    "o_is_same_city o2 = o_is_same_city o1"
    "co_paymentMethod command \<noteq> Cod \<longrightarrow> o_advance_paid_at o2 = Some t \<and>
       o_delivery_deadline_at o2 = Some (t + (if o_is_same_city o1 then 5 else 10) * 86400000)"
    using o1(2,3) p by (auto simp: awaits_def)
  let ?w2 = "?w1\<lparr>committed := d2\<rparr>"
  let ?w3 = "dispatch_passes dp (length (queue d2)) ?w2"
  have text_of: "poishaToTaka (sn_amount notice) = Inr (money_text ?due)" using money_column(1)[OF due] notice(3) by simp
  have fresh: "\<forall>r\<in>set (outbox (committed ?w1)). n_dedupe_key r \<noteq>
      ''settle:'' @ sn_aggregator notice @ '':'' @ sn_aggregatorRef notice @ '':payment_received:sms''"
    using keys notice(8) by force
  obtain m where "renderTemplate TEMPLATES ''notification.payment.received'' (u_language_preference u)
      [(''orderRef'', take 8 ?i), (''amount'', money_text ?due)] = Inr m"
    "queue (committed ?w3) = []" "(u_phone_e164 u, tp_body m) \<in> set (sms_log ?w3)"
    by (rule customer_told[OF st w1(4,8) text_of fresh _ _ _ w1(6,7) gateways, where ?w2.0 = ?w2]) (use w(1,2) in simp_all)
  then show ?thesis
    by (intro exI[of _ x] exI[of _ "w\<lparr>committed := d1\<rparr>"] exI[of _ res] exI[of _ ?w2] exI[of _ o2] exI[of _ m] exI[of _ ?w3])
       (use placed settled o2 in simp)
qed

definition sample_shop_world :: gateway_world where
  "sample_shop_world = \<lparr>committed = sample_db, inflight = None, tx_faults = [], clock = 20, gateway_calls = 0,
     sms_log = [], push_log = []\<rparr>"

definition sample_receipt :: settlement_notice where
  "sample_receipt = (sample_notice Outcome_Settled)\<lparr>sn_orderId := ''u''\<rparr>"

lemma sample_valid_checkout: "valid_checkout sample_db None (sample_order_command Bkash 4000) 44005 4000"
proof -
  have two: "\<exists>q. (2 :: rat) = of_int q \<and> 1 \<le> q \<and> q \<le> 9" "\<exists>q. (1 :: rat) = of_int q \<and> 1 \<le> q \<and> q \<le> 9"
    by (rule exI[of _ 2], simp) (rule exI[of _ 1], simp)
  have "\<forall>line\<in>set sample_lines. sellable sample_db ''shop'' line"
    using two by (force simp: sample_lines_def sellable_def sample_db_def sample_listing_def)
  moreover have "cart_total sample_db sample_lines = 44005"
    by (simp add: cart_total_def listed_def sample_lines_def sample_db_def sample_listing_def)
  moreover have "sample_lines \<noteq> []" by (simp add: sample_lines_def)
  ultimately show ?thesis
    by (simp add: valid_checkout_def) (simp add: sample_db_def sample_location_def language_ok_def)
qed

theorem purchase_completes_witness:
  "\<exists>(w2 :: gateway_world) o1 body. find_order ''u'' (committed w2) = Some o1 \<and> o_status o1 = Confirmed \<and>
     o_total_bdt o1 = 44005 \<and> o_advance_paid_at o1 = Some 5000 \<and> (''+8801712345678'', body) \<in> set (sms_log (dispatch_passes (notification_wiring (\<lambda>_. [])) (length (queue (committed w2))) w2))"
proof -
  let ?w = sample_shop_world and ?c = "sample_order_command Bkash 4000" and ?n = sample_receipt
  have w: "inflight ?w = None" "tx_faults ?w = []" "committed ?w = sample_db" by (simp_all add: sample_shop_world_def)
  have fresh: "order_ids_fresh (committed ?w)"
    unfolding w using sample_ids by (simp add: order_ids_fresh_def ids_fresh_def) (simp add: sample_db_def)
  have keys: "catalog_keys (committed ?w)" unfolding w by (simp add: catalog_keys_def sample_db_def sample_listing_def)
  have ok: "platform_ok (committed ?w)" "mail_ok (committed ?w)" "queue_ok (committed ?w)"
    unfolding w by (simp_all add: platform_ok_def prices_ok_def ledger_with_def outbox_ok_def mail_ok_def queue_ok_def
        sample_db_def sample_listing_def)
  have valid: "valid_checkout (committed ?w) None ?c 44005 4000" unfolding w by (rule sample_valid_checkout)
  have user: "find (\<lambda>u. u_id u = co_customerUserId ?c) (users (committed ?w)) = Some (hd (users sample_db))"
    unfolding w by (simp add: sample_db_def)
  note gateways = notification_wiring_accepts[of "\<lambda>_. []"]
  have empty: "\<forall>q\<in>set (transactions (committed ?w)). \<not> carries_ref (sn_aggregator ?n) (sn_aggregatorRef ?n) q"
    "\<forall>r\<in>set (outbox (committed ?w)). n_dedupe_key r \<noteq>
       ''settle:'' @ sn_aggregator ?n @ '':'' @ sn_aggregatorRef ?n @ '':payment_received:sms''"
    unfolding w by (simp_all add: sample_db_def)
  have notice: "sn_outcome ?n = Outcome_Settled" "sn_orderId ?n = uuids (committed ?w) (uuid_n (committed ?w))"
    "sn_amount ?n = of_int (if co_paymentMethod ?c = Cod then 44005 else 4000)" "sn_occurredAt ?n = Some 5000"
    "(0 :: int) \<le> 5000" "(5000 :: int) + 864000000 \<le> MAX_TIME"
    unfolding w by (simp_all add: sample_receipt_def sample_notice_def sample_db_def MAX_TIME_def)
  have plain: "u_phone_e164 (hd (users sample_db)) = ''+8801712345678''" "sn_orderId ?n = ''u''" "Bkash \<noteq> Cod"
    by (simp_all add: sample_db_def sample_receipt_def)
  show ?thesis
    using purchase_completes[OF w(1,2) fresh keys ok valid user notice empty gateways, of 30]
    unfolding plain sample_order_command_simps using plain(3) by blast
qed

end
