(* ===== verification/CheckoutErrors.thy ===== *)
theory CheckoutErrors
  imports Endpoints
begin

text \<open>
  How a checkout can fail: what the validators of the body and the checks of \<open>order.service.ts\<close>
  let through is well typed for the tables, so that the database can object to very little.
\<close>

section \<open>Errors to be expected\<close>

text \<open>
  The HTTP answers the service throws, an amount out of range, a lost connection, and of the
  database: a number out of range (22003), a missing row (23503), a repeated key (23505), and, if
  a quantity is so vast that its text has an exponent (\<open>v\<close>), a malformed number (22P02). Not among
  them: a malformed number otherwise, an unknown label (22P02), an invalid date (22007), a
  violated \<open>CHECK\<close> (23514), and every error of the language.
\<close>

definition expected :: "bool \<Rightarrow> err \<Rightarrow> bool" where
  "expected v e \<longleftrightarrow> (case e of
     BadRequestException _ \<Rightarrow> True | ForbiddenException _ \<Rightarrow> True | NotFoundException _ \<Rightarrow> True
   | MoneyError \<Rightarrow> True | ConnectionError \<Rightarrow> True
   | DbError code \<Rightarrow> code = ''22003'' \<or> code = ''23503'' \<or> code = ''23505'' \<or> v \<and> code = ''22P02''
   | _ \<Rightarrow> False)"

lemma expected_simps [simp]:
  "expected v (BadRequestException m)" "expected v (ForbiddenException m)" "expected v (NotFoundException m)"
  "expected v MoneyError" "expected v ConnectionError" "expected v (DbError ''22003'')" "expected v (DbError ''23503'')"
  "expected v (DbError ''23505'')"
  "expected v (DbError ''22P02'') \<longleftrightarrow> v"
  by (simp_all add: expected_def)

text \<open>From a state, a computation fails only as expected.\<close>

definition sound_value :: "bool \<Rightarrow> err + 'a \<Rightarrow> bool" where
  "sound_value v r \<longleftrightarrow> (\<forall>e. r = Inl e \<longrightarrow> expected v e)"

definition sound_sql :: "bool \<Rightarrow> 'a sql \<Rightarrow> db \<Rightarrow> bool" where
  "sound_sql v m d \<longleftrightarrow> (\<forall>e. m d = Inl e \<longrightarrow> expected v e)"

definition sound_act :: "bool \<Rightarrow> ('w, 'a) act \<Rightarrow> 'w \<Rightarrow> bool" where
  "sound_act v m w \<longleftrightarrow> (\<forall>e w'. m w = (Inl e, w') \<longrightarrow> expected v e)"

lemma sound_value_simps [simp]: "sound_value v (Inr a)" "sound_value v (Inl e) \<longleftrightarrow> expected v e"
  by (simp_all add: sound_value_def)

lemma sound_value_bind:
  "sound_value v r \<Longrightarrow> (\<And>a. r = Inr a \<Longrightarrow> sound_value v (k a)) \<Longrightarrow> sound_value v (sum_bind r k)"
  by (cases r) simp_all

lemma sound_bind:
  assumes "sound_sql v m d" "\<And>a d1. m d = Inr (a, d1) \<Longrightarrow> sound_sql v (k a) d1"
  shows "sound_sql v (stmt_bind m k) d"
  using assms by (cases "m d") (auto simp: sound_sql_def stmt_bind_def)

lemma sound_lift [simp]: "sound_sql v (stmt_lift r) d \<longleftrightarrow> sound_value v r"
  by (cases r) (auto simp: sound_sql_def stmt_lift_def)

lemma sound_return [simp]: "sound_sql v (stmt_return a) d"
  by (simp add: sound_sql_def)

lemma sound_prims [simp]:
  "sound_sql v gen_random_uuid d" "sound_sql v (\<lambda>d. unique (P d) d) d" "sound_sql v (\<lambda>d. foreign_key (P d) d) d"
  "sound_sql v (write_db g) d" "sound_sql v (read_db f) d" "sound_sql v (check b) d \<longleftrightarrow> b"
  "sound_sql v (unique b) d" "sound_sql v (foreign_key b) d"
  by (auto simp: sound_sql_def expected_def)

lemma sound_guards [simp]:
  "sound_sql v (\<lambda>d. if P d then Inr ((), d) else Inl (DbError ''23505'')) d"
  "sound_sql v (\<lambda>d. if P d then Inr ((), d) else Inl (DbError ''23503'')) d"
  by (simp_all add: sound_sql_def)

lemma sound_act_bind:
  assumes "sound_act v m w" "\<And>a w1. m w = (Inr a, w1) \<Longrightarrow> sound_act v (k a) w1"
  shows "sound_act v (act_bind m k) w"
  using assms unfolding sound_act_def by (auto simp: act_bind_Inl_iff)

lemma sound_act_lift [simp]: "sound_act v (act_lift r) w \<longleftrightarrow> sound_value v r"
  by (auto simp: sound_act_def sound_value_def)

lemma sound_act_simps [simp]: "sound_act v (act_return a) w" "sound_act v (act_throw e) w \<longleftrightarrow> expected v e"
  by (auto simp: sound_act_def)

lemma sound_pool: "sound_sql v m (started w) \<Longrightarrow> sound_act v (on_pool m) w"
  by (auto simp: sound_act_def sound_sql_def on_pool_Inl_iff)

lemma sound_transact:
  assumes "inflight w = None" "sound_sql v m (started w)"
  shows "sound_act v (transact m) w"
  using assms
  by (auto simp: sound_act_def sound_sql_def transact_idle Let_def split: tx_fault.splits sum.splits if_splits)

section \<open>Amounts\<close>

lemma sound_money:
  "sound_value v (takaToPoisha t)" "sound_value v (poishaToTaka p)" "sound_value v (percentageOf p q)" "sound_value v (sum_poisha ps)"
proof -
  show "sound_value v (takaToPoisha t)" by (auto simp: sound_value_def takaToPoisha_def Let_def split: if_splits prod.splits)
  show "sound_value v (poishaToTaka p)" by (auto simp: sound_value_def poishaToTaka_def Let_def split: if_splits)
  show "sound_value v (percentageOf p q)" by (auto simp: sound_value_def percentageOf_def split: if_splits)
  have "sound_value v (sum_from acc ps)" for acc by (induction ps arbitrary: acc) (auto simp: sound_value_def)
  then show "sound_value v (sum_poisha ps)" by (simp add: sum_poisha_def)
qed

lemma sound_map_throwing: "(\<And>x. x \<in> set xs \<Longrightarrow> sound_value v (f x)) \<Longrightarrow> sound_value v (map_throwing f xs)"
  by (induction xs) (auto intro!: sound_value_bind)

section \<open>The reads and the checks\<close>

lemma sound_resolve: "sound_sql v (resolveCartLines ls) d"
  unfolding resolveCartLines_def
  by (intro sound_bind)
     (auto simp: findByIds_def resolve_line_def intro!: sound_map_throwing sound_value_bind sound_money split: option.splits)

lemma sound_lookups: "sound_sql v (findMerchant i) d" "sound_sql v (findById j) d"
  by (auto simp: sound_sql_def findMerchant_eq findById_eq split: option.splits)

lemma sound_orderable: "sound_value v (assertCartIsOrderable ls i)"
  by (induction ls) (auto simp: check_line_def intro!: sound_value_bind split: option.splits)

lemma sound_pricing:
  assumes "resolved \<noteq> []" "isInteger (co_requestedAdvance command)" "0 \<le> co_requestedAdvance command"
  shows "sound_value v (priceCart env command resolved)"
proof -
  have "sound_value v (computeAdvanceCap (map cart_line_of resolved) n b)" for n b
    using assms(1) by (auto simp: computeAdvanceCap_def Let_def intro!: sound_value_bind sound_money)
  moreover have "sound_value v (advance_check (co_requestedAdvance command) cap)" for cap
    using assms(2,3) by (auto simp: advance_check_def assertAdvanceWithinCap_def)
  ultimately show ?thesis
    unfolding priceCart_def Let_def cartSubtotal_def
    by (intro sound_value_bind sound_money) auto
qed

lemma sound_record: "sound_value v (orderRecord command resolved sc pc)"
  unfolding orderRecord_def item_record_def
  by (intro sound_value_bind sound_money sound_map_throwing) simp_all

section \<open>The writes\<close>

text \<open>The lines of a cart whose quantities are whole and not vast, resolved from prices in range.\<close>

definition whole_cart :: "bool \<Rightarrow> resolved_cart_line list \<Rightarrow> bool" where
  "whole_cart v resolved \<longleftrightarrow> (\<forall>l\<in>set resolved. isInteger (rs_unitPrice l) \<and> 0 \<le> rs_unitPrice l \<and>
     isInteger (rs_quantity l) \<and> 1 \<le> rs_quantity l \<and> (v \<or> rs_quantity l < 10 ^ 21))"

lemma taka_column: "poishaToTaka p = Inr t \<Longrightarrow> \<exists>n. p = of_int n \<and> \<bar>n\<bar> \<le> 999999999999 \<and> numeric_in t = Inr n"
  by (auto simp: poishaToTaka_Inr_iff numeric_in_money_text)

lemma amounts_typed:
  assumes pc: "priceCart env command resolved = Inr pc" and rec: "orderRecord command resolved sc pc = Inr r"
    and cart: "whole_cart v resolved" and fee: "0 \<le> co_deliveryFee command"
  obtains subtotal fee total_bdt advance cap where
    "numeric_in (nr_subtotalBdt r) = Inr subtotal" "numeric_in (nr_deliveryFeeBdt r) = Inr fee"
    "numeric_in (nr_totalBdt r) = Inr total_bdt" "numeric_in (nr_advanceAmountBdt r) = Inr advance"
    "numeric_in (nr_advanceCapBdt r) = Inr cap" "0 \<le> subtotal" "0 \<le> total_bdt" "0 \<le> advance" "advance \<le> cap"
    "pc_total pc = of_int total_bdt"
proof -
  note p = priceCart_Inr[OF pc] and o1 = orderRecord_Inr[OF rec]
  obtain s where s: "pc_subtotal pc = of_int s" "\<bar>s\<bar> \<le> 999999999999" "numeric_in (nr_subtotalBdt r) = Inr s"
    using taka_column[OF o1(1)] by blast
  obtain f where f: "co_deliveryFee command = of_int f" "\<bar>f\<bar> \<le> 999999999999" "numeric_in (nr_deliveryFeeBdt r) = Inr f"
    using taka_column[OF o1(2)] by blast
  obtain t where t: "pc_total pc = of_int t" "\<bar>t\<bar> \<le> 999999999999" "numeric_in (nr_totalBdt r) = Inr t"
    using taka_column[OF o1(3)] by blast
  obtain a where a: "co_requestedAdvance command = of_int a" "numeric_in (nr_advanceAmountBdt r) = Inr a"
    using taka_column[OF o1(4)] by blast
  obtain c where c: "cap_amount (pc_cap pc) = of_int c" "numeric_in (nr_advanceCapBdt r) = Inr c"
    using taka_column[OF o1(5)] by blast
  have whole: "\<forall>l\<in>set (map cart_line_of resolved). whole_line l"
    using cart by (auto simp: whole_cart_def cart_line_of_def whole_line_def)
  have "(of_int s :: rat) < of_int (2 ^ 53)" using s(2) by (simp only: of_int_less_iff) simp
  then have "pc_subtotal pc = of_int (subtotal_of (map cart_line_of resolved))"
    using s(1) p(1) whole by (intro cartSubtotal_small) simp_all
  then have "s = subtotal_of (map cart_line_of resolved)" using s(1) by simp
  then have s0: "0 \<le> s" unfolding subtotal_of_def using whole whole_line_product(2) by (auto intro!: sum_list_nonneg)
  have f0: "0 \<le> f" using fee f(1) by simp
  have "t = s + f" using p(2) sum_two_exact[OF s(2) f(2)] s(1) f(1) t(1) by simp
  then have t0: "0 \<le> t" using s0 f0 by simp
  have "(0 :: rat) \<le> of_int a" "(of_int a :: rat) \<le> of_int c" using p(5,6) a(1) c(1) by simp_all
  then have "0 \<le> a" "a \<le> c" by simp_all
  then show thesis using that[OF s(3) f(3) t(3) a(2) c(2) s0 t0] t(1) by simp
qed

lemma sound_insertOrder:
  assumes "numeric_in (nr_subtotalBdt r) = Inr subtotal" "numeric_in (nr_deliveryFeeBdt r) = Inr fee"
    "numeric_in (nr_totalBdt r) = Inr total_bdt" "numeric_in (nr_advanceAmountBdt r) = Inr advance"
    "numeric_in (nr_advanceCapBdt r) = Inr cap" "0 \<le> subtotal" "0 \<le> total_bdt" "0 \<le> advance" "advance \<le> cap"
  shows "sound_sql v (insertOrder r) d"
  unfolding insertOrder_def by (intro sound_bind) (use assms in \<open>simp_all add: stmt_lift_Inr_iff\<close>)

lemma sound_int4: "isInteger q \<Longrightarrow> v \<or> \<bar>q\<bar> < 10 ^ 21 \<Longrightarrow> sound_value v (int4_in q)"
  by (auto simp: int4_in_def)

lemma sound_insertItem:
  assumes "isInteger (no_quantity item)" "1 \<le> no_quantity item" "v \<or> no_quantity item < 10 ^ 21"
    "numeric_in (no_unitPriceBdt item) = Inr price"
  shows "sound_sql v (insertItem i item) d"
proof -
  have "0 < q" if "int4_in (no_quantity item) = Inr q" for q
  proof -
    have "(0 :: rat) < of_int q" using int4_in_Inr[OF that] assms(2) by simp
    then show ?thesis by simp
  qed
  then show ?thesis
    unfolding insertItem_def
    by (intro sound_bind) (use assms sound_int4 in \<open>simp_all add: stmt_lift_Inr_iff\<close>)
qed

lemma sound_for: "(\<And>x d. x \<in> set xs \<Longrightarrow> sound_sql v (f x) d) \<Longrightarrow> sound_sql v (stmt_for xs f) d"
  by (induction xs arbitrary: d) (auto intro!: sound_bind)

lemma sound_insertItems:
  assumes "list_all2 (\<lambda>line item. item_record line = Inr item) resolved items" "whole_cart v resolved"
  shows "sound_sql v (insertItems i items) d"
  unfolding insertItems_def
proof (rule sound_for)
  fix item d assume "item \<in> set items"
  then obtain line where l: "line \<in> set resolved" "item_record line = Inr item"
    using list_all2_in2[OF assms(1)] by blast
  then obtain t where t: "poishaToTaka (rs_unitPrice line) = Inr t" "no_quantity item = rs_quantity line" "no_unitPriceBdt item = t"
    by (auto simp: item_record_Inr)
  obtain n where "numeric_in t = Inr n" using taka_column[OF t(1)] by blast
  then show "sound_sql v (insertItem i item) d"
    using assms(2) l(1) t(2,3) by (intro sound_insertItem) (auto simp: whole_cart_def)
qed

lemma sound_recordStatusEvent: "sound_sql v (recordStatusEvent ev) d"
  unfolding recordStatusEvent_def by (intro sound_bind) simp_all

lemma sound_insertPending: "numeric_in (pt_amountBdt p) = Inr n \<Longrightarrow> 0 \<le> n \<Longrightarrow> sound_sql v (insertPendingTransaction p) d"
  unfolding insertPendingTransaction_def by (intro sound_bind) (simp_all add: stmt_lift_Inr_iff)

lemma sound_enqueue:
  assumes "find (\<lambda>u. u_id u = rq_userId rq) (users d) = Some u" "language_ok (u_language_preference u)"
    "rq_event rq = ''order_confirmed''"
  shows "sound_sql v (enqueue rq) d"
proof -
  have "sound_sql v (enqueue_entry (entry_for rq u key c)) d" for key c d
    using assms(2) unfolding enqueue_entry_def sound_sql_def
    by (auto simp: entry_for_def stmt_bind_def split: if_splits)
  then have entries: "sound_sql v (stmt_for cs (\<lambda>c. enqueue_entry (entry_for rq u key c))) d1" for cs key d1
    by (rule sound_for)
  have "sound_value v (templateKeyFor ''order_confirmed'')" "sound_value v (channelsFor ''order_confirmed'')"
    by (simp_all add: templateKeyFor_def channelsFor_def POLICIES_def)
  then show ?thesis
    unfolding enqueue_def
    by (intro sound_bind) (use assms(1,3) entries in \<open>auto simp: first_row_filter intro!: sound_bind\<close>)
qed

lemma sound_writeOrder:
  assumes pc: "priceCart env command resolved = Inr pc" and rec: "orderRecord command resolved sc pc = Inr r"
    and cart: "whole_cart v resolved" and fee: "0 \<le> co_deliveryFee command"
    and speak: "\<forall>u\<in>set (users d). language_ok (u_language_preference u)"
  shows "sound_sql v (writeOrder checkout_wiring command (pc_total pc) r) d"
proof -
  obtain subtotal fee total_bdt advance cap where n: "numeric_in (nr_subtotalBdt r) = Inr subtotal"
    "numeric_in (nr_deliveryFeeBdt r) = Inr fee" "numeric_in (nr_totalBdt r) = Inr total_bdt"
    "numeric_in (nr_advanceAmountBdt r) = Inr advance" "numeric_in (nr_advanceCapBdt r) = Inr cap"
    "0 \<le> subtotal" "0 \<le> total_bdt" "0 \<le> advance" "advance \<le> cap" and total_eq: "pc_total pc = of_int total_bdt"
    by (rule amounts_typed[OF pc rec cart fee])
  let ?due = "if co_paymentMethod command = Cod then pc_total pc else co_requestedAdvance command"
  have due: "0 \<le> ?due" using total_eq n(7) priceCart_Inr(5)[OF pc] by simp
  have pend: "sound_sql v (insertPendingTransaction
      \<lparr>pt_orderId = i, pt_method = co_paymentMethod command, pt_amountBdt = amount,
        pt_isAdvance = (co_paymentMethod command \<noteq> Cod)\<rparr>) d4" if amount: "poishaToTaka ?due = Inr amount" for i amount d4
  proof -
    obtain k where k: "?due = of_int k" "numeric_in amount = Inr k" using taka_column[OF amount] by blast
    have "(0 :: rat) \<le> of_int k" using due k(1) by simp
    then show ?thesis using k(2) by (intro sound_insertPending) simp_all
  qed
  have mail: "sound_sql v (enqueue \<lparr>rq_userId = co_customerUserId command, rq_event = ''order_confirmed'', rq_params = ps,
      rq_orderId = oid, rq_dedupeKey = key\<rparr>) d5"
    if "insertOrder r d = Inr (i, d1)" "users d5 = users d1" for i d1 d5 ps oid key
  proof (rule insertOrder_Inr[OF that(1)], goal_cases)
    case 1
    have same: "users d5 = users d" using 1(15) that(2) by simp
    then obtain u where u: "find (\<lambda>u. u_id u = co_customerUserId command) (users d5) = Some u"
      using 1(12) orderRecord_Inr(7)[OF rec]
      by (cases "find (\<lambda>u. u_id u = co_customerUserId command) (users d5)") (auto simp: find_None_all)
    have "language_ok (u_language_preference u)" using speak same find_Some_in[OF u] by auto
    then show ?case using u by (intro sound_enqueue) simp_all
  qed
  show ?thesis
    unfolding writeOrder_def checkout_wiring_simps
  proof (intro sound_bind, goal_cases)
    case 1
    show ?case by (rule sound_insertOrder[OF n])
  next
    case (2 i d1)
    show ?case by (rule sound_insertItems[OF orderRecord_Inr(6)[OF rec] cart])
  next
    case (6 i d1 x d2 y d3 amount d4 z d5)
    have "users d5 = users d1"
      using insertItems_Inr[OF 6(2)] recordStatusEvent_Inr[OF 6(3)] 6(4)
      by (rule_tac insertPendingTransaction_Inr[OF 6(5)]) (auto simp: stmt_lift_Inr_iff)
    then show ?case using mail[OF 6(1)] by simp
  qed (simp_all add: sound_recordStatusEvent sound_money pend stmt_lift_Inr_iff)
qed

section \<open>The checkout\<close>

lemma resolved_whole:
  assumes "prices_ok d" "resolveCartLines ls d = Inr (rs, d')" "\<forall>line\<in>set rs. orderable m line"
    and "\<forall>l\<in>set ls. isInteger (rl_quantity l) \<and> (v \<or> rl_quantity l < 10 ^ 21)"
  shows "whole_cart v rs"
  unfolding whole_cart_def
proof
  fix r assume r: "r \<in> set rs"
  obtain l where l: "resolved_from d r l" using catalog.faithful[OF assms(2) r] by blast
  have price: "rs_unitPrice r = of_int (l_price_bdt l)" by (rule resolved_price[OF assms(1) l])
  have "0 \<le> l_price_bdt l" using assms(1) l by (simp add: prices_ok_def resolved_from_def)
  moreover obtain line where "line \<in> set ls" "same_line line r" using list_all2_in2[OF catalog.aligned[OF assms(2)] r] by blast
  moreover have "orderable m r" using assms(3) r by blast
  ultimately show "isInteger (rs_unitPrice r) \<and> 0 \<le> rs_unitPrice r \<and> isInteger (rs_quantity r) \<and> 1 \<le> rs_quantity r \<and>
      (v \<or> rs_quantity r < 10 ^ 21)"
    using price assms(4) by (simp add: same_line_def orderable_def)
qed

lemma sound_prepare:
  assumes "isInteger (co_requestedAdvance command)" "0 \<le> co_requestedAdvance command"
  shows "sound_act v (prepareOrder checkout_wiring env command) w"
proof (cases "co_lines command = []")
  case True
  then show ?thesis by (simp add: prepareOrder_def)
next
  case False
  have rest: "sound_act v (priceOrder checkout_wiring env command resolved pk) w2" if "resolved \<noteq> []" for resolved pk w2
    unfolding priceOrder_def checkout_wiring_simps
    by (intro sound_act_bind sound_pool sound_lookups) (use sound_pricing[OF that assms] sound_record in simp_all)
  have "resolved \<noteq> []" if "on_pool (resolveCartLines (co_lines command)) w = (Inr resolved, w1)" for resolved w1
    using that False catalog.same_length by (fastforce simp: on_pool_Inr_iff)
  then show ?thesis
    using False rest unfolding prepareOrder_def checkout_wiring_simps
    by (auto intro!: sound_act_bind sound_pool sound_resolve sound_lookups simp: sound_orderable)
qed

section \<open>Properties\<close>

text \<open>
  C22. What a checkout writes is well typed: when the body passes its validators, prices are in the
  range of their column and users have a supported language, a checkout fails with an HTTP
  answer of the service, with an amount out of range, with a lost connection, or because the
  database finds a number out of range, a missing row or a repeated id; or it finds a malformed
  number, which happens only if the body asks for a quantity of \<open>10 ^ 21\<close> or more, whose text has
  an exponent (\<open>vast_quantity_malformed\<close> is such a checkout). No other value it writes is
  malformed, no \<open>CHECK\<close> of the schema is violated, and no other error of the code can occur.
\<close>

theorem checkout_well_typed:
  assumes "inflight w = None" "prices_ok (committed w)"
    and "\<forall>u\<in>set (users (committed w)). u_language_preference u = ''bn'' \<or> u_language_preference u = ''en''"
    and "create_order_dto_valid F dto"
    and "createOrder checkout_wiring env (order_command caller dto) w = (Inl e, w')"
  shows "(\<exists>m. e = BadRequestException m \<or> e = ForbiddenException m \<or> e = NotFoundException m) \<or> e = MoneyError \<or>
     e = ConnectionError \<or> (\<exists>code\<in>{''22003'', ''23503'', ''23505''}. e = DbError code) \<or>
     e = DbError ''22P02'' \<and> (\<exists>line\<in>set (od_lines dto). 10 ^ 21 \<le> od_quantity line)"
proof -
  let ?c = "order_command caller dto" and ?v = "\<exists>line\<in>set (od_lines dto). 10 ^ 21 \<le> od_quantity line"
  have valid: "isInteger (co_requestedAdvance ?c)" "0 \<le> co_requestedAdvance ?c"
    "\<forall>l\<in>set (co_lines ?c). isInteger (rl_quantity l) \<and> (?v \<or> rl_quantity l < 10 ^ 21)"
    "0 \<le> co_deliveryFee ?c"
    using assms(4)
    by (auto simp: order_command_def create_order_dto_valid_def whole_from_def list_all_iff create_order_line_dto_valid_def
        not_le)
  have speak: "\<forall>u\<in>set (users (started w)). language_ok (u_language_preference u)"
    using assms(3) by (simp add: language_ok_def started_def)
  have "sound_act ?v (createOrder checkout_wiring env ?c) w"
    unfolding createOrder_def
  proof (intro sound_act_bind, goal_cases)
    case 1
    show ?case by (rule sound_prepare[OF valid(1,2)])
  next
    case (2 p w1)
    show ?case
      using 2
    proof (rule wired.prepare_Inr, goal_cases)
      case (1 resolved m pk pickup delivery)
      have cart: "whole_cart ?v resolved"
        using resolved_whole[where v = ?v, OF _ 1(3)[unfolded checkout_wiring_simps] 1(4) valid(3)] assms(2) by simp
      show ?case
        unfolding 1(1)
        by (rule sound_transact) (use assms(1) sound_writeOrder[OF 1(12,13) cart valid(4) speak] in simp_all)
    qed
  qed (auto simp: orderResult_def intro!: sound_value_bind sound_money)
  then have "expected ?v e" using assms(5) by (auto simp: sound_act_def)
  then show ?thesis by (cases e) (auto simp: expected_def)
qed

theorem checkout_well_typed_witness:
  "\<exists>w'. createOrder checkout_wiring None
       (order_command \<lparr>ca_userId = ''buyer'', ca_activeRoleId = None\<rparr> (sample_order_dto\<lparr>od_requestedAdvancePoisha := 5000\<rparr>)) sample_world =
       (Inl (BadRequestException ''error.checkout.advance_exceeds_cap''), w')"
proof -
  let ?dto = "sample_order_dto\<lparr>od_requestedAdvancePoisha := 5000\<rparr>"
  let ?c = "order_command \<lparr>ca_userId = ''buyer'', ca_activeRoleId = None\<rparr> ?dto"
  have c: "?c = sample_order_command Bkash 5000"
    by (simp add: order_command_def sample_order_dto_def sample_order_command_def sample_lines_def)
  have valid: "create_order_dto_valid sample_formats ?dto"
    using sample_order_valid by (simp add: create_order_dto_valid_def whole_from_def)
  have ok: "prices_ok (committed sample_world)" "\<forall>u\<in>set (users (committed sample_world)).
      u_language_preference u = ''bn'' \<or> u_language_preference u = ''en''"
    by (simp_all add: prices_ok_def sample_db_def sample_listing_def)
  have "createOrder checkout_wiring None ?c sample_world =
      (Inl (BadRequestException ''error.checkout.advance_exceeds_cap''), sample_world)"
    unfolding c using sample_reads[of None Bkash 5000] sample_pricing[of Bkash 5000 None] by (auto simp: createOrder_def)
  then show ?thesis
    using checkout_well_typed[OF _ ok valid, of None "\<lparr>ca_userId = ''buyer'', ca_activeRoleId = None\<rparr>"] by auto
qed

text \<open>
  The validators do not bound the quantity, and a listing without a stock count does not either:
  a vast number of pieces passes every check of the service and fails in the database.
\<close>

definition bulk_world :: "int \<Rightarrow> world" where
  "bulk_world price = sample_world\<lparr>committed := sample_db\<lparr>listings := [(sample_listing ''rice'' price True)\<lparr>l_stock_qty := None\<rparr>]\<rparr>\<rparr>"

definition bulk_dto :: "int \<Rightarrow> create_order_dto" where
  "bulk_dto quantity = \<lparr>od_merchantRoleId = ''shop'', od_deliveryLocationId = ''away'', od_paymentMethod = Cod,
     od_lines = [\<lparr>od_listingId = ''rice'', od_quantity = of_int quantity\<rparr>], od_requestedAdvancePoisha = 0\<rparr>"

abbreviation bulk_command :: "int \<Rightarrow> create_order_command" where
  "bulk_command quantity \<equiv> order_command \<lparr>ca_userId = ''buyer'', ca_activeRoleId = None\<rparr> (bulk_dto quantity)"

lemma bulk_valid: "1 \<le> q \<Longrightarrow> create_order_dto_valid sample_formats (bulk_dto q)"
  by (simp add: create_order_dto_valid_def bulk_dto_def sample_formats_def length_between_def
      create_order_line_dto_valid_def whole_from_def)

lemma bulk_reads:
  assumes "0 \<le> n" "n < 10 ^ 12"
  shows "on_pool (resolveCartLines (co_lines (bulk_command q))) (bulk_world n) =
      (Inr [\<lparr>rs_listingId = ''rice'', rs_quantity = of_int q, rs_unitPrice = of_int n, rs_readyToShip = True,
        rs_merchantRoleId = ''shop'', rs_categoryRestricted = False, rs_categoryRequiresDgdaLicence = False,
        rs_stockQty = None, rs_isActive = True\<rparr>], bulk_world n)"
    and "on_pool (findMerchant ''shop'') (bulk_world n) =
      (Inr \<lparr>ms_roleId = ''shop'', ms_kycVerified = True, ms_isActive = True, ms_pickupLocationId = Some ''pickup''\<rparr>, bulk_world n)"
    and "on_pool (findById ''pickup'') (bulk_world n) = (Inr (resolved_of (sample_location ''pickup'' ''Dhaka'' ''Dhaka'')), bulk_world n)"
    and "on_pool (findById ''away'') (bulk_world n) = (Inr (resolved_of (sample_location ''away'' ''Khulna'' ''Jashore'')), bulk_world n)"
proof -
  have w: "started (bulk_world n) = committed (bulk_world n)" "at_now (bulk_world n) = bulk_world n"
    by (simp_all add: bulk_world_def started_def at_now_def sample_db_def)
  have price: "takaToPoisha (numeric_out n) = Inr (of_int n)" using takaToPoisha_money_text[of n] assms by (simp add: numeric_out_def)
  have lines: "co_lines (bulk_command q) = [\<lparr>rl_listingId = ''rice'', rl_quantity = of_int q\<rparr>]"
    by (simp add: order_command_def bulk_dto_def)
  show "on_pool (resolveCartLines (co_lines (bulk_command q))) (bulk_world n) =
      (Inr [\<lparr>rs_listingId = ''rice'', rs_quantity = of_int q, rs_unitPrice = of_int n, rs_readyToShip = True,
        rs_merchantRoleId = ''shop'', rs_categoryRestricted = False, rs_categoryRequiresDgdaLicence = False,
        rs_stockQty = None, rs_isActive = True\<rparr>], bulk_world n)"
    unfolding lines pool_reads(4) w using price
    by (simp add: resolveCartLines_def findByIds_def resolve_line_def joined_def stmt_bind_def bulk_world_def
        sample_db_def sample_listing_def)
  show "on_pool (findMerchant ''shop'') (bulk_world n) =
      (Inr \<lparr>ms_roleId = ''shop'', ms_kycVerified = True, ms_isActive = True, ms_pickupLocationId = Some ''pickup''\<rparr>, bulk_world n)"
    unfolding pool_reads(1) w by (simp add: findMerchant_eq bulk_world_def) (simp add: sample_db_def summary_of_def)
  show "on_pool (findById ''pickup'') (bulk_world n) = (Inr (resolved_of (sample_location ''pickup'' ''Dhaka'' ''Dhaka'')), bulk_world n)"
    "on_pool (findById ''away'') (bulk_world n) = (Inr (resolved_of (sample_location ''away'' ''Khulna'' ''Jashore'')), bulk_world n)"
    unfolding pool_reads(3) w
    by (simp_all add: findById_eq bulk_world_def) (simp_all add: sample_db_def sample_location_def)
qed

text \<open>The error of the quantity's column is the answer, when the price keeps the total in range.\<close>

lemma bulk_refused:
  assumes n: "0 \<le> n" "n < 10 ^ 12" "n * q \<le> 999999999999" and q: "1 \<le> q" "int4_in (of_int q) = Inl e"
  shows "fst (createOrder checkout_wiring None (bulk_command q) (bulk_world n)) = Inl e"
proof -
  let ?c = "bulk_command q" and ?w = "bulk_world n"
  let ?rs = "[\<lparr>rs_listingId = ''rice'', rs_quantity = of_int q, rs_unitPrice = of_int n, rs_readyToShip = True,
      rs_merchantRoleId = ''shop'', rs_categoryRestricted = False, rs_categoryRequiresDgdaLicence = False,
      rs_stockQty = None, rs_isActive = True\<rparr>]"
  have c: "co_merchantRoleId ?c = ''shop''" "co_lines ?c \<noteq> []" "co_deliveryLocationId ?c = ''away''"
    "co_requestedAdvance ?c = 0" "co_deliveryFee ?c = 0" "co_paymentMethod ?c = Cod" "co_customerUserId ?c = ''buyer''"
    by (simp_all add: order_command_def bulk_dto_def)
  have w: "started ?w = committed ?w" "at_now ?w = ?w" "inflight ?w = None" "tx_faults ?w = []"
    by (simp_all add: bulk_world_def started_def at_now_def sample_db_def)
  note reads = bulk_reads(1)[OF n(1,2), of q] bulk_reads(2-4)[OF n(1,2)]
  have ok: "assertCartIsOrderable ?rs ''shop'' = Inr ()" using q(1) by (simp only: assertCartIsOrderable_iff) (simp add: orderable_def)
  have nq: "0 \<le> n * q" using n(1) q(1) by simp
  have sums: "cartSubtotal (map cart_line_of ?rs) = Inr (of_int (n * q))" "sum_poisha [of_int (n * q), 0] = Inr (of_int (n * q))"
    using cartSubtotal_exact[of "map cart_line_of ?rs"] sum_two_exact[of "n * q" 0] n nq q(1)
    by (simp_all add: cart_line_of_def whole_line_def subtotal_of_def)
  have texts: "poishaToTaka (of_int (n * q)) = Inr (money_text (n * q))" "poishaToTaka (of_int n) = Inr (money_text n)"
    "poishaToTaka 0 = Inr (money_text 0)" "numeric_in (money_text (n * q)) = Inr (n * q)"
    "numeric_in (money_text 0) = Inr 0" "numeric_in (money_text n) = Inr n"
    using poishaToTaka_of_int[of "n * q"] poishaToTaka_of_int[of n] poishaToTaka_of_int[of 0] n nq
    by (simp_all add: numeric_in_money_text)
  obtain p where p: "prepareOrder checkout_wiring None ?c ?w = (Inr p, ?w)"
    "pp_record p = \<lparr>nr_customerUserId = ''buyer'', nr_merchantRoleId = ''shop'', nr_deliveryLocationId = ''away'',
       nr_paymentMethod = Cod, nr_subtotalBdt = money_text (n * q), nr_deliveryFeeBdt = money_text 0,
       nr_totalBdt = money_text (n * q), nr_advanceAmountBdt = money_text 0,
       nr_advanceCapBdt = money_text (n * q), nr_isEscrow = False, nr_allItemsReadyToShip = True,
       nr_isSameCity = pp_sameCity p,
       nr_items = [\<lparr>no_listingId = ''rice'', no_quantity = of_int q, no_unitPriceBdt = money_text n, no_readyToShipAtOrder = True\<rparr>]\<rparr>"
    using reads ok sums texts nq
    by (simp add: prepareOrder_def priceOrder_def priceCart_def orderRecord_def item_record_def advance_check_def
        assertAdvanceWithinCap_def computeAdvanceCap_def cart_line_of_def c del: of_int_mult)
  have "writeOrder checkout_wiring ?c (pc_total (pp_priced p)) (pp_record p) (committed ?w) = Inl e"
    unfolding p(2) using texts q(2) nq
    by (simp add: writeOrder_def insertOrder_def insertItems_def insertItem_def stmt_bind_def bulk_world_def del: of_int_mult)
       (simp add: sample_db_def sample_location_def)
  then show ?thesis using p(1) w by (simp add: createOrder_def transact_no_fault)
qed

theorem huge_quantity_fails_late:
  "create_order_dto_valid sample_formats (bulk_dto 3000000000) \<and>
   fst (createOrder checkout_wiring None (bulk_command 3000000000) (bulk_world 100)) = Inl (DbError ''22003'')"
  using bulk_valid[of 3000000000] bulk_refused[of 100 3000000000 "DbError ''22003''"] by (simp add: int4_in_def)

theorem vast_quantity_malformed:
  "create_order_dto_valid sample_formats (bulk_dto (10 ^ 21)) \<and>
   fst (createOrder checkout_wiring None (bulk_command (10 ^ 21)) (bulk_world 0)) = Inl (DbError ''22P02'')"
  using bulk_valid[of "10 ^ 21"] bulk_refused[of 0 "10 ^ 21" "DbError ''22P02''"] by (simp add: int4_in_def)

end
