(* ===== verification/Startup.thy ===== *)
theory Startup
  imports Endpoints Json
begin

text \<open>
  Start-up and configuration: the client providers \<open>common/database/pg.provider.ts\<close> and
  \<open>redis.provider.ts\<close>, and \<open>bootstrap\<close> of \<open>main.ts\<close>. The configuration is what
  \<open>ConfigService.get\<close> answers, a text or nothing. \<open>Number(text)\<close> is written out, with the values
  the number model leaves out. The two client libraries are parameters: what \<open>createClient\<close> and
  \<open>connect\<close> throw or return. The pool connects lazily and is a value.
\<close>

section \<open>Number of a text\<close>

datatype js_value = NaN | Infinite bool | Finite number

text \<open>A decimal without sign: digits with at most one point, at least one digit, an exponent.\<close>

definition unsigned_decimal :: "string \<Rightarrow> rat option" where
  "unsigned_decimal s =
     (let whole = takeWhile is_digit s;
          r = drop (length whole) s;
          frac = (if startsWith ''.'' r then takeWhile is_digit (tl r) else []);
          rest = (if startsWith ''.'' r then drop (length frac) (tl r) else r)
      in if whole = [] \<and> frac = [] then None
         else (case parse_exponent rest of
                 None \<Rightarrow> None
               | Some (e, end_of) \<Rightarrow>
                   if end_of = [] then Some (scaled (of_nat (digits_val (whole @ frac))) (e - int (length frac))) else None))"

text \<open>Beyond the largest double, rounding gives an infinity.\<close>

definition to_double :: "bool \<Rightarrow> rat \<Rightarrow> js_value" where
  "to_double neg q = (if 1024 \<le> exponent (fl q) then Infinite neg else Finite (fl (if neg then - q else q)))"

definition signed_decimal :: "bool \<Rightarrow> string \<Rightarrow> js_value" where
  "signed_decimal neg s =
     (if s = ''Infinity'' then Infinite neg
      else (case unsigned_decimal s of None \<Rightarrow> NaN | Some q \<Rightarrow> to_double neg q))"

definition radix_value :: "nat \<Rightarrow> string \<Rightarrow> js_value" where
  "radix_value base s =
     (if s \<noteq> [] \<and> list_all (\<lambda>c. case hex_val c of None \<Rightarrow> False | Some v \<Rightarrow> v < base) s
      then to_double False (of_nat (foldl (\<lambda>n c. n * base + the (hex_val c)) 0 s)) else NaN)"

definition Number :: "string \<Rightarrow> js_value" where
  "Number text =
     (let s = trim text in
      if s = [] then Finite 0
      else if startsWith ''0x'' s \<or> startsWith ''0X'' s then radix_value 16 (drop 2 s)
      else if startsWith ''0o'' s \<or> startsWith ''0O'' s then radix_value 8 (drop 2 s)
      else if startsWith ''0b'' s \<or> startsWith ''0B'' s then radix_value 2 (drop 2 s)
      else if startsWith ''-'' s then signed_decimal True (tl s)
      else if startsWith ''+'' s then signed_decimal False (tl s)
      else signed_decimal False s)"

lemma Number_examples:
  "Number '' 25 '' = Finite 25" "Number '''' = Finite 0" "Number ''-1.5e1'' = Finite (-15)" "Number ''0x1F'' = Finite 31"
  "Number ''ten'' = NaN" "Number ''1.2.3'' = NaN" "Number ''.5'' = Finite (1/2)" "Number ''-Infinity'' = Infinite True"
  by code_simp+

section \<open>The providers\<close>

type_synonym config = "string \<Rightarrow> string option"

record pool_options =
  po_connectionString :: string
  po_max :: js_value
  po_idleTimeoutMillis :: int
  po_connectionTimeoutMillis :: int

definition pgPoolProvider :: "config \<Rightarrow> err + pool_options" where
  "pgPoolProvider config =
     sum_bind (configured ''DATABASE_URL is not configured'' (config ''DATABASE_URL'')) (\<lambda>connectionString.
       Inr \<lparr>po_connectionString = connectionString,
            po_max = (case config ''PG_POOL_MAX'' of None \<Rightarrow> Finite 10 | Some n \<Rightarrow> Number n),
            po_idleTimeoutMillis = 30000, po_connectionTimeoutMillis = 5000\<rparr>)"

text \<open>The handler of the client's \<open>error\<close> events does nothing, so it leaves no trace here.\<close>

definition redisProvider :: "config \<Rightarrow> (string \<Rightarrow> err + 'c) \<Rightarrow> ('c \<Rightarrow> err + unit) \<Rightarrow> err + 'c" where
  "redisProvider config createClient connect =
     sum_bind (configured ''REDIS_URL is not configured'' (config ''REDIS_URL'')) (\<lambda>url.
     sum_bind (createClient url) (\<lambda>client.
     sum_bind (connect client) (\<lambda>_. Inr client)))"

text \<open>
  \<open>NestFactory.create\<close> builds the providers and fails with the first that throws; only then does
  the application listen, on the port of the environment or 3000. The settings of the body
  parser and of the validation pipe are fields; what they do is in theory \<open>Endpoints\<close>.
\<close>

record 'c application =
  ap_pool :: pool_options
  ap_redis :: 'c
  ap_rawBody :: bool
  ap_whitelist :: bool
  ap_forbidNonWhitelisted :: bool
  ap_transform :: bool
  ap_port :: "string + int"

definition bootstrap :: "config \<Rightarrow> (string \<Rightarrow> err + 'c) \<Rightarrow> ('c \<Rightarrow> err + unit) \<Rightarrow> err + 'c application" where
  "bootstrap env createClient connect =
     sum_bind (pgPoolProvider env) (\<lambda>pool.
     sum_bind (redisProvider env createClient connect) (\<lambda>redis.
       Inr \<lparr>ap_pool = pool, ap_redis = redis, ap_rawBody = True,
            ap_whitelist = True, ap_forbidNonWhitelisted = True, ap_transform = True,
            ap_port = (case env ''PORT'' of None \<Rightarrow> Inr 3000 | Some p \<Rightarrow> Inl p)\<rparr>))"

section \<open>What an unset secret does\<close>

text \<open>A setting that is missing or empty: both are falsy.\<close>

definition unset :: "string option \<Rightarrow> bool" where
  "unset s \<longleftrightarrow> s = None \<or> s = Some []"

lemma configured_unset: "unset s \<Longrightarrow> configured message s = Inl (PlainError message)"
  by (auto simp: unset_def configured_def)

lemma bootstrap_unset:
  assumes "unset (env ''DATABASE_URL'') \<or> unset (env ''REDIS_URL'')"
  shows "\<exists>e. bootstrap env createClient connect = Inl e"
  using assms
  by (auto simp: bootstrap_def pgPoolProvider_def redisProvider_def configured_unset sum_bind_def split: sum.splits)

lemma guard_unset:
  assumes "unset (gt_secret g)"
  shows "\<exists>k. session_of g False w = Inl (UnauthorizedException k)"
  using assms by (auto simp: session_of_def canActivate_def unset_def split: option.splits)

lemma webhook_unset:
  assumes "unset secret"
  shows "\<exists>e. PaymentController_handle g F hmac parse_date secret rawBody dto signature w = (Inl e, w)"
  using assms by (auto simp: PaymentController_handle_def route_public handle_def unset_def)

lemma request_unset:
  assumes "unset secret" "requestOtp R hmac notify secret draw phone w = (r, w')"
  shows "(\<forall>s. r \<noteq> Inr (Otp_Sent s)) \<and> committed w' = committed w"
proof (cases "normaliseBdPhone phone")
  case None
  then show ?thesis using assms(2) by (auto simp: requestOtp_def)
next
  case (Some p)
  obtain d s where "hit R (''otp:request:'' @ p) (rp_limit otpRequest_policy) (rp_windowSeconds otpRequest_policy) w =
      (Inr d, w\<lparr>rw_redis := s\<rparr>)"
    by (metis hit_total)
  then show ?thesis
    using assms(2) Some configured_unset[OF assms(1)]
    by (auto simp: requestOtp_def issueAndSend_def otpSecret_def act_bind_def split: if_splits)
qed

text \<open>Without both secrets nobody is signed in.\<close>

lemma complete_unset:
  assumes "unset sessionKey" "completeLogin R hmac sessionKey phone w = (Inr r, w')"
  shows "r \<noteq> Authenticated token user"
  using assms(2) configured_unset[OF assms(1)]
  by (auto simp: completeLogin_def sessionSecret_def act_bind_Inr_iff act_lift_iff split: option.splits)

lemma verify_unset:
  assumes "unset secret \<or> unset sessionKey" "verifyOtp_svc R hmac secret sessionKey phone submitted w = (r, w')"
  shows "r \<noteq> Inr (Authenticated token user)"
proof
  assume r: "r = Inr (Authenticated token user)"
  then obtain p w1 where c: "checkCode R hmac secret sessionKey p submitted w1 = (Inr (Authenticated token user), w')"
    using assms(2) by (auto simp: verifyOtp_svc_def act_bind_Inr_iff split: option.splits if_splits)
  obtain k challenge outcome w2 where k: "otpSecret secret = Inr k"
    and o: "(case outcome of Refused reason \<Rightarrow>
           act_bind (case challenge of None \<Rightarrow> act_return () | Some ch \<Rightarrow> recordAttempt R p ch) (\<lambda>_.
             act_return (Rejected_Otp reason))
       | Ok_Outcome \<Rightarrow> completeLogin R hmac sessionKey p) w2 = (Inr (Authenticated token user), w')"
    using c by (auto simp: checkCode_def act_bind_Inr_iff act_lift_iff)
  have "completeLogin R hmac sessionKey p w2 = (Inr (Authenticated token user), w')"
    using o by (cases outcome) (auto simp: act_bind_Inr_iff)
  note login = this
  show False
    using assms(1) k complete_unset[OF _ login] configured_unset[of secret] by (auto simp: otpSecret_def)
qed

section \<open>Properties\<close>

text \<open>
  C34. A deployment that lacks a setting fails closed. Without a database or Redis address the
  application does not start. With the session secret unset or empty every protected route
  answers 401 whatever the token; with the webhook secret unset every webhook is refused; both
  leave everything as it was. With the one-time-password secret unset no code is reported sent and
  nothing is written to the database; without it or without the session secret nobody is signed in.
\<close>

theorem unconfigured_fails_closed:
  fixes w :: world and rw :: "'r redis_world"
  shows "(unset (env ''DATABASE_URL'') \<or> unset (env ''REDIS_URL'') \<longrightarrow> (\<exists>e. bootstrap env createClient connect = Inl e)) \<and>
    (unset (gt_secret g) \<longrightarrow> (\<exists>k. route g False valid handler w = (Inl (UnauthorizedException k), w))) \<and>
    (unset webhook \<longrightarrow> (\<exists>e. PaymentController_handle g F hmac parse_date webhook rawBody payload signature w = (Inl e, w))) \<and>
    (unset otp \<longrightarrow> (\<forall>s. fst (AuthController_requestOtp g R hmac otp draw asked rw) \<noteq> Inr (Otp_Sent s)) \<and>
       committed (snd (AuthController_requestOtp g R hmac otp draw asked rw)) = committed rw) \<and>
    (unset otp \<or> unset (gt_secret g) \<longrightarrow>
       (\<forall>token user. fst (AuthController_verifyOtp g R hmac otp given rw) \<noteq> Inr (Authenticated token user)))"
proof (intro conjI impI allI)
  have req: "(\<forall>s. fst (requestOtp R hmac enqueue otp draw (qd_phone asked) rw) \<noteq> Inr (Otp_Sent s)) \<and>
      committed (snd (requestOtp R hmac enqueue otp draw (qd_phone asked) rw)) = committed rw" if "unset otp"
    by (rule request_unset[OF that prod.collapse[symmetric]])
  have ver: "fst (verifyOtp_svc R hmac otp (gt_secret g) (vd_phone given) (vd_code given) rw) \<noteq> Inr (Authenticated token user)"
    if "unset otp \<or> unset (gt_secret g)" for token user
    by (rule verify_unset[OF that prod.collapse[symmetric]])
  show "\<exists>e. bootstrap env createClient connect = Inl e" if "unset (env ''DATABASE_URL'') \<or> unset (env ''REDIS_URL'')"
    using that by (rule bootstrap_unset)
  show "\<exists>k. route g False valid handler w = (Inl (UnauthorizedException k), w)" if "unset (gt_secret g)"
    using guard_unset[OF that, of w] by (auto simp: route_protected)
  show "\<exists>e. PaymentController_handle g F hmac parse_date webhook rawBody payload signature w = (Inl e, w)" if "unset webhook"
    using that by (rule webhook_unset)
  show "fst (AuthController_requestOtp g R hmac otp draw asked rw) \<noteq> Inr (Otp_Sent s)" if "unset otp" for s
    using req[OF that] by (simp add: AuthController_requestOtp_def route_public)
  show "committed (snd (AuthController_requestOtp g R hmac otp draw asked rw)) = committed rw" if "unset otp"
    using req[OF that] by (simp add: AuthController_requestOtp_def route_public)
  show "fst (AuthController_verifyOtp g R hmac otp given rw) \<noteq> Inr (Authenticated token user)"
    if "unset otp \<or> unset (gt_secret g)" for token user
    using ver[OF that] by (simp add: AuthController_verifyOtp_def route_public)
qed

theorem unconfigured_fails_closed_witness:
  "(\<exists>e. bootstrap (\<lambda>_. None) (\<lambda>url. Inr ()) (\<lambda>_. Inr ()) = Inl e) \<and>
   (\<exists>k. route ((sample_gate (Some ''Bearer x''))\<lparr>gt_secret := Some []\<rparr>) False True (\<lambda>_ w. (Inr (), w)) sample_world =
      (Inl (UnauthorizedException k), sample_world))"
proof -
  note closed = unconfigured_fails_closed[where env = "\<lambda>_. None" and createClient = "\<lambda>url. Inr ()" and connect = "\<lambda>_. Inr ()"
      and valid = True and handler = "\<lambda>_ w. (Inr (), w)" and w = sample_world
      and g = "(sample_gate (Some ''Bearer x''))\<lparr>gt_secret := Some []\<rparr>"]
  show ?thesis
    using conjunct1[OF closed] conjunct1[OF conjunct2[OF closed]] by (simp add: unset_def)
qed

text \<open>With both addresses set and a client that connects, the application starts.\<close>

theorem configured_starts:
  assumes "env ''DATABASE_URL'' = Some db_url" "db_url \<noteq> []" "env ''REDIS_URL'' = Some redis_url" "redis_url \<noteq> []"
    and "createClient redis_url = Inr client" "connect client = Inr ()"
  shows "\<exists>app. bootstrap env createClient connect = Inr app \<and> po_connectionString (ap_pool app) = db_url \<and> ap_redis app = client \<and>
    (env ''PG_POOL_MAX'' = None \<longrightarrow> po_max (ap_pool app) = Finite 10) \<and> (env ''PORT'' = None \<longrightarrow> ap_port app = Inr 3000)"
  using assms by (simp add: bootstrap_def pgPoolProvider_def redisProvider_def configured_def)

end
