(* ===== verification/Spec2Isabelle.thy ===== *)
theory Spec2Isabelle
  imports Timeline Replay SignIn Purchase CheckoutErrors Startup
begin

text \<open>
  A verification development for the Sobkichu API (\<open>api/src\<close>), a marketplace backend for
  Bangladesh: NestJS services over PostgreSQL and Redis, with SMS and push gateways and payment
  aggregators outside.

  \<^bold>\<open>The program and its theories.\<close> Each theory opens with the files it models; a definition
  keeps the name of the function, method, type or constant it models.

  \<^item> Ground: \<open>Prelude\<close> (errors as values, statements that thread a state, row updates, the
    named collections), \<open>JsNumber\<close> (JavaScript numbers: exact rationals rounded to doubles after
    each operation), \<open>JsString\<close>, \<open>Bytes\<close> (hex, base64 and UTF-8 of \<open>Buffer\<close>), \<open>Json\<close>
    (\<open>JSON.parse\<close> and what is used of \<open>JSON.stringify\<close>).
  \<^item> \<open>Money\<close>: \<open>common/money.ts\<close>. \<open>DeliveryClock\<close>: \<open>common/compliance/delivery-clock.ts\<close>.
    \<open>AdvanceCap\<close>: \<open>order/domain/advance-cap.ts\<close>.
  \<^item> \<open>Database\<close>: the rows, constraints and driver conversions of \<open>docs/data-model\<close>.
    \<open>UnitOfWork\<close>: \<open>common/database/unit-of-work.ts\<close>, \<open>pg-unit-of-work.ts\<close>.
  \<^item> \<open>ChannelPolicy\<close>, \<open>Notification\<close>, \<open>Render\<close>, \<open>Dispatcher\<close>: the \<open>notification\<close> module,
    from queueing in the caller's transaction to delivery with retries. \<open>Drain\<close>: what repeated
    passes do to the queue. \<open>Bundles\<close>: the messages
    of \<open>locales/bn\<close> and \<open>locales/en\<close> as the module loads them.
  \<^item> \<open>Location\<close>, \<open>Merchant\<close>, \<open>Catalog\<close>: addresses, the merchant facts other modules ask for,
    listings, radius search and cart resolution, each behind its port of \<open>common/ports\<close>.
  \<^item> \<open>OrderRepo\<close>, \<open>OrderService\<close>, \<open>CheckoutProgress\<close>, \<open>CheckoutErrors\<close>: the \<open>order\<close>
    module. \<open>Payment\<close>, \<open>Progress\<close>, \<open>Webhook\<close>: the \<open>payment\<close> module.
  \<^item> \<open>Redis\<close>, \<open>RateLimit\<close>, \<open>Otp\<close>, \<open>UserRepo\<close>, \<open>Auth\<close>, \<open>Login\<close>, \<open>SignIn\<close>, \<open>Onboarding\<close>: the
    \<open>identity\<close> module and \<open>common/rate-limit\<close>. \<open>Session\<close>: \<open>common/auth\<close>.
  \<^item> \<open>Endpoints\<close>: every controller and request body, behind the guard and the validation pipe.
    \<open>Startup\<close>: the client providers and \<open>bootstrap\<close> of \<open>main.ts\<close>.
  \<^item> \<open>Platform\<close>, \<open>Refinement\<close>, \<open>Mail\<close>: the abstract state machine of the tables, its simulation
    by the endpoints, and what the outbox holds. \<open>Races\<close>, \<open>Overlap\<close>: what of both survives when
    transactions overlap. \<open>Timeline\<close>: the audit trail of every order. \<open>Replay\<close>: payments that are
    over stay so. \<open>Purchase\<close>: checkout, settlement and delivery of the receipt as one
    story. This theory: the properties of whole histories.

  \<^bold>\<open>State and effects.\<close> A repository statement is a function from the tables to an error or a
  value with new tables (\<open>'a sql\<close>). A service method is an action on a world (the committed
  tables, the transaction in flight, the connection failures to come, the clock, and where
  needed Redis or the gateways' logs) that returns or throws and leaves a world. A \<open>throw\<close> is a
  value of \<open>err\<close>. \<open>act_bind\<close> is \<open>await\<close>, \<open>act_catch\<close> is \<open>try/catch\<close>.

  \<^bold>\<open>Interfaces.\<close> Where the code injects a port, the model has a locale with the port's
  operations and laws, the client's lemmas are proved inside it, and the provider's theory
  interprets it: \<open>unit_of_work\<close>, \<open>notification_port\<close>, \<open>location_port\<close>, \<open>merchant_port\<close>,
  \<open>catalog_port\<close>, \<open>order_port\<close>, and \<open>checkout\<close> and \<open>settlement\<close>, which combine them.
  \<open>state_contract\<close> carries a relation on the tables through the combinators, and
  \<open>service_contract\<close> extends it with a law for each kind of write: a relation with these laws is
  kept by every endpoint and every history. It is interpreted for the steps of the platform
  (\<open>Refinement\<close>), for the messages of the outbox (\<open>Mail\<close>) and for the payments (\<open>Replay\<close>). \<open>overlap_contract\<close> extends it by the
  writes that come late, and \<open>Overlap\<close> interprets it for the first two, \<open>Timeline\<close> for the status events.

  \<^bold>\<open>What the lemmas show.\<close> Money is exact inside the range of its column, and conversions are
  inverse to each other. An order is priced from stored data, capped by the rule of the
  guideline, written completely or not at all; what is written is well typed, and a valid
  checkout is not refused. A settlement is applied at most once when none overlaps it, moves payment and order together, and starts
  the delivery clock once; a genuine one goes through. A transaction is all or nothing for any
  work. Notifications always include SMS, render from the bundles, are retried at most five
  times, and may be delivered twice; the queue drains whatever the gateways do. A session is accepted exactly when the server signed it and
  it has not expired; a one-time code, when submissions run one after the other, works once and survives at
  most five wrong guesses; it signs in whoever it was sent to. The theorems of this theory are about every history of requests,
  webhooks and dispatcher passes, and most of them about overlapping ones: the tables stay
  sound, orders stay priced, capped, clocked and paid as they should, their terms are final and
  their status timelines complete, every
  queued message is delivered once the gateways accept, and the API verifies no merchant.

  \<^bold>\<open>Bounds and fuel.\<close> The only fuel is that of the JSON parser: \<open>parse_json\<close> gives it two units
  per character and two more, and \<open>parse_enough\<close> shows that more never changes the answer.
  Exactness of money needs amounts below \<open>10 ^ 12\<close> poisha, the range of \<open>NUMERIC(12,2)\<close>, which
  \<open>prices_ok\<close> states of stored prices and \<open>system_stays_sound\<close> shows to persist.

  \<^bold>\<open>Parameters.\<close> HMAC-SHA256, the number drawn by \<open>randomInt\<close>, the Redis server (with the
  documented laws \<open>redis_laws\<close> where a property needs them: what each command does alone, and that
  \<open>MULTI\<close> runs the commands the client queued in order; which commands those are, with their
  options, is the model's \<open>hit\<close>), the SMS and push gateways, the
  PostGIS distance functions, the parsing of ISO dates, the format tests of the validation
  library, the environment variables, the ids \<open>gen_random_uuid()\<close> draws (a repeated id is a
  primary key violation; only the theorems that something goes through assume fresh ones), which
  rows other dispatchers have locked, the time, and the failures of connect, \<open>BEGIN\<close> and \<open>COMMIT\<close>.

  \<^bold>\<open>Concurrency.\<close> The database runs at \<open>READ COMMITTED\<close>. In \<open>serves\<close> requests run one after the
  other, except that the writes of a checkout or a publication may come after anything else was
  served since its reads. \<open>overlaps\<close> lets every transaction that reads before it writes do so: a
  settlement, a KYC submission and the delivery of a claimed row may write on the strength of
  any earlier state of the history. The writes of one transaction stay together: their first
  locks the row that a second transaction of the same kind would have to change. What survives
  is proved of \<open>overlaps\<close>; what does not is stated (\<open>late_failure_unsettles\<close>,
  \<open>concurrent_duplicate_not_rejected\<close>, \<open>claim_hands_out_rows_again\<close>, and for Redis
  \<open>concurrent_guesses_count_once\<close> and \<open>late_attempt_revives_code\<close>).

  \<^bold>\<open>Not modelled.\<close> A failing \<open>ROLLBACK\<close>, NaN and infinities, texts with code units above 255 (HOL's
  characters; the Bangla bundle is held as the bytes of its UTF-8 encoding), the shape of UUID
  texts, logging, request bodies whose optional texts are not strings, which the validators
  do not exclude, a signed session whose active role is neither a text nor null, which the server
  never issues, and PostgreSQL's refusal of dates before 4713 BC. Of the module declarations only the bindings of ports to providers appear, as
  the records \<open>checkout_wiring\<close>, \<open>settlement_wiring\<close> and \<open>notification_wiring\<close>; the rest is
  instructions to the framework. Not modelled at all: the database migrations and the Python
  tools, which are not part of the running program.
\<close>

section \<open>A history of the small database\<close>

lemma sample_platform_ok: "platform_ok sample_db"
  by (simp add: platform_ok_def prices_ok_def ledger_with_def outbox_ok_def sample_db_def sample_listing_def)

lemma sample_service:
  "\<exists>d' o1. serves map_redis sample_db d' \<and> orders d' = [o1] \<and> o_advance_amount_bdt o1 = 4000 \<and> outbox d' \<noteq> []"
proof -
  obtain token where s: "session_of (sample_gate (Some (''Bearer '' @ token))) False sample_world =
     Inr (Some \<lparr>ca_userId = ''buyer'', ca_activeRoleId = None\<rparr>)" using sample_session by blast
  obtain x w' where p: "createOrder checkout_wiring None (sample_order_command Bkash (of_int 4000)) sample_world = (Inr x, w')"
    using sample_placed[where m = Bkash and a = 4000 and env = None] by auto
  have o: "OrderController_create (sample_gate (Some (''Bearer '' @ token))) sample_formats None sample_order_dto
      sample_world = (Inr x, w')"
    using s p by (simp add: OrderController_create_def route_protected sample_order_valid sample_ordered)
  have "serves map_redis (committed sample_world) (committed w')" by (rule order[OF o]) simp
  moreover have "\<exists>o1. orders (committed w') = [o1] \<and> o_advance_amount_bdt o1 = 4000"
    using sample_world_simps(2) p
  proof (rule placed_order_rows, goal_cases)
    case (1 resolved p m pk pickup delivery subtotal fee total_bdt advance cap items t)
    have "orders sample_db = []" by (simp add: sample_db_def)
    moreover have "advance = 4000"
      using poishaToTaka_numeric[OF orderRecord_Inr(4)[OF 1(11)], of advance] 1(15) by simp
    ultimately show ?case using 1(20) by (simp add: order_of_def)
  qed
  moreover have "outbox (committed w') \<noteq> []" by (rule placed_not_empty[OF _ p]) simp
  ultimately show ?thesis by auto
qed

section \<open>From any state of a history to the present\<close>

lemma steps_to_present:
  assumes "overlaps R (d' # ds)" "prices_ok (last (d' # ds))" "d \<in> set (d' # ds)"
  shows "racing_steps d d'"
proof -
  have "\<forall>d\<in>set (d' # ds). prices_ok d \<and> racing_steps d d'"
    using racing.overlapped[OF assms(1,2)] unfolding list.sel(1) by (rule conjunct2)
  then show ?thesis using assms(3) by blast
qed

lemma overlaps_earlier: "overlaps R (d' # d # ds) \<Longrightarrow> overlaps R (d # ds)"
  by (erule overlaps.cases) simp_all

lemma sound_throughout:
  assumes "overlaps R ds" "prices_ok (last ds)" "ledger_sound (last ds)" "d \<in> set ds"
  shows "ledger_sound d"
  using assms
proof (induction ds rule: list.induct)
  case (Cons d' ds)
  show ?case
  proof (cases "d = d'")
    case True
    have "racing_steps (last (d' # ds)) d'" by (rule steps_to_present[OF Cons.prems(1,2)]) simp
    then show ?thesis using ledger_sound_steps Cons.prems(3) True by blast
  next
    case False
    then obtain d1 rest where ds: "ds = d1 # rest" using Cons.prems(4) by (cases ds) auto
    show ?thesis
      by (rule Cons.IH) (use Cons.prems False ds overlaps_earlier in auto)
  qed
qed simp

lemma mail_throughout:
  assumes "overlaps R (d' # ds)"
  shows "mail_kept (last (d' # ds)) d'"
proof -
  have "\<forall>d\<in>set (d' # ds). True \<and> mail_kept d d'" using mail_late.overlapped[OF assms] by simp
  then show ?thesis using last_in_set[of "d' # ds"] by blast
qed

text \<open>A request without a token is turned away and leaves everything as it is.\<close>

lemma turned_away: "serves R d d"
proof -
  let ?w = "\<lparr>committed = d, inflight = None, tx_faults = [], clock = 0\<rparr> :: world"
  have "AuthController_listRoles (sample_gate None) ?w = (Inl (UnauthorizedException ''error.auth.missing_token''), ?w)"
    by (simp add: AuthController_listRoles_def route_protected session_of_def sample_gate_def canActivate_def)
  from roles[OF this, of R] show ?thesis by simp
qed

section \<open>Properties of the whole system\<close>

text \<open>
  C3. The endpoints implement the platform: whatever request, webhook or dispatcher pass is
  served, with whatever configuration, time, connection failures and answers of Redis and the
  gateways, the committed tables change by a sequence of platform steps, provided the stored
  prices are within the range of their column.
\<close>

theorem system_refines_platform:
  assumes "serves R d d'" "prices_ok d"
  shows "platform_step\<^sup>*\<^sup>* d d'"
  using assms by (rule platform.served)

theorem system_refines_platform_witness: "\<exists>d'. platform_step\<^sup>*\<^sup>* sample_db d' \<and> length (orders d') = 1"
proof -
  obtain d' o1 where s: "serves map_redis sample_db d'" "orders d' = [o1]" using sample_service by blast
  have "prices_ok sample_db" using sample_platform_ok by (simp add: platform_ok_def)
  from system_refines_platform[OF s(1) this] show ?thesis using s(2) by auto
qed

text \<open>
  C20. The state of the system stays sound: from tables that satisfy the platform invariant (prices
  in range; orders and payments with unique ids, item rows and payments that belong to an order,
  orders that are priced, capped, clocked and paid as they should; attempt counts of the outbox
  in bounds; one account per phone number) every history leads to tables that satisfy it in which
  requests, webhooks and dispatcher passes are served one after the other, except that a checkout
  or a publication may write later than it read. Settlements must not overlap: one that does can
  leave an order whose clock runs on a payment marked failed (\<open>late_failure_unsettles\<close>), which is
  outside the invariant. What holds however they overlap is \<open>reachable_orders_sound\<close>.
\<close>

theorem system_stays_sound:
  assumes "(serves R)\<^sup>*\<^sup>* d d'" "platform_ok d"
  shows "platform_ok d'"
proof -
  have "prices_ok d" using assms(2) by (simp add: platform_ok_def)
  then show ?thesis using platform_ok_steps[OF history_steps[OF assms(1)]] assms(2) by blast
qed

theorem system_stays_sound_witness: "\<exists>d'. (serves map_redis)\<^sup>*\<^sup>* sample_db d' \<and> length (orders d') = 1 \<and> platform_ok d'"
proof -
  obtain d' o1 where s: "serves map_redis sample_db d'" "orders d' = [o1]" using sample_service by blast
  then have "(serves map_redis)\<^sup>*\<^sup>* sample_db d'" by simp
  from this system_stays_sound[OF this sample_platform_ok] show ?thesis using s(2) by auto
qed

text \<open>
  C1. Every order that can ever be read is in order, however transactions overlap: its subtotal is the sum of its item rows, its
  total adds the delivery fee, its cap is the total or a tenth of it rounded down, its advance
  lies between zero and the cap, its delivery deadline is five or ten days after the advance
  was paid and absent before, and when it is confirmed there is a settled payment for it of
  exactly its advance, or of its total for cash on delivery.
\<close>

theorem reachable_orders_sound:
  assumes "overlaps R (d' # ds)" "platform_ok (last (d' # ds))" "o1 \<in> set (orders d')"
  shows "o_subtotal_bdt o1 = (\<Sum>row\<leftarrow>filter (\<lambda>row. oi_order_id row = o_id o1) (order_items d').
       oi_unit_price_bdt row * oi_quantity row) \<and>
    o_total_bdt o1 = o_subtotal_bdt o1 + o_delivery_fee_bdt o1 \<and>
    o_advance_cap_bdt o1 = (if o_is_escrow o1 \<or> o_all_items_ready_to_ship o1 then o_total_bdt o1 else o_total_bdt o1 div 10) \<and>
    0 \<le> o_advance_amount_bdt o1 \<and> o_advance_amount_bdt o1 \<le> o_advance_cap_bdt o1 \<and>
    o_delivery_deadline_at o1 =
      map_option (\<lambda>paid. paid + (if o_is_same_city o1 then 5 else 10) * 86400000) (o_advance_paid_at o1) \<and>
    (o_status o1 = Confirmed \<longrightarrow> (\<exists>t\<in>set (transactions d'). t_order_id t = o_id o1 \<and> t_status t = Settled \<and>
       t_amount_bdt t = (if o_payment_method o1 = Cod then o_total_bdt o1 else o_advance_amount_bdt o1)))"
proof -
  have start: "prices_ok (last (d' # ds))" "ledger_sound (last (d' # ds))"
    using assms(2) ledger_ok_sound by (simp_all add: platform_ok_def del: last.simps)
  have ok: "ledger_sound d'" by (rule ledger_sound_steps[OF steps_to_present[OF assms(1) start(1)] start(2)]) simp
  then have o1: "order_wf o1 (filter (\<lambda>row. oi_order_id row = o_id o1) (order_items d'))" "clock_ok o1" "confirmed_ok d' o1"
    using assms(3) by (simp_all add: ledger_with_def)
  have amount: "t_amount_bdt t = (if o_payment_method o1 = Cod then o_total_bdt o1 else o_advance_amount_bdt o1)"
    if t: "settled_for d' o1 t" for t
  proof -
    obtain o2 where o2: "o2 \<in> set (orders d')" "payment_of o2 t" using ok t by (auto simp: ledger_with_def settled_for_def)
    then have "o2 = o1"
      using ok assms(3) t distinct_key_eq[of o_id "orders d'" o2 o1] by (auto simp: ledger_with_def settled_for_def payment_of_def)
    then show ?thesis using o2(2) by (simp add: payment_of_def)
  qed
  have "o_delivery_deadline_at o1 =
      map_option (\<lambda>paid. paid + (if o_is_same_city o1 then 5 else 10) * 86400000) (o_advance_paid_at o1)"
    using o1(2)
    by (cases "o_is_same_city o1") (simp_all add: clock_ok_def deliveryWindowDays_def SAME_CITY_DELIVERY_DAYS_def
        DIFFERENT_CITY_DELIVERY_DAYS_def MS_PER_DAY_def)
  moreover have "\<exists>t\<in>set (transactions d'). t_order_id t = o_id o1 \<and> t_status t = Settled \<and>
       t_amount_bdt t = (if o_payment_method o1 = Cod then o_total_bdt o1 else o_advance_amount_bdt o1)"
    if confirmed: "o_status o1 = Confirmed"
  proof -
    obtain t where "settled_for d' o1 t" using o1(3) confirmed by (auto simp: confirmed_ok_def)
    then show ?thesis using amount by (auto simp: settled_for_def)
  qed
  ultimately show ?thesis
    using o1(1) unfolding order_wf_def items_total_def cap_rule_def by blast
qed

theorem reachable_orders_sound_witness:
  "\<exists>(d' :: db) o1. orders d' = [o1] \<and> o_advance_amount_bdt o1 = 4000 \<and> 4000 \<le> o_advance_cap_bdt o1"
proof -
  obtain d' o1 where s: "serves map_redis sample_db d'" "orders d' = [o1]" "o_advance_amount_bdt o1 = 4000"
    using sample_service by blast
  have h: "overlaps map_redis [d', sample_db]" by (rule at_once[OF start s(1)])
  have ok: "platform_ok (last [d', sample_db])" using sample_platform_ok by simp
  have "o1 \<in> set (orders d')" using s(2) by simp
  then have "o_advance_amount_bdt o1 \<le> o_advance_cap_bdt o1"
    using reachable_orders_sound[OF h ok] by blast
  then show ?thesis using s(2,3) by (intro exI[of _ d'] exI[of _ o1]) simp
qed

text \<open>
  C4. The terms of an order are final: no later request, webhook or dispatcher pass, overlapping
  or not, deletes an order or changes its parties, address, payment method, amounts, cap or compliance flags, and
  once its delivery clock has started neither the time of payment nor the deadline changes.
\<close>

theorem order_terms_are_final:
  assumes "overlaps R (d' # ds)" "platform_ok (last (d' # ds))" "d \<in> set ds" "o1 \<in> set (orders d)"
  shows "\<exists>o2\<in>set (orders d'). o2 = o1\<lparr>o_status := o_status o2, o_advance_paid_at := o_advance_paid_at o2,
       o_delivery_deadline_at := o_delivery_deadline_at o2\<rparr> \<and>
     (o_advance_paid_at o1 \<noteq> None \<longrightarrow> o_advance_paid_at o2 = o_advance_paid_at o1 \<and>
        o_delivery_deadline_at o2 = o_delivery_deadline_at o1)"
proof -
  have start: "prices_ok (last (d' # ds))" "ledger_sound (last (d' # ds))"
    using assms(2) ledger_ok_sound by (simp_all add: platform_ok_def del: last.simps)
  have "ledger_sound d" by (rule sound_throughout[OF assms(1) start]) (simp add: assms(3))
  then have "orders_evolve d d'" by (rule racing_evolve[OF steps_to_present[OF assms(1) start(1)], rotated]) (simp add: assms(3))
  then show ?thesis using assms(4) by (simp add: orders_evolve_def later_form_def same_terms_def)
qed

theorem order_terms_are_final_witness:
  "\<exists>d1 o1. overlaps map_redis [d1, d1, sample_db] \<and> orders d1 = [o1] \<and>
     (\<exists>o2\<in>set (orders d1). o_advance_amount_bdt o2 = o_advance_amount_bdt o1)"
proof -
  obtain d' o1 where s: "serves map_redis sample_db d'" "orders d' = [o1]" using sample_service by blast
  have h: "overlaps map_redis [d', d', sample_db]" by (rule at_once[OF at_once[OF start s(1)] turned_away])
  have ok: "platform_ok (last [d', d', sample_db])" using sample_platform_ok by simp
  obtain o2 where o2: "o2 \<in> set (orders d')" "o2 = o1\<lparr>o_status := o_status o2, o_advance_paid_at := o_advance_paid_at o2,
       o_delivery_deadline_at := o_delivery_deadline_at o2\<rparr>"
    using order_terms_are_final[OF h ok, of d' o1] s(2) by auto
  have "o_advance_amount_bdt o2 = o_advance_amount_bdt o1" by (subst o2(2)) simp
  then show ?thesis using h s(2) o2(1) by blast
qed

text \<open>
  C5. The status timeline of every order is complete and is only ever extended, however transactions overlap: its events, in
  the order they were written, start with the creation of the order, each starts from the status
  the one before ended in and confirms the order or sends it back to awaiting payment, and the
  last ends in the status the order has. The events written by any earlier time are still there,
  unchanged and in place.
\<close>

theorem status_timeline_complete:
  assumes "overlaps R (d' # ds)" "timeline_ok (last (d' # ds))" "o1 \<in> set (orders d')" "d \<in> set ds"
  shows "leads None (filter (\<lambda>e. se_order_id e = o_id o1) (status_events d')) (Some (o_status o1)) \<and>
    (\<exists>es. status_events d' = status_events d @ es)"
proof -
  have kept: "\<forall>d\<in>set (d' # ds). True \<and> timeline_kept d d'" using timeline.overlapped[OF assms(1)] by simp
  then have "timeline_kept (last (d' # ds)) d'" using last_in_set[of "d' # ds"] by blast
  then have "timeline_ok d'" using assms(2) unfolding timeline_kept_def by blast
  moreover have "timeline_kept d d'" using kept assms(4) by simp
  ultimately show ?thesis using assms(3) unfolding timeline_kept_def timeline_ok_def trail_def by blast
qed

theorem status_timeline_complete_witness:
  "\<exists>d' o1. serves map_redis sample_db d' \<and> orders d' = [o1] \<and>
     leads None (filter (\<lambda>e. se_order_id e = o_id o1) (status_events d')) (Some (o_status o1))"
proof -
  obtain d' o1 where s: "serves map_redis sample_db d'" "orders d' = [o1]" using sample_service by blast
  have h: "overlaps map_redis [d', sample_db]" by (rule at_once[OF start s(1)])
  have "timeline_ok (last [d', sample_db])" by (simp add: timeline_ok_def sample_db_def)
  from status_timeline_complete[OF h this, of o1 sample_db] show ?thesis using s by auto
qed

text \<open>
  C10. The API never verifies a merchant: whoever may publish and sell after any history of
  requests, overlapping or not, with the pickup address they have then, could do so before it; verification comes
  from outside only.
\<close>

theorem api_never_verifies:
  assumes "overlaps R (d' # ds)" "prices_ok (last (d' # ds))" "d \<in> set ds" "may_transact d' i p"
  shows "may_transact d i p"
proof -
  have "verified_grows_not d d'"
    by (rule racing_verified[OF steps_to_present[OF assms(1,2)]]) (simp add: assms(3))
  then show ?thesis using assms(4) by (auto simp: verified_grows_not_def may_transact_def)
qed

theorem api_never_verifies_witness:
  "\<exists>d'. overlaps map_redis [d', sample_db] \<and> (\<forall>i p. may_transact d' i p \<longrightarrow> may_transact sample_db i p)"
proof -
  obtain d' where s: "serves map_redis sample_db d'" using sample_service by blast
  have h: "overlaps map_redis [d', sample_db]" by (rule at_once[OF start s])
  have "prices_ok (last [d', sample_db])" using sample_platform_ok by (simp add: platform_ok_def)
  from h api_never_verifies[OF h this, of sample_db] show ?thesis by auto
qed

text \<open>
  C16. Every message can be rendered: after any history of requests, webhooks and dispatcher
  passes, overlapping or not, that began with an outbox whose messages render, each row of the
  outbox renders from the two bundles of the repository. No notification the system queues, of
  whatever event, for whatever recipient, fails for want of a template or of a parameter.
\<close>

theorem every_message_renders:
  assumes "overlaps R (d' # ds)"
    and "\<forall>r\<in>set (outbox (last (d' # ds))). \<exists>m. renderTemplate TEMPLATES (n_template_key r) (n_language r) (n_params r) = Inr m"
    and "r \<in> set (outbox d')"
  shows "\<exists>m. renderTemplate TEMPLATES (n_template_key r) (n_language r) (n_params r) = Inr m"
  using mail_throughout[OF assms(1)] assms(2,3) by (simp add: mail_kept_def mail_ok_def renders_def)

theorem every_message_renders_witness:
  "\<exists>d' r m. serves map_redis sample_db d' \<and> r \<in> set (outbox d') \<and>
     renderTemplate TEMPLATES (n_template_key r) (n_language r) (n_params r) = Inr m"
proof -
  obtain d' r where s: "serves map_redis sample_db d'" and r: "r \<in> set (outbox d')"
    using sample_service by (metis list.set_intros(1) neq_Nil_conv)
  have h: "overlaps map_redis [d', sample_db]" by (rule at_once[OF start s])
  have "outbox (last [d', sample_db]) = []" by (simp add: sample_db_def)
  then show ?thesis using every_message_renders[OF h _ r] s r by auto
qed

text \<open>
  C29. Every message is delivered: after any history of requests, webhooks and dispatcher passes,
  overlapping or not, that began with an outbox fit for the dispatcher, once gateways accept and
  the database answers, one pass for every fifty waiting rows empties the queue. Each message
  that waited goes out exactly once, rendered from the bundles of the repository, to the phone
  or to the push service of its channel, the oldest first, and nothing else goes out.
\<close>

theorem every_message_is_delivered:
  assumes "overlaps R (committed w # ds)"
    and start: "queue_ok (last (committed w # ds))"
      "\<forall>r\<in>set (outbox (last (committed w # ds))). \<exists>m. renderTemplate TEMPLATES (n_template_key r) (n_language r) (n_params r) = Inr m"
    and now: "inflight w = None" "tx_faults w = []" "dp_templates dp = TEMPLATES" "accepting dp"
    and "length (queue (committed w)) \<le> n * 50"
  shows "queue (committed (dispatch_passes dp n w)) = [] \<and>
    sms_log (dispatch_passes dp n w) = sms_log w @ sms_part dp (queue (committed w)) \<and>
    push_log (dispatch_passes dp n w) = push_log w @ push_part dp (queue (committed w))"
proof -
  have ok: "mail_ok (committed w)" "queue_ok (committed w)"
    using mail_throughout[OF assms(1)] start by (simp_all add: mail_kept_def mail_ok_def renders_def)
  then have "answering w" using now(1,2) by (simp add: answering_def queue_ok_def)
  moreover have "\<forall>r\<in>set (queue (committed w)). sendable dp r"
    using ok(1) now(3) by (auto simp: queue_rows mail_ok_def renders_def sendable_def rendered_def)
  ultimately show ?thesis using passes_deliver[of w dp n] now(4) assms(8) by simp
qed

theorem every_message_is_delivered_witness:
  "\<exists>d' (w' :: gateway_world). serves map_redis sample_db d' \<and> outbox d' \<noteq> [] \<and> queue (committed w') = [] \<and>
     length (sms_log w') + length (push_log w') = length (queue d')"
proof -
  obtain d' where s: "serves map_redis sample_db d'" "outbox d' \<noteq> []" using sample_service by blast
  let ?w = "\<lparr>committed = d', inflight = None, tx_faults = [], clock = 20, gateway_calls = 0, sms_log = [], push_log = []\<rparr>"
  let ?dp = "notification_wiring (\<lambda>e. [])"
  have h: "overlaps map_redis [committed ?w, sample_db]" using at_once[OF start s(1)] by simp
  have "queue_ok (last [committed ?w, sample_db])" "outbox (last [committed ?w, sample_db]) = []"
    by (simp_all add: queue_ok_def outbox_ok_def sample_db_def)
  then have "queue (committed (dispatch_passes ?dp (length (queue d')) ?w)) = [] \<and>
      sms_log (dispatch_passes ?dp (length (queue d')) ?w) = sms_part ?dp (queue d') \<and>
      push_log (dispatch_passes ?dp (length (queue d')) ?w) = push_part ?dp (queue d')"
    using every_message_is_delivered[OF h, of ?dp "length (queue d')"] notification_wiring_accepts by simp
  moreover have "length (sms_part ?dp rows) + length (push_part ?dp rows) = length rows" for rows
    by (induction rows) (simp_all add: sms_part_def push_part_def)
  ultimately show ?thesis using s by metis
qed

end
